(* ===== verification/Prelude.thy ===== *)
theory Prelude
  imports Main "HOL-Library.Word" "HOL-Library.Sublist"
begin

text \<open>
  Shared vocabulary of the development: Go error values, computations that thread the
  state of the process and may return an error or panic, and the calculus that all
  component proofs use.

  A Go function \<open>func f(...) (T, error)\<close> is a computation: a function of the world that
  gives an error (\<open>Inl\<close>) or a result (\<open>Inr\<close>) and the next world.  \<open>bnd\<close> is the idiom
  \<open>x, err := m; if err != nil { return err }\<close>, \<open>wrapE\<close> is \<open>fmt.Errorf("...: %w", err)\<close>,
  \<open>attempt\<close> hands the error to the code that follows instead of returning it, and \<open>deferred\<close>
  runs a deferred call on every way out.  A run-time panic (and a loop that runs out of its
  fuel) travels as an error that \<open>attempt\<close> and \<open>wrapE\<close> let through unchanged, since Go code
  that inspects an \<open>error\<close> value never sees it.
\<close>

section \<open>Error values\<close>

datatype errno = ENOENT | EEXIST | ENOTDIR | EISDIR | ENOTEMPTY | EBADF | EINVAL | EIO | EACCES

datatype rpc_code = InvalidArgument | Internal

datatype err =
    ErrText string            \<comment> \<open>\<open>errors.New\<close>, or \<open>fmt.Errorf\<close> without \<open>%w\<close>\<close>
  | ErrWrap string err        \<comment> \<open>\<open>fmt.Errorf("text: %w", err)\<close>\<close>
  | ErrOS errno               \<comment> \<open>an error of package \<open>os\<close>\<close>
  | ErrEOF                    \<comment> \<open>\<open>io.EOF\<close>\<close>
  | ErrRPC rpc_code err       \<comment> \<open>\<open>status.Error(code, err.Error())\<close>\<close>
  | ErrExt string int         \<comment> \<open>an error value of a package outside the repository\<close>
  | Panic string              \<comment> \<open>a run-time panic\<close>
  | Diverges                  \<comment> \<open>a loop that did not end within its fuel\<close>

fun unwinds :: "err \<Rightarrow> bool" where
  "unwinds (Panic _) = True"
| "unwinds Diverges = True"
| "unwinds _ = False"

text \<open>\<open>errors.Is(err, fs.ErrNotExist)\<close> follows the chain of wrapped errors;
  \<open>os.IsNotExist(err)\<close> looks at the error itself only.\<close>

fun errors_Is_NotExist :: "err \<Rightarrow> bool" where
  "errors_Is_NotExist (ErrOS ENOENT) = True"
| "errors_Is_NotExist (ErrWrap _ e) = errors_Is_NotExist e"
| "errors_Is_NotExist _ = False"

fun os_IsNotExist :: "err \<Rightarrow> bool" where
  "os_IsNotExist (ErrOS ENOENT) = True"
| "os_IsNotExist _ = False"

fun isNotExist_result :: "(err \<Rightarrow> bool) \<Rightarrow> err + 'a \<Rightarrow> bool" where
  "isNotExist_result p (Inl e) = p e"
| "isNotExist_result p (Inr _) = False"

section \<open>Computations\<close>

type_synonym ('w, 'a) go = "'w \<Rightarrow> (err + 'a) \<times> 'w"

definition ret :: "'a \<Rightarrow> ('w, 'a) go" where
  "ret x = (\<lambda>w. (Inr x, w))"

definition fail :: "err \<Rightarrow> ('w, 'a) go" where
  "fail e = (\<lambda>w. (Inl e, w))"

definition bnd :: "('w, 'a) go \<Rightarrow> ('a \<Rightarrow> ('w, 'b) go) \<Rightarrow> ('w, 'b) go" where
  "bnd m k = (\<lambda>w. case m w of (r, w') \<Rightarrow> (case r of Inl e \<Rightarrow> (Inl e, w') | Inr x \<Rightarrow> k x w'))"

definition map_err :: "(err \<Rightarrow> err) \<Rightarrow> ('w, 'a) go \<Rightarrow> ('w, 'a) go" where
  "map_err f m = (\<lambda>w. case m w of (r, w') \<Rightarrow>
     (case r of Inl e \<Rightarrow> (Inl (if unwinds e then e else f e), w') | Inr x \<Rightarrow> (Inr x, w')))"

definition wrapE :: "string \<Rightarrow> ('w, 'a) go \<Rightarrow> ('w, 'a) go" where
  "wrapE s m = map_err (ErrWrap s) m"

definition attempt :: "('w, 'a) go \<Rightarrow> ('w, err + 'a) go" where
  "attempt m = (\<lambda>w. case m w of (r, w') \<Rightarrow>
     (case r of Inl e \<Rightarrow> if unwinds e then (Inl e, w') else (Inr (Inl e), w')
      | Inr x \<Rightarrow> (Inr (Inr x), w')))"

definition deferred :: "('w \<Rightarrow> 'w) \<Rightarrow> ('w, 'a) go \<Rightarrow> ('w, 'a) go" where
  "deferred d m = (\<lambda>w. case m w of (r, w') \<Rightarrow> (r, d w'))"

definition upd :: "('w \<Rightarrow> 'w) \<Rightarrow> ('w, unit) go" where
  "upd f = (\<lambda>w. (Inr (), f w))"

definition asks :: "('w \<Rightarrow> 'a) \<Rightarrow> ('w, 'a) go" where
  "asks f = (\<lambda>w. (Inr (f w), w))"

fun each :: "('a \<Rightarrow> ('w, unit) go) \<Rightarrow> 'a list \<Rightarrow> ('w, unit) go" where
  "each f [] = ret ()"
| "each f (x # xs) = bnd (f x) (\<lambda>_. each f xs)"

definition returns_ok :: "(err + 'a) \<times> 'w \<Rightarrow> bool" where
  "returns_ok r \<longleftrightarrow> (\<exists>x w. r = (Inr x, w))"

lemma ran_ok: "\<not> isl (fst r) \<Longrightarrow> \<exists>x w. r = (Inr x, w)"
  by (cases r; cases "fst r") auto

section \<open>Running a computation\<close>

named_theorems run "execution of the computation combinators"

lemma ret_run [run]: "ret x w = (Inr x, w)" by (simp add: ret_def)
lemma fail_run [run]: "fail e w = (Inl e, w)" by (simp add: fail_def)
lemma upd_run [run]: "upd f w = (Inr (), f w)" by (simp add: upd_def)
lemma asks_run [run]: "asks f w = (Inr (f w), w)" by (simp add: asks_def)

lemma bnd_run [run]:
  "bnd m k w = (case m w of (r, w') \<Rightarrow> (case r of Inl e \<Rightarrow> (Inl e, w') | Inr x \<Rightarrow> k x w'))"
  by (simp add: bnd_def)

lemma map_err_run [run]:
  "map_err f m w = (case m w of (r, w') \<Rightarrow>
     (case r of Inl e \<Rightarrow> (Inl (if unwinds e then e else f e), w') | Inr x \<Rightarrow> (Inr x, w')))"
  by (simp add: map_err_def)

lemma wrapE_run [run]:
  "wrapE s m w = (case m w of (r, w') \<Rightarrow>
     (case r of Inl e \<Rightarrow> (Inl (if unwinds e then e else ErrWrap s e), w') | Inr x \<Rightarrow> (Inr x, w')))"
  by (simp add: wrapE_def map_err_def)

lemma attempt_run [run]:
  "attempt m w = (case m w of (r, w') \<Rightarrow>
     (case r of Inl e \<Rightarrow> if unwinds e then (Inl e, w') else (Inr (Inl e), w')
      | Inr x \<Rightarrow> (Inr (Inr x), w')))"
  by (simp add: attempt_def)

lemma deferred_run [run]: "deferred d m w = (case m w of (r, w') \<Rightarrow> (r, d w'))"
  by (simp add: deferred_def)

text \<open>A successful (or failing) sequence decomposes into its parts.\<close>

lemma bnd_eq_Inr:
  "bnd m k w = (Inr y, w'') \<longleftrightarrow> (\<exists>x w'. m w = (Inr x, w') \<and> k x w' = (Inr y, w''))"
  by (auto simp: bnd_def split: prod.splits sum.splits)

lemma bnd_eq_Inl:
  "bnd m k w = (Inl e, w'') \<longleftrightarrow>
     m w = (Inl e, w'') \<or> (\<exists>x w'. m w = (Inr x, w') \<and> k x w' = (Inl e, w''))"
  by (auto simp: bnd_def split: prod.splits sum.splits)

lemma map_err_eq_Inr: "map_err f m w = (Inr x, w') \<longleftrightarrow> m w = (Inr x, w')"
  by (auto simp: map_err_def split: prod.splits sum.splits)

lemma wrapE_eq_Inr: "wrapE s m w = (Inr x, w') \<longleftrightarrow> m w = (Inr x, w')"
  by (simp add: wrapE_def map_err_eq_Inr)

lemma wrapE_eq_Inl: "wrapE s m w = (Inl e, w') \<longleftrightarrow>
    (\<exists>x. m w = (Inl x, w') \<and> e = (if unwinds x then x else ErrWrap s x))"
  by (auto simp: wrapE_def map_err_def split: prod.splits sum.splits)

lemma attempt_eq_Inr:
  "attempt m w = (Inr r, w') \<longleftrightarrow>
     (case r of Inl e \<Rightarrow> m w = (Inl e, w') \<and> \<not> unwinds e | Inr x \<Rightarrow> m w = (Inr x, w'))"
  by (auto simp: attempt_def split: prod.splits sum.splits if_splits)

lemma attempt_eq_Inl: "attempt m w = (Inl e, w') \<longleftrightarrow> m w = (Inl e, w') \<and> unwinds e"
  by (auto simp: attempt_def split: prod.splits sum.splits if_splits)

lemma deferred_eq: "deferred d m w = (r, w'') \<longleftrightarrow> (\<exists>w'. m w = (r, w') \<and> w'' = d w')"
  by (auto simp: deferred_def split: prod.splits)

lemmas run_Inr = bnd_eq_Inr map_err_eq_Inr wrapE_eq_Inr attempt_eq_Inr deferred_eq

lemma bnd_ret [simp]: "bnd (ret x) k = k x"
  by (simp add: bnd_def ret_def)

lemma bnd_fail [simp]: "bnd (fail e) k = fail e"
  by (simp add: bnd_def fail_def)

lemma ret_bnd [simp]: "bnd m ret = m"
  by (auto simp: bnd_def ret_def fun_eq_iff split: prod.splits sum.splits)

lemma bnd_ret_unit [simp]: "bnd m (\<lambda>_. ret ()) = m"
  by (auto simp: bnd_def ret_def fun_eq_iff split: prod.splits sum.splits)

lemma bnd_assoc: "bnd (bnd m k) h = bnd m (\<lambda>x. bnd (k x) h)"
  by (auto simp: bnd_def fun_eq_iff split: prod.splits sum.splits)

lemma each_append: "each f (xs @ ys) = bnd (each f xs) (\<lambda>_. each f ys)"
  by (induction xs) (simp_all add: bnd_assoc)

section \<open>Preconditions\<close>

text \<open>
  \<open>wp m Q E w\<close>: running \<open>m\<close> from \<open>w\<close> ends with a result and world in \<open>Q\<close>, or with an error
  and world in \<open>E\<close>.  Computations are total functions, so this is total correctness.
\<close>

definition wp :: "('w, 'a) go \<Rightarrow> ('a \<Rightarrow> 'w \<Rightarrow> bool) \<Rightarrow> (err \<Rightarrow> 'w \<Rightarrow> bool) \<Rightarrow> 'w \<Rightarrow> bool" where
  "wp m Q E w = (case m w of (r, w') \<Rightarrow> (case r of Inl e \<Rightarrow> E e w' | Inr x \<Rightarrow> Q x w'))"

named_theorems wp_simps "preconditions of the computation combinators"

lemma wp_ret [wp_simps]: "wp (ret x) Q E w = Q x w"
  by (simp add: wp_def ret_def)

lemma wp_fail [wp_simps]: "wp (fail e) Q E w = E e w"
  by (simp add: wp_def fail_def)

lemma wp_upd [wp_simps]: "wp (upd f) Q E w = Q () (f w)"
  by (simp add: wp_def upd_def)

lemma wp_asks [wp_simps]: "wp (asks f) Q E w = Q (f w) w"
  by (simp add: wp_def asks_def)

lemma wp_bnd [wp_simps]: "wp (bnd m k) Q E w = wp m (\<lambda>x. wp (k x) Q E) E w"
  by (auto simp: wp_def bnd_def split: prod.splits sum.splits)

lemma wp_map_err [wp_simps]:
  "wp (map_err f m) Q E w = wp m Q (\<lambda>e. E (if unwinds e then e else f e)) w"
  by (auto simp: wp_def map_err_def split: prod.splits sum.splits)

lemma wp_wrapE [wp_simps]:
  "wp (wrapE s m) Q E w = wp m Q (\<lambda>e. E (if unwinds e then e else ErrWrap s e)) w"
  by (simp add: wrapE_def wp_map_err)

lemma wp_attempt [wp_simps]:
  "wp (attempt m) Q E w = wp m (\<lambda>x. Q (Inr x)) (\<lambda>e. if unwinds e then E e else Q (Inl e)) w"
  by (auto simp: wp_def attempt_def split: prod.splits sum.splits)

lemma wp_deferred [wp_simps]:
  "wp (deferred d m) Q E w = wp m (\<lambda>x w. Q x (d w)) (\<lambda>e w. E e (d w)) w"
  by (auto simp: wp_def deferred_def split: prod.splits sum.splits)

lemma wp_if [wp_simps]: "wp (if b then m else n) Q E w = (if b then wp m Q E w else wp n Q E w)"
  by simp

lemma wp_mono:
  assumes "wp m Q E w" "\<And>x w'. m w = (Inr x, w') \<Longrightarrow> Q x w' \<Longrightarrow> Q' x w'"
    and "\<And>e w'. m w = (Inl e, w') \<Longrightarrow> E e w' \<Longrightarrow> E' e w'"
  shows "wp m Q' E' w"
  using assms by (auto simp: wp_def split: prod.splits sum.splits)

lemma wp_InrD: "wp m Q E w \<Longrightarrow> m w = (Inr x, w') \<Longrightarrow> Q x w'"
  by (simp add: wp_def)

lemma wp_InlD: "wp m Q E w \<Longrightarrow> m w = (Inl e, w') \<Longrightarrow> E e w'"
  by (simp add: wp_def)

lemma wp_okD: "wp m Q (\<lambda>_ _. False) w \<Longrightarrow> \<exists>x w'. m w = (Inr x, w') \<and> Q x w'"
  by (auto simp: wp_def split: prod.splits sum.splits)

section \<open>Kept properties\<close>

text \<open>
  \<open>keeps I m\<close>: every run of \<open>m\<close> from a world in \<open>I\<close> ends in a world in \<open>I\<close>, on success and
  on every error.  \<open>same g m\<close>: no run of \<open>m\<close> changes the observation \<open>g\<close>.  The rules are
  collected in \<open>keeps\<close>, so that a component's frame lemma is \<open>(intro keeps)\<close>.
\<close>

definition keeps :: "('w \<Rightarrow> bool) \<Rightarrow> ('w, 'a) go \<Rightarrow> bool" where
  "keeps I m \<longleftrightarrow> (\<forall>w. I w \<longrightarrow> I (snd (m w)))"

definition same :: "('w \<Rightarrow> 'b) \<Rightarrow> ('w, 'a) go \<Rightarrow> bool" where
  "same g m \<longleftrightarrow> (\<forall>w. g (snd (m w)) = g w)"

named_theorems keeps "frame rules of the computation combinators"

lemma keepsI: "(\<And>w. I w \<Longrightarrow> I (snd (m w))) \<Longrightarrow> keeps I m"
  by (simp add: keeps_def)

lemma keepsD: "keeps I m \<Longrightarrow> m w = (r, w') \<Longrightarrow> I w \<Longrightarrow> I w'"
  by (metis keeps_def snd_conv)

lemma sameI: "(\<And>w. g (snd (m w)) = g w) \<Longrightarrow> same g m"
  by (simp add: same_def)

lemma sameD: "same g m \<Longrightarrow> m w = (r, w') \<Longrightarrow> g w' = g w"
  by (metis same_def snd_conv)

lemma same_run: "same g m \<longleftrightarrow> (\<forall>w r w'. m w = (r, w') \<longrightarrow> g w' = g w)"
  by (metis same_def prod.collapse snd_conv)

lemma same_ret [keeps]: "same g (ret x)" by (simp add: same_def ret_def)
lemma same_fail [keeps]: "same g (fail e)" by (simp add: same_def fail_def)
lemma same_asks [keeps]: "same g (asks f)" by (simp add: same_def asks_def)

lemma same_upd [keeps]: "(\<And>w. g (f w) = g w) \<Longrightarrow> same g (upd f)"
  by (simp add: same_def upd_def)

lemma same_bnd [keeps]:
  assumes "same g m" and "\<And>x. same g (k x)"
  shows "same g (bnd m k)"
proof (rule sameI)
  fix w
  obtain r w' where m: "m w = (r, w')" by fastforce
  then have "g w' = g w" using assms(1) by (rule sameD [rotated])
  moreover have "g (snd (k x w')) = g w'" for x using assms(2) by (simp add: same_def)
  ultimately show "g (snd (bnd m k w)) = g w" by (simp add: bnd_run m split: sum.split)
qed

lemma same_map_err [keeps]: "same g m \<Longrightarrow> same g (map_err f m)"
  by (simp add: same_def map_err_def split_beta split: sum.split)

lemma same_wrapE [keeps]: "same g m \<Longrightarrow> same g (wrapE s m)"
  by (simp add: wrapE_def same_map_err)

lemma same_attempt [keeps]: "same g m \<Longrightarrow> same g (attempt m)"
  by (simp add: same_def attempt_def split_beta split: sum.split)

lemma same_deferred [keeps]:
  "same g m \<Longrightarrow> (\<And>w. g (d w) = g w) \<Longrightarrow> same g (deferred d m)"
  by (simp add: same_def deferred_def split_beta)

lemma same_if [keeps]: "(b \<Longrightarrow> same g m) \<Longrightarrow> (\<not> b \<Longrightarrow> same g n) \<Longrightarrow> same g (if b then m else n)"
  by simp

lemma same_sum [keeps]:
  "(\<And>e. r = Inl e \<Longrightarrow> same g (f e)) \<Longrightarrow> (\<And>x. r = Inr x \<Longrightarrow> same g (h x)) \<Longrightarrow>
   same g (case r of Inl e \<Rightarrow> f e | Inr x \<Rightarrow> h x)"
  by (cases r) simp_all

lemma same_option [keeps]:
  "(r = None \<Longrightarrow> same g f) \<Longrightarrow> (\<And>x. r = Some x \<Longrightarrow> same g (h x)) \<Longrightarrow>
   same g (case r of None \<Rightarrow> f | Some x \<Rightarrow> h x)"
  by (cases r) simp_all

lemma same_prod [keeps]:
  "(\<And>x y. r = (x, y) \<Longrightarrow> same g (f x y)) \<Longrightarrow> same g (case r of (x, y) \<Rightarrow> f x y)"
  by (cases r) simp_all

lemma keeps_ret [keeps]: "keeps I (ret x)" by (simp add: keeps_def ret_def)
lemma keeps_fail [keeps]: "keeps I (fail e)" by (simp add: keeps_def fail_def)
lemma keeps_asks [keeps]: "keeps I (asks f)" by (simp add: keeps_def asks_def)

lemma keeps_upd [keeps]: "(\<And>w. I w \<Longrightarrow> I (f w)) \<Longrightarrow> keeps I (upd f)"
  by (simp add: keeps_def upd_def)

lemma keeps_bnd [keeps]:
  assumes "keeps I m" and "\<And>x. keeps I (k x)"
  shows "keeps I (bnd m k)"
proof (rule keepsI)
  fix w assume I: "I w"
  obtain r w' where m: "m w = (r, w')" by fastforce
  with I assms(1) have "I w'" by (blast intro: keepsD)
  with assms(2) show "I (snd (bnd m k w))" by (simp add: bnd_run m keeps_def split: sum.split)
qed

lemma keeps_map_err [keeps]: "keeps I m \<Longrightarrow> keeps I (map_err f m)"
  by (simp add: keeps_def map_err_def split_beta split: sum.split)

lemma keeps_wrapE [keeps]: "keeps I m \<Longrightarrow> keeps I (wrapE s m)"
  by (simp add: wrapE_def keeps_map_err)

lemma keeps_attempt [keeps]: "keeps I m \<Longrightarrow> keeps I (attempt m)"
  by (simp add: keeps_def attempt_def split_beta split: sum.split)

lemma keeps_deferred [keeps]:
  "keeps I m \<Longrightarrow> (\<And>w. I w \<Longrightarrow> I (d w)) \<Longrightarrow> keeps I (deferred d m)"
  by (simp add: keeps_def deferred_def split_beta)

lemma keeps_if [keeps]: "(b \<Longrightarrow> keeps I m) \<Longrightarrow> (\<not> b \<Longrightarrow> keeps I n) \<Longrightarrow> keeps I (if b then m else n)"
  by simp

lemma keeps_sum [keeps]:
  "(\<And>e. r = Inl e \<Longrightarrow> keeps I (f e)) \<Longrightarrow> (\<And>x. r = Inr x \<Longrightarrow> keeps I (h x)) \<Longrightarrow>
   keeps I (case r of Inl e \<Rightarrow> f e | Inr x \<Rightarrow> h x)"
  by (cases r) simp_all

lemma keeps_option [keeps]:
  "(r = None \<Longrightarrow> keeps I f) \<Longrightarrow> (\<And>x. r = Some x \<Longrightarrow> keeps I (h x)) \<Longrightarrow>
   keeps I (case r of None \<Rightarrow> f | Some x \<Rightarrow> h x)"
  by (cases r) simp_all

lemma keeps_prod [keeps]:
  "(\<And>x y. r = (x, y) \<Longrightarrow> keeps I (f x y)) \<Longrightarrow> keeps I (case r of (x, y) \<Rightarrow> f x y)"
  by (cases r) simp_all

lemma keeps_each [keeps]: "(\<And>x. x \<in> set xs \<Longrightarrow> keeps I (f x)) \<Longrightarrow> keeps I (each f xs)"
  by (induction xs) (auto intro: keeps_ret keeps_bnd)


lemma same_comp: "same g m \<Longrightarrow> (\<And>w w'. g w = g w' \<Longrightarrow> h w = h w') \<Longrightarrow> same h m"
  unfolding same_def by blast

lemma same_each [keeps]: "(\<And>x. x \<in> set xs \<Longrightarrow> same g (f x)) \<Longrightarrow> same g (each f xs)"
  by (induction xs) (auto intro: same_ret same_bnd)

section \<open>Lifted results\<close>

definition liftR :: "err + 'a \<Rightarrow> ('w, 'a) go" where
  "liftR r = (case r of Inl e \<Rightarrow> fail e | Inr x \<Rightarrow> ret x)"

lemma liftR_simps [simp]: "liftR (Inl e) = fail e" "liftR (Inr x) = ret x"
  by (simp_all add: liftR_def)

lemma liftR_eq_Inr: "liftR r w = (Inr x, w') \<longleftrightarrow> r = Inr x \<and> w' = w"
  by (cases r) (auto simp: ret_def fail_def)

lemma same_liftR [keeps]: "same g (liftR r)"
  unfolding liftR_def by (intro keeps)

lemma keeps_liftR [keeps]: "keeps I (liftR r)"
  unfolding liftR_def by (intro keeps)

end
