(* ===== verification/GoStd.thy ===== *)
theory GoStd
  imports Prelude
begin

text \<open>
  The functions of Go's packages \<open>strings\<close>, \<open>strconv\<close>, \<open>path\<close> and \<open>path/filepath\<close> that the
  program calls, on byte strings, and the facts about them that the components share.
  White space is ASCII white space; path elements are separated by a slash, as on the Unix
  systems the sidecar runs on.
\<close>

section \<open>strings\<close>

definition strings_HasPrefix :: "string \<Rightarrow> string \<Rightarrow> bool" where
  "strings_HasPrefix s p \<longleftrightarrow> prefix p s"

fun strings_Contains :: "string \<Rightarrow> string \<Rightarrow> bool" where
  "strings_Contains [] sub = (sub = [])"
| "strings_Contains (c # cs) sub = (prefix sub (c # cs) \<or> strings_Contains cs sub)"

definition strings_TrimSuffix :: "string \<Rightarrow> string \<Rightarrow> string" where
  "strings_TrimSuffix s suf = (if suffix suf s then take (length s - length suf) s else s)"

definition is_space :: "char \<Rightarrow> bool" where
  "is_space c \<longleftrightarrow> of_char c \<in> {9, 10, 11, 12, 13, 32 :: nat}"

definition strings_TrimSpace :: "string \<Rightarrow> string" where
  "strings_TrimSpace s = rev (dropWhile is_space (rev (dropWhile is_space s)))"

fun fields_acc :: "string \<Rightarrow> string \<Rightarrow> string list" where
  "fields_acc cur [] = (if cur = [] then [] else [rev cur])"
| "fields_acc cur (c # cs) =
     (if is_space c then (if cur = [] then fields_acc [] cs else rev cur # fields_acc [] cs)
      else fields_acc (c # cur) cs)"

definition strings_Fields :: "string \<Rightarrow> string list" where
  "strings_Fields s = fields_acc [] s"

fun strings_Join :: "string list \<Rightarrow> string \<Rightarrow> string" where
  "strings_Join [] sep = []"
| "strings_Join [s] sep = s"
| "strings_Join (s # t # ts) sep = s @ sep @ strings_Join (t # ts) sep"

definition char_lower :: "char \<Rightarrow> char" where
  "char_lower c = (let n = (of_char c :: nat) in if 65 \<le> n \<and> n \<le> 90 then char_of (n + 32) else c)"

definition strings_ToLower :: "string \<Rightarrow> string" where
  "strings_ToLower s = map char_lower s"

lemma TrimSuffix_append [simp]: "strings_TrimSuffix (s @ suf) suf = s"
  by (auto simp: strings_TrimSuffix_def suffix_def)

lemma Contains_prefix: "prefix sub s \<Longrightarrow> strings_Contains s sub"
  by (cases s) auto

lemma Contains_append: "strings_Contains (xs @ sub @ ys) sub"
  by (induction xs) (auto intro: Contains_prefix)

lemma Contains_singleton: "strings_Contains s [c] \<longleftrightarrow> c \<in> set s"
  by (induction s) auto

section \<open>strconv\<close>

fun digit_char :: "nat \<Rightarrow> char" where
  "digit_char d = char_of (48 + d)"

fun nat_str :: "nat \<Rightarrow> string" where
  "nat_str n = (if n < 10 then [digit_char n] else nat_str (n div 10) @ [digit_char (n mod 10)])"

declare nat_str.simps [simp del]

text \<open>\<open>strconv.FormatInt(i, 10)\<close>, \<open>strconv.Itoa(i)\<close> and the verb \<open>%d\<close>.\<close>

definition FormatInt :: "int \<Rightarrow> string" where
  "FormatInt i = (if i < 0 then CHR ''-'' # nat_str (nat (- i)) else nat_str (nat i))"

definition is_digit :: "char \<Rightarrow> bool" where
  "is_digit c \<longleftrightarrow> 48 \<le> (of_char c :: nat) \<and> (of_char c :: nat) \<le> 57"

definition digits_val :: "string \<Rightarrow> nat" where
  "digits_val s = foldl (\<lambda>a c. a * 10 + ((of_char c :: nat) - 48)) 0 s"

text \<open>\<open>strconv.ParseInt(s, 10, 64)\<close> and \<open>strconv.Atoi(s)\<close>: an optional sign, then digits only,
  and a value within 64 signed bits.\<close>

definition ParseInt :: "string \<Rightarrow> err + int" where
  "ParseInt s =
     (let neg = (case s of [] \<Rightarrow> False | c # _ \<Rightarrow> c = CHR ''-'');
          ds = (case s of [] \<Rightarrow> [] | c # cs \<Rightarrow> if c = CHR ''-'' \<or> c = CHR ''+'' then cs else s);
          v = (if neg then - int (digits_val ds) else int (digits_val ds))
      in if ds = [] \<or> \<not> list_all is_digit ds then Inl (ErrText ''invalid syntax'')
         else if - (2 ^ 63) \<le> v \<and> v < 2 ^ 63 then Inr v
         else Inl (ErrText ''value out of range''))"

lemma of_char_digit [simp]: "d < 10 \<Longrightarrow> (of_char (digit_char d) :: nat) = 48 + d"
  by simp

lemma digits_val_append [simp]:
  "digits_val (s @ [c]) = digits_val s * 10 + ((of_char c :: nat) - 48)"
  by (simp add: digits_val_def)

lemma nat_str_digits: "list_all is_digit (nat_str n) \<and> nat_str n \<noteq> [] \<and> digits_val (nat_str n) = n"
proof (induction n rule: nat_str.induct)
  case (1 n)
  show ?case
  proof (cases "n < 10")
    case True
    then show ?thesis
      by (simp add: nat_str.simps [of n] is_digit_def digits_val_def del: digit_char.simps)
  next
    case False
    then show ?thesis using 1
      by (simp add: nat_str.simps [of n] is_digit_def del: digit_char.simps)
  qed
qed

lemma is_digit_not_sign: "is_digit c \<Longrightarrow> c \<noteq> CHR ''-'' \<and> c \<noteq> CHR ''+''"
  by (auto simp: is_digit_def)

lemma FormatInt_ne: "FormatInt i \<noteq> []"
  using nat_str_digits by (simp add: FormatInt_def)

theorem ParseInt_FormatInt:
  assumes "- (2 ^ 63) \<le> i" "i < 2 ^ 63"
  shows "ParseInt (FormatInt i) = Inr i"
proof (cases "i < 0")
  case True
  then show ?thesis
    using assms nat_str_digits [of "nat (- i)"] by (simp add: ParseInt_def FormatInt_def)
next
  case False
  obtain c cs where s: "nat_str (nat i) = c # cs"
    using nat_str_digits [of "nat i"] by (cases "nat_str (nat i)") auto
  then have "is_digit c" using nat_str_digits [of "nat i"] by auto
  then have "c \<noteq> CHR ''-''" "c \<noteq> CHR ''+''" using is_digit_not_sign by auto
  then show ?thesis
    using assms False nat_str_digits [of "nat i"] s by (simp add: ParseInt_def FormatInt_def)
qed

lemma nat_str_inj: "nat_str m = nat_str n \<Longrightarrow> m = n"
  by (metis nat_str_digits)

lemma FormatInt_inj_nat: "FormatInt (int m) = FormatInt (int n) \<longleftrightarrow> m = n"
  using nat_str_inj by (auto simp: FormatInt_def)

section \<open>path and path/filepath\<close>

abbreviation slash :: char where
  "slash \<equiv> CHR ''/''"

fun split_on :: "char \<Rightarrow> string \<Rightarrow> string list" where
  "split_on d [] = [[]]"
| "split_on d (c # cs) =
     (if c = d then [] # split_on d cs
      else (case split_on d cs of [] \<Rightarrow> [[c]] | x # xs \<Rightarrow> (c # x) # xs))"

text \<open>The elements of a path after the lexical rules of \<open>path.Clean\<close>: empty elements and
  dots go, a double dot takes the element before it away.\<close>

fun norm_elems :: "bool \<Rightarrow> string list \<Rightarrow> string list \<Rightarrow> string list" where
  "norm_elems r out [] = rev out"
| "norm_elems r out (c # cs) =
     (if c = '''' \<or> c = ''.'' then norm_elems r out cs
      else if c = ''..'' then
        (case out of
           [] \<Rightarrow> if r then norm_elems r [] cs else norm_elems r [''..''] cs
         | p # ps \<Rightarrow> if p = ''..'' then norm_elems r (''..'' # out) cs else norm_elems r ps cs)
      else norm_elems r (c # out) cs)"

definition rooted :: "string \<Rightarrow> bool" where
  "rooted s \<longleftrightarrow> (case s of [] \<Rightarrow> False | c # _ \<Rightarrow> c = slash)"

definition path_Clean :: "string \<Rightarrow> string" where
  "path_Clean s =
     (if s = '''' then ''.''
      else let body = strings_Join (norm_elems (rooted s) [] (split_on slash s)) ''/''
           in if rooted s then slash # body else if body = '''' then ''.'' else body)"

definition path_Join :: "string list \<Rightarrow> string" where
  "path_Join es =
     (let ne = filter (\<lambda>e. e \<noteq> '''') es
      in if ne = [] then '''' else path_Clean (strings_Join ne ''/''))"

fun ext_rev :: "string \<Rightarrow> string \<Rightarrow> string" where
  "ext_rev [] acc = ''''"
| "ext_rev (c # cs) acc =
     (if c = slash then '''' else if c = CHR ''.'' then c # acc else ext_rev cs (c # acc))"

definition filepath_Ext :: "string \<Rightarrow> string" where
  "filepath_Ext p = ext_rev (rev p) ''''"

definition filepath_Base :: "string \<Rightarrow> string" where
  "filepath_Base p =
     (if p = '''' then ''.''
      else let q = rev (dropWhile (\<lambda>c. c = slash) (rev p))
           in if q = '''' then ''/'' else last (split_on slash q))"

definition filepath_Dir :: "string \<Rightarrow> string" where
  "filepath_Dir p = path_Clean (rev (dropWhile (\<lambda>c. c \<noteq> slash) (rev p)))"

text \<open>The node a path names: elements from the root.  The process runs in the root directory,
  so a relative path is read from there.\<close>

definition resolve :: "string \<Rightarrow> string list" where
  "resolve s = norm_elems True [] (split_on slash s)"

definition plain_name :: "string \<Rightarrow> bool" where
  "plain_name n \<longleftrightarrow> n \<noteq> '''' \<and> n \<noteq> ''.'' \<and> n \<noteq> ''..'' \<and> slash \<notin> set n"

lemma split_on_ne: "split_on d s \<noteq> []"
  by (induction s) (auto split: list.splits)

lemma split_on_append_sep: "split_on d (s @ d # t) = split_on d s @ split_on d t"
  by (induction s) (auto simp: split_on_ne split: list.splits)

lemma split_on_noslash: "d \<notin> set s \<Longrightarrow> split_on d s = [s]"
  by (induction s) auto

lemma split_on_parts: "x \<in> set (split_on d s) \<Longrightarrow> d \<notin> set x"
  by (induction s arbitrary: x) (auto split: list.splits if_splits)

lemma norm_elems_append:
  "plain_name n \<Longrightarrow> norm_elems r out (cs @ [n]) = norm_elems r out cs @ [n]"
  by (induction r out cs rule: norm_elems.induct) (auto simp: plain_name_def split: list.splits)

lemma norm_elems_plain:
  "list_all plain_name cs \<Longrightarrow> norm_elems r out cs = rev out @ cs"
  by (induction cs arbitrary: out) (auto simp: plain_name_def)

lemma norm_elems_rooted:
  "(\<And>c. c \<in> set cs \<Longrightarrow> slash \<notin> set c) \<Longrightarrow> list_all plain_name out \<Longrightarrow>
   list_all plain_name (norm_elems True out cs)"
proof (induction cs arbitrary: out)
  case (Cons c cs)
  have IH: "list_all plain_name out' \<Longrightarrow> list_all plain_name (norm_elems True out' cs)" for out'
    using Cons.IH Cons.prems(1) by simp
  have c: "slash \<notin> set c" using Cons.prems(1) by simp
  show ?case
  proof (cases "c = '''' \<or> c = ''.'' \<or> c = ''..''")
    case True
    moreover have "''..'' \<notin> set out"
      using Cons.prems(2) by (auto simp: list_all_iff plain_name_def)
    ultimately show ?thesis using Cons.prems(2) by (cases out) (auto intro!: IH)
  next
    case False
    with c have "plain_name c" by (simp add: plain_name_def)
    with False Cons.prems(2) show ?thesis by (auto intro!: IH)
  qed
qed (simp add: list_all_iff)

lemma resolve_plain: "list_all plain_name (resolve s)"
  by (auto simp: resolve_def intro!: norm_elems_rooted dest: split_on_parts)

lemma split_on_Join:
  "list_all plain_name cs \<Longrightarrow> cs \<noteq> [] \<Longrightarrow> split_on slash (strings_Join cs ''/'') = cs"
  by (induction cs "''/''" rule: strings_Join.induct)
    (auto simp: split_on_noslash split_on_append_sep plain_name_def)

lemma resolve_slash_Join: "list_all plain_name cs \<Longrightarrow> resolve (slash # strings_Join cs ''/'') = cs"
  by (cases "cs = []") (simp_all add: resolve_def split_on_Join norm_elems_plain)

lemma resolve_Clean: "rooted s \<Longrightarrow> resolve (path_Clean s) = resolve s"
  using resolve_slash_Join [OF resolve_plain [of s]]
  by (auto simp: path_Clean_def rooted_def resolve_def Let_def split: list.splits)

lemma rooted_append [simp]: "rooted s \<Longrightarrow> rooted (s @ t)"
  by (cases s) (auto simp: rooted_def)

lemma rooted_ne: "rooted s \<Longrightarrow> s \<noteq> ''''"
  by (auto simp: rooted_def)

lemma resolve_dir_file [simp]: "plain_name n \<Longrightarrow> resolve (d @ slash # n) = resolve d @ [n]"
  by (simp add: resolve_def split_on_append_sep split_on_noslash plain_name_def norm_elems_append)

lemma norm_elems_app: "norm_elems r out (cs @ ds) = norm_elems r (rev (norm_elems r out cs)) ds"
  by (induction r out cs rule: norm_elems.induct) (auto split: list.splits)

lemma resolve_append: "resolve (p @ slash # q) = norm_elems True (rev (resolve p)) (split_on slash q)"
  by (simp add: resolve_def split_on_append_sep norm_elems_app)

lemma resolve_Join [simp]:
  assumes "rooted d" and "plain_name n"
  shows "resolve (path_Join [d, n]) = resolve d @ [n]"
proof -
  have "path_Join [d, n] = path_Clean (d @ slash # n)"
    using assms by (auto simp: path_Join_def rooted_ne plain_name_def)
  then show ?thesis using assms by (simp add: resolve_Clean)
qed

lemma rooted_Join [simp]: "rooted d \<Longrightarrow> rooted (path_Join (d # ds))"
proof -
  assume d: "rooted d"
  then obtain t where t: "d = slash # t" by (cases d) (auto simp: rooted_def)
  have "rooted (strings_Join (filter (\<lambda>e. e \<noteq> '''') (d # ds)) ''/'')"
    using t by (cases "filter (\<lambda>e. e \<noteq> '''') ds") (auto simp: rooted_def)
  then show ?thesis
    using rooted_ne [OF d] rooted_ne
    by (auto simp: path_Join_def path_Clean_def Let_def rooted_def split: list.splits)
qed

lemma ext_rev_found:
  "CHR ''.'' \<notin> set e \<Longrightarrow> slash \<notin> set e \<Longrightarrow> ext_rev (e @ CHR ''.'' # cs) acc = CHR ''.'' # rev e @ acc"
  by (induction e arbitrary: acc) auto

lemma Ext_append [simp]:
  "CHR ''.'' \<notin> set e \<Longrightarrow> slash \<notin> set e \<Longrightarrow> filepath_Ext (p @ CHR ''.'' # e) = CHR ''.'' # e"
  by (simp add: filepath_Ext_def ext_rev_found)

lemma Base_file [simp]: "plain_name n \<Longrightarrow> filepath_Base (d @ slash # n) = n"
proof -
  assume n: "plain_name n"
  then have "rev n \<noteq> []" "hd (rev n) \<noteq> slash" by (auto simp: plain_name_def hd_rev dest: last_in_set)
  then have "dropWhile (\<lambda>c. c = slash) (rev n @ slash # rev d) = rev n @ slash # rev d"
    by (cases "rev n") auto
  then show ?thesis using n
    by (simp add: filepath_Base_def split_on_append_sep split_on_noslash plain_name_def)
qed

lemma plain_nameI: "n \<noteq> '''' \<Longrightarrow> slash \<notin> set n \<Longrightarrow> n \<noteq> ''.'' \<Longrightarrow> n \<noteq> ''..'' \<Longrightarrow> plain_name n"
  by (simp add: plain_name_def)

lemma Join_snoc: "cs \<noteq> [] \<Longrightarrow> strings_Join (cs @ [n]) ''/'' = strings_Join cs ''/'' @ slash # n"
  by (induction cs "''/''" rule: strings_Join.induct) auto

text \<open>A joined path ends in the name: \<open>d'\<close> is the clean form of the directory.\<close>

lemma Join_file:
  assumes "rooted d" "plain_name n"
  shows "\<exists>d'. path_Join [d, n] = d' @ slash # n \<and> resolve d' = resolve d"
proof -
  have "path_Join [d, n] = path_Clean (d @ slash # n)"
    using assms by (auto simp: path_Join_def rooted_ne plain_name_def)
  also have "\<dots> = slash # strings_Join (resolve (d @ slash # n)) ''/''"
    using assms(1) by (auto simp: path_Clean_def resolve_def rooted_def Let_def split: list.splits)
  finally have J: "path_Join [d, n] = slash # strings_Join (resolve d @ [n]) ''/''"
    using assms(2) by simp
  show ?thesis
  proof (cases "resolve d = []")
    case True
    then have "path_Join [d, n] = [] @ slash # n" using J by simp
    moreover have "resolve [] = resolve d" using True by (simp add: resolve_def)
    ultimately show ?thesis by blast
  next
    case False
    then have "path_Join [d, n] = (slash # strings_Join (resolve d) ''/'') @ slash # n"
      using J by (simp add: Join_snoc)
    moreover have "resolve (slash # strings_Join (resolve d) ''/'') = resolve d"
      by (rule resolve_slash_Join) (rule resolve_plain)
    ultimately show ?thesis by blast
  qed
qed

lemma Base_Join [simp]: "rooted d \<Longrightarrow> plain_name n \<Longrightarrow> filepath_Base (path_Join [d, n]) = n"
  using Join_file Base_file by metis

end
