(* ===== verification/GoOs.thy ===== *)
theory GoOs
  imports GoStd "HOL-Library.AList" "HOL-Library.Char_ord" "HOL-Library.List_Lexorder"
begin

text \<open>
  The machine the sidecar runs on, as Go's packages \<open>os\<close>, \<open>io\<close> and \<open>io/fs\<close> show it: a file
  system of files and directories, a table of open files, a clock, a source of random bytes.

  Every system call takes the next tick of the world.  The plan \<open>w_fault\<close> says which ticks fail
  and how (the error number; how many bytes a failing write or read got through; which nodes a
  failing \<open>RemoveAll\<close> had already removed), so a theorem about all plans covers every pattern of
  I/O errors.  \<open>w_short\<close> says how many bytes a read at a tick delivers at most, \<open>w_clock\<close> the time
  of a tick, \<open>w_rand\<close> the random bytes drawn there.  \<open>w_ext\<close> is whatever lies outside the machine
  (object stores, database servers).  Links, owners and access rights are not modelled; an access
  that the rights forbid is a failing tick.
\<close>

section \<open>The file system\<close>

type_synonym byte = "8 word"
type_synonym fpath = "string list"

datatype node = File "byte list" int | Dir int

type_synonym fs = "(fpath \<times> node) list"

definition fs_get :: "fs \<Rightarrow> fpath \<Rightarrow> node option" where
  "fs_get f p = (if p = [] then Some (Dir 0) else map_of f p)"

definition fs_put :: "fpath \<Rightarrow> node \<Rightarrow> fs \<Rightarrow> fs" where
  "fs_put p n f = AList.update p n f"

definition fs_drop :: "(fpath \<Rightarrow> bool) \<Rightarrow> fs \<Rightarrow> fs" where
  "fs_drop d f = filter (\<lambda>e. \<not> d (fst e)) f"

definition fs_names :: "fs \<Rightarrow> fpath \<Rightarrow> string list" where
  "fs_names f d = remdups (map last (filter (\<lambda>p. p \<noteq> [] \<and> butlast p = d) (map fst f)))"

fun is_dir :: "node option \<Rightarrow> bool" where
  "is_dir (Some (Dir _)) = True"
| "is_dir _ = False"

lemma is_dir_iff: "is_dir x \<longleftrightarrow> (\<exists>t. x = Some (Dir t))"
  by (cases x rule: is_dir.cases) auto

text \<open>The walk over the directories above a node: the error the kernel reports, if any.\<close>

fun fs_walk :: "fs \<Rightarrow> fpath \<Rightarrow> fpath \<Rightarrow> errno option" where
  "fs_walk f acc [] = None"
| "fs_walk f acc [c] = None"
| "fs_walk f acc (c # d # cs) =
     (case fs_get f (acc @ [c]) of
        None \<Rightarrow> Some ENOENT
      | Some (File _ _) \<Rightarrow> Some ENOTDIR
      | Some (Dir _) \<Rightarrow> fs_walk f (acc @ [c]) (d # cs))"

definition fs_find :: "fs \<Rightarrow> fpath \<Rightarrow> errno + node" where
  "fs_find f p =
     (case fs_walk f [] p of
        Some e \<Rightarrow> Inl e
      | None \<Rightarrow> (case fs_get f p of None \<Rightarrow> Inl ENOENT | Some n \<Rightarrow> Inr n))"

fun fs_mkdirs :: "int \<Rightarrow> fs \<Rightarrow> fpath \<Rightarrow> fpath \<Rightarrow> errno + fs" where
  "fs_mkdirs t f acc [] = Inr f"
| "fs_mkdirs t f acc (c # cs) =
     (case fs_get f (acc @ [c]) of
        None \<Rightarrow> fs_mkdirs t (fs_put (acc @ [c]) (Dir t) f) (acc @ [c]) cs
      | Some (Dir _) \<Rightarrow> fs_mkdirs t f (acc @ [c]) cs
      | Some (File _ _) \<Rightarrow> Inl ENOTDIR)"

definition parents_ok :: "fs \<Rightarrow> fpath \<Rightarrow> bool" where
  "parents_ok f p \<longleftrightarrow> fs_walk f [] p = None"

lemma fs_get_root [simp]: "fs_get f [] = Some (Dir 0)"
  by (simp add: fs_get_def)

lemma fs_get_put: "fs_get (fs_put p n f) q = (if q = [] then Some (Dir 0) else if q = p then Some n else fs_get f q)"
  by (simp add: fs_get_def fs_put_def AList.update_conv')

lemma fs_get_put_same [simp]: "p \<noteq> [] \<Longrightarrow> fs_get (fs_put p n f) p = Some n"
  by (simp add: fs_get_put)

lemma fs_get_put_other [simp]: "q \<noteq> p \<Longrightarrow> fs_get (fs_put p n f) q = fs_get f q"
  by (cases "q = []") (simp_all add: fs_get_put)

lemma map_of_filter_keys: "map_of (filter (\<lambda>e. P (fst e)) f) k = (if P k then map_of f k else None)"
  by (induction f) auto

lemma fs_get_drop: "fs_get (fs_drop d f) q = (if q \<noteq> [] \<and> d q then None else fs_get f q)"
  using map_of_filter_keys [of "\<lambda>k. \<not> d k" f q] by (simp add: fs_get_def fs_drop_def)

lemma set_fs_names: "set (fs_names f d) = {n. fs_get f (d @ [n]) \<noteq> None}"
proof -
  have "set (fs_names f d) = {n. d @ [n] \<in> fst ` set f}"
    by (auto simp: fs_names_def image_iff) (metis append_butlast_last_id fst_conv, force)
  also have "\<dots> = {n. fs_get f (d @ [n]) \<noteq> None}"
    by (simp add: fs_get_def map_of_eq_None_iff image_iff)
  finally show ?thesis .
qed

lemma distinct_fs_names [simp]: "distinct (fs_names f d)"
  by (simp add: fs_names_def)

lemma fs_walk_None:
  "fs_walk f acc p = None \<longleftrightarrow>
     (\<forall>q. q \<noteq> [] \<longrightarrow> strict_prefix q p \<longrightarrow> is_dir (fs_get f (acc @ q)))"
proof (induction f acc p rule: fs_walk.induct)
  case (3 f acc c d cs)
  have pre: "(\<forall>q. q \<noteq> [] \<longrightarrow> strict_prefix q (c # d # cs) \<longrightarrow> P q) \<longleftrightarrow>
      P [c] \<and> (\<forall>q. q \<noteq> [] \<longrightarrow> strict_prefix q (d # cs) \<longrightarrow> P (c # q))" for P :: "string list \<Rightarrow> bool"
    by (auto simp: strict_prefix_def prefix_Cons)
  show ?case
    unfolding pre using 3 by (auto split: option.splits node.splits)
qed (auto simp: strict_prefix_def prefix_Cons)

lemma parents_ok_iff:
  "parents_ok f p \<longleftrightarrow> (\<forall>q. strict_prefix q p \<longrightarrow> is_dir (fs_get f q))"
  by (auto simp: parents_ok_def fs_walk_None) (metis append_Nil fs_get_root is_dir.simps(1))

lemma fs_find_eq:
  "parents_ok f p \<Longrightarrow> fs_find f p = (case fs_get f p of None \<Rightarrow> Inl ENOENT | Some n \<Rightarrow> Inr n)"
  by (simp add: fs_find_def parents_ok_def)

lemma fs_find_Inr: "fs_find f p = Inr n \<longleftrightarrow> parents_ok f p \<and> fs_get f p = Some n"
  by (auto simp: fs_find_def parents_ok_def split: option.splits)

lemma parents_ok_snoc: "parents_ok f (d @ [n]) \<longleftrightarrow> parents_ok f d \<and> is_dir (fs_get f d)"
proof -
  have "strict_prefix q (d @ [n]) \<longleftrightarrow> strict_prefix q d \<or> q = d" for q
    by (metis prefix_order.less_le prefix_snoc append_self_conv not_Cons_self2 prefix_order.dual_order.strict_trans1
        strict_prefixI' prefix_length_le)
  then show ?thesis by (auto simp: parents_ok_iff)
qed

lemma strict_prefix_child [simp]: "strict_prefix d (d @ x # xs)"
  by (simp add: strict_prefix_def)

lemma parents_ok_Nil [simp]: "parents_ok f []"
  by (simp add: parents_ok_iff)

lemma parents_ok_put_file:
  "parents_ok f p \<Longrightarrow> \<not> is_dir (fs_get f q) \<Longrightarrow> parents_ok (fs_put q n f) p"
  by (metis (full_types) fs_get_put_other parents_ok_iff)

lemma parents_ok_cong:
  "parents_ok f p \<Longrightarrow> (\<And>q. strict_prefix q p \<Longrightarrow> fs_get g q = fs_get f q) \<Longrightarrow> parents_ok g p"
  by (simp add: parents_ok_iff)

lemma fs_mkdirs_get:
  "fs_mkdirs t f acc cs = Inr g \<Longrightarrow>
   fs_get g q = (if \<exists>p. p \<noteq> [] \<and> prefix p cs \<and> q = acc @ p \<and> fs_get f q = None then Some (Dir t)
                 else fs_get f q)"
proof (induction t f acc cs arbitrary: q rule: fs_mkdirs.induct)
  case (2 t f acc c cs)
  have pre: "(\<exists>p. p \<noteq> [] \<and> prefix p (c # cs) \<and> q = acc @ p \<and> R) \<longleftrightarrow>
      R \<and> (q = acc @ [c] \<or> (\<exists>p. p \<noteq> [] \<and> prefix p cs \<and> q = (acc @ [c]) @ p))" for q R
    by (auto simp: prefix_Cons)
  show ?case
    unfolding pre using 2 by (auto simp: fs_get_put split: option.splits node.splits if_splits)
qed auto

lemma fs_mkdirs_ok:
  "(\<And>q. prefix q cs \<Longrightarrow> q \<noteq> [] \<Longrightarrow> (\<forall>c s. fs_get f (acc @ q) \<noteq> Some (File c s))) \<Longrightarrow>
   \<exists>g. fs_mkdirs t f acc cs = Inr g"
proof (induction cs arbitrary: f acc)
  case (Cons c cs)
  have nofile: "fs_get f ((acc @ [c]) @ q) \<noteq> Some (File b s)" if "prefix q cs" for q b s
    using Cons.prems [of "c # q"] that by simp
  have step: "\<exists>g. fs_mkdirs t h (acc @ [c]) cs = Inr g"
    if "\<And>q. q \<noteq> [] \<Longrightarrow> fs_get h ((acc @ [c]) @ q) = fs_get f ((acc @ [c]) @ q)" for h
    by (rule Cons.IH) (use that nofile in simp)
  have "fs_get f (acc @ [c]) \<noteq> Some (File b s)" for b s using nofile [of "[]"] by simp
  then show ?case
    by (auto simp: fs_get_put intro!: step split: option.splits node.splits)
qed simp

section \<open>The world\<close>

record fault =
  flt_errno :: errno
  flt_part :: nat
  flt_sel :: "fpath \<Rightarrow> bool"

record handle =
  h_path :: fpath
  h_off :: nat
  h_rd :: bool
  h_wr :: bool

record 'x world =
  w_fs :: fs
  w_tick :: nat
  w_fault :: "nat \<Rightarrow> fault option"
  w_clock :: "nat \<Rightarrow> int"
  w_rand :: "nat \<Rightarrow> nat \<Rightarrow> byte"
  w_short :: "nat \<Rightarrow> nat"
  w_fds :: "nat \<Rightarrow> handle option"
  w_nfd :: nat
  w_ext :: 'x

text \<open>A machine with a given file system on which nothing fails: the start of concrete runs.\<close>

definition calm :: "fs \<Rightarrow> 'x \<Rightarrow> 'x world" where
  "calm f x = \<lparr>w_fs = f, w_tick = 0, w_fault = (\<lambda>_. None), w_clock = int, w_rand = (\<lambda>t i. of_nat (t + i)),
     w_short = (\<lambda>_. 1000), w_fds = (\<lambda>_. None), w_nfd = 0, w_ext = x\<rparr>"

definition quiet :: "('x, 'm) world_scheme \<Rightarrow> bool" where
  "quiet w \<longleftrightarrow> (\<forall>t. w_fault w t = None)"

lemma calm_simps [simp]: "w_fs (calm f x) = f" "quiet (calm f x)" "w_ext (calm f x) = x"
  by (simp_all add: calm_def quiet_def)

definition now :: "('x, 'm) world_scheme \<Rightarrow> int" where
  "now w = w_clock w (w_tick w)"

text \<open>A system call: it takes a tick, and either the plan lets it fail or it acts.\<close>

definition sys ::
  "(fault \<Rightarrow> (('x, 'm) world_scheme, 'a) go) \<Rightarrow> (('x, 'm) world_scheme, 'a) go \<Rightarrow> (('x, 'm) world_scheme, 'a) go"
where
  "sys flt act = (\<lambda>w. let w' = w\<lparr>w_tick := Suc (w_tick w)\<rparr> in
     case w_fault w (w_tick w) of None \<Rightarrow> act w' | Some ft \<Rightarrow> flt ft w')"

definition sysE :: "(('x, 'm) world_scheme, 'a) go \<Rightarrow> (('x, 'm) world_scheme, 'a) go" where
  "sysE act = sys (\<lambda>ft. fail (ErrOS (flt_errno ft))) act"

definition set_fs :: "fs \<Rightarrow> ('x, 'm) world_scheme \<Rightarrow> ('x, 'm) world_scheme" where
  "set_fs f w = w\<lparr>w_fs := f\<rparr>"

section \<open>Package os: names\<close>

definition os_Stat :: "string \<Rightarrow> (('x, 'm) world_scheme, node) go" where
  "os_Stat p = sysE (\<lambda>w. case fs_find (w_fs w) (resolve p) of
     Inl e \<Rightarrow> (Inl (ErrOS e), w) | Inr n \<Rightarrow> (Inr n, w))"

definition os_MkdirAll :: "string \<Rightarrow> (('x, 'm) world_scheme, unit) go" where
  "os_MkdirAll p = sys
     (\<lambda>ft w. (Inl (ErrOS (flt_errno ft)),
        case fs_mkdirs (now w) (w_fs w) [] (take (flt_part ft) (resolve p)) of
          Inl e \<Rightarrow> w | Inr f \<Rightarrow> set_fs f w))
     (\<lambda>w. case fs_mkdirs (now w) (w_fs w) [] (resolve p) of
        Inl e \<Rightarrow> (Inl (ErrOS e), w) | Inr f \<Rightarrow> (Inr (), set_fs f w))"

text \<open>\<open>RemoveAll\<close> of a missing name, and of the empty string, does nothing.  A failing call may
  have removed any part of the tree.\<close>

definition os_RemoveAll :: "string \<Rightarrow> (('x, 'm) world_scheme, unit) go" where
  "os_RemoveAll p =
     (if p = '''' then ret ()
      else sys
        (\<lambda>ft w. (Inl (ErrOS (flt_errno ft)),
           set_fs (fs_drop (\<lambda>q. prefix (resolve p) q \<and> flt_sel ft q) (w_fs w)) w))
        (\<lambda>w. if fs_walk (w_fs w) [] (resolve p) = Some ENOTDIR then (Inl (ErrOS ENOTDIR), w)
              else (Inr (), set_fs (fs_drop (prefix (resolve p)) (w_fs w)) w)))"

definition os_Remove :: "string \<Rightarrow> (('x, 'm) world_scheme, unit) go" where
  "os_Remove p = sysE (\<lambda>w. case fs_find (w_fs w) (resolve p) of
     Inl e \<Rightarrow> (Inl (ErrOS e), w)
   | Inr (File _ _) \<Rightarrow> (Inr (), set_fs (fs_drop (\<lambda>q. q = resolve p) (w_fs w)) w)
   | Inr (Dir _) \<Rightarrow>
       if fs_names (w_fs w) (resolve p) = []
       then (Inr (), set_fs (fs_drop (\<lambda>q. q = resolve p) (w_fs w)) w)
       else (Inl (ErrOS ENOTEMPTY), w))"

text \<open>\<open>Rename\<close> onto an existing directory is refused; onto a file it replaces the file.\<close>

definition fs_move :: "fpath \<Rightarrow> fpath \<Rightarrow> fs \<Rightarrow> fs" where
  "fs_move a b f =
     map (\<lambda>e. (b @ drop (length a) (fst e), snd e)) (filter (\<lambda>e. prefix a (fst e)) f)
     @ filter (\<lambda>e. \<not> prefix a (fst e) \<and> fst e \<noteq> b) f"

definition os_Rename :: "string \<Rightarrow> string \<Rightarrow> (('x, 'm) world_scheme, unit) go" where
  "os_Rename old new = sysE (\<lambda>w.
     let f = w_fs w; a = resolve old; b = resolve new in
     case fs_find f a of
       Inl e \<Rightarrow> (Inl (ErrOS e), w)
     | Inr n \<Rightarrow>
        (case fs_walk f [] b of
           Some e \<Rightarrow> (Inl (ErrOS e), w)
         | None \<Rightarrow>
           if is_dir (fs_get f b) then (Inl (ErrOS EEXIST), w)
           else if is_dir (Some n) \<and> fs_get f b \<noteq> None then (Inl (ErrOS ENOTDIR), w)
           else if prefix a b \<and> a \<noteq> b then (Inl (ErrOS EINVAL), w)
           else (Inr (), set_fs (fs_move a b f) w)))"

text \<open>Owners are not modelled; \<open>Chown\<close> only asks that the name exists.\<close>

definition os_Chown :: "string \<Rightarrow> (('x, 'm) world_scheme, unit) go" where
  "os_Chown p = sysE (\<lambda>w. case fs_find (w_fs w) (resolve p) of
     Inl e \<Rightarrow> (Inl (ErrOS e), w) | Inr n \<Rightarrow> (Inr (), w))"

section \<open>Package os: open files\<close>

definition new_fd :: "fpath \<Rightarrow> bool \<Rightarrow> bool \<Rightarrow> (('x, 'm) world_scheme, nat) go" where
  "new_fd q rd wr = (\<lambda>w. (Inr (w_nfd w),
     w\<lparr>w_fds := (w_fds w)(w_nfd w \<mapsto> \<lparr>h_path = q, h_off = 0, h_rd = rd, h_wr = wr\<rparr>),
       w_nfd := Suc (w_nfd w)\<rparr>))"

definition open_file ::
  "bool \<Rightarrow> bool \<Rightarrow> bool \<Rightarrow> bool \<Rightarrow> string \<Rightarrow> (('x, 'm) world_scheme, nat) go" where
  "open_file rd wr creat trunc p = sysE (\<lambda>w.
     let q = resolve p in
     case fs_find (w_fs w) q of
       Inr (Dir _) \<Rightarrow> if wr \<or> creat then (Inl (ErrOS EISDIR), w) else new_fd q rd wr w
     | Inr (File c t) \<Rightarrow>
         new_fd q rd wr (if trunc then set_fs (fs_put q (File [] (now w)) (w_fs w)) w else w)
     | Inl e \<Rightarrow>
         if creat \<and> fs_walk (w_fs w) [] q = None
         then new_fd q rd wr (set_fs (fs_put q (File [] (now w)) (w_fs w)) w)
         else (Inl (ErrOS e), w))"

abbreviation os_Open :: "string \<Rightarrow> (('x, 'm) world_scheme, nat) go" where
  "os_Open \<equiv> open_file True False False False"

abbreviation os_Create :: "string \<Rightarrow> (('x, 'm) world_scheme, nat) go" where
  "os_Create \<equiv> open_file True True True True"

definition file_Close :: "nat \<Rightarrow> ('x, 'm) world_scheme \<Rightarrow> ('x, 'm) world_scheme" where
  "file_Close fd w = w\<lparr>w_fds := (w_fds w)(fd := None)\<rparr>"

definition set_off :: "nat \<Rightarrow> handle \<Rightarrow> nat \<Rightarrow> ('x, 'm) world_scheme \<Rightarrow> ('x, 'm) world_scheme" where
  "set_off fd h n w = w\<lparr>w_fds := (w_fds w)(fd \<mapsto> h\<lparr>h_off := n\<rparr>)\<rparr>"

text \<open>The bytes of an open file; a file that was removed while open reads as empty.\<close>

definition fd_content :: "handle \<Rightarrow> ('x, 'm) world_scheme \<Rightarrow> err + byte list" where
  "fd_content h w = (case fs_get (w_fs w) (h_path h) of
     Some (File c _) \<Rightarrow> Inr c | Some (Dir _) \<Rightarrow> Inl (ErrOS EISDIR) | None \<Rightarrow> Inr [])"

text \<open>\<open>f.Read(buf)\<close>: at least one byte and at most the buffer, or the end of the file
  (second component).\<close>

definition file_Read :: "nat \<Rightarrow> nat \<Rightarrow> (('x, 'm) world_scheme, byte list \<times> bool) go" where
  "file_Read fd cap = sysE (\<lambda>w. case w_fds w fd of
     None \<Rightarrow> (Inl (ErrOS EBADF), w)
   | Some h \<Rightarrow> if \<not> h_rd h then (Inl (ErrOS EBADF), w) else
      (case fd_content h w of
         Inl e \<Rightarrow> (Inl e, w)
       | Inr c \<Rightarrow>
          let rest = drop (h_off h) c in
          if cap = 0 then (Inr ([], False), w)
          else if rest = [] then (Inr ([], True), w)
          else let bs = take (min cap (max 1 (w_short w (w_tick w)))) rest
               in (Inr (bs, False), set_off fd h (h_off h + length bs) w)))"

definition file_ReadAt :: "nat \<Rightarrow> nat \<Rightarrow> int \<Rightarrow> (('x, 'm) world_scheme, byte list) go" where
  "file_ReadAt fd n off = sysE (\<lambda>w. case w_fds w fd of
     None \<Rightarrow> (Inl (ErrOS EBADF), w)
   | Some h \<Rightarrow> if \<not> h_rd h then (Inl (ErrOS EBADF), w)
      else if off < 0 then (Inl (ErrOS EINVAL), w)
      else (case fd_content h w of
         Inl e \<Rightarrow> (Inl e, w)
       | Inr c \<Rightarrow> let bs = take n (drop (nat off) c) in
                  if length bs < n then (Inl ErrEOF, w) else (Inr bs, w)))"

definition file_Size :: "nat \<Rightarrow> (('x, 'm) world_scheme, int) go" where
  "file_Size fd = sysE (\<lambda>w. case w_fds w fd of
     None \<Rightarrow> (Inl (ErrOS EBADF), w)
   | Some h \<Rightarrow> (case fs_get (w_fs w) (h_path h) of
       Some (File c _) \<Rightarrow> (Inr (int (length c)), w) | _ \<Rightarrow> (Inr 0, w)))"

definition overwrite :: "byte list \<Rightarrow> nat \<Rightarrow> byte list \<Rightarrow> byte list" where
  "overwrite c off bs = take off c @ replicate (off - length c) 0 @ bs @ drop (off + length bs) c"

definition do_write :: "nat \<Rightarrow> handle \<Rightarrow> byte list \<Rightarrow> ('x, 'm) world_scheme \<Rightarrow> ('x, 'm) world_scheme" where
  "do_write fd h bs w = (case fs_get (w_fs w) (h_path h) of
     Some (File c _) \<Rightarrow>
       set_off fd h (h_off h + length bs)
         (set_fs (fs_put (h_path h) (File (overwrite c (h_off h) bs) (now w)) (w_fs w)) w)
   | _ \<Rightarrow> w)"

definition file_Write :: "nat \<Rightarrow> byte list \<Rightarrow> (('x, 'm) world_scheme, unit) go" where
  "file_Write fd bs = sys
     (\<lambda>ft w. (Inl (ErrOS (flt_errno ft)),
        case w_fds w fd of None \<Rightarrow> w
        | Some h \<Rightarrow> if h_wr h then do_write fd h (take (flt_part ft) bs) w else w))
     (\<lambda>w. case w_fds w fd of
        None \<Rightarrow> (Inl (ErrOS EBADF), w)
      | Some h \<Rightarrow> if h_wr h then (Inr (), do_write fd h bs w) else (Inl (ErrOS EBADF), w))"

text \<open>\<open>f.Readdirnames\<close> of a directory that was just opened: all names, or with \<open>n > 0\<close> at most
  \<open>n\<close> names and \<open>io.EOF\<close> when there is none.\<close>

definition file_Readdirnames :: "nat \<Rightarrow> int \<Rightarrow> (('x, 'm) world_scheme, string list) go" where
  "file_Readdirnames fd n = sysE (\<lambda>w. case w_fds w fd of
     None \<Rightarrow> (Inl (ErrOS EBADF), w)
   | Some h \<Rightarrow> (case fs_get (w_fs w) (h_path h) of
       Some (Dir _) \<Rightarrow>
         let ns = fs_names (w_fs w) (h_path h) in
         if n > 0 then (if ns = [] then (Inl ErrEOF, w) else (Inr (take (nat n) ns), w))
         else (Inr ns, w)
     | _ \<Rightarrow> (Inl (ErrOS ENOTDIR), w)))"

definition os_ReadFile :: "string \<Rightarrow> (('x, 'm) world_scheme, byte list) go" where
  "os_ReadFile p = sysE (\<lambda>w. case fs_find (w_fs w) (resolve p) of
     Inl e \<Rightarrow> (Inl (ErrOS e), w)
   | Inr (Dir _) \<Rightarrow> (Inl (ErrOS EISDIR), w)
   | Inr (File c _) \<Rightarrow> (Inr c, w))"

definition os_WriteFile :: "string \<Rightarrow> byte list \<Rightarrow> (('x, 'm) world_scheme, unit) go" where
  "os_WriteFile p bs =
     bnd (open_file False True True True p) (\<lambda>fd. deferred (file_Close fd) (file_Write fd bs))"

section \<open>Package io\<close>

text \<open>
  A reader delivers the bytes that are left and the error that ended it early, a writer takes
  bytes.  \<open>io.Copy\<close> hands on what was read, if anything, before it reports the error.
\<close>

type_synonym 'w reader = "('w, byte list \<times> err option) go"
type_synonym 'w writer = "byte list \<Rightarrow> ('w, unit) go"

definition file_reader :: "nat \<Rightarrow> ('x, 'm) world_scheme reader" where
  "file_reader fd =
     (let rd = (\<lambda>part e w. case w_fds w fd of
          None \<Rightarrow> (Inr ([], Some (ErrOS EBADF)), w)
        | Some h \<Rightarrow> if \<not> h_rd h then (Inr ([], Some (ErrOS EBADF)), w) else
           (case fd_content h w of
              Inl x \<Rightarrow> (Inr ([], Some x), w)
            | Inr c \<Rightarrow> let bs = part (drop (h_off h) c)
                      in (Inr (bs, e), set_off fd h (h_off h + length bs) w)))
      in sys (\<lambda>ft. rd (take (flt_part ft)) (Some (ErrOS (flt_errno ft)))) (rd id None))"

definition io_Copy :: "'w writer \<Rightarrow> 'w reader \<Rightarrow> ('w, unit) go" where
  "io_Copy dst src = bnd src (\<lambda>(bs, e). bnd (if bs = [] then ret () else dst bs) (\<lambda>_.
     case e of None \<Rightarrow> ret () | Some x \<Rightarrow> fail x))"

text \<open>\<open>io.ReadFull(rand.Reader, buf)\<close> draws the random bytes of the tick.\<close>

definition rand_ReadFull :: "nat \<Rightarrow> (('x, 'm) world_scheme, byte list) go" where
  "rand_ReadFull n = sysE (\<lambda>w. (Inr (map (w_rand w (w_tick w)) [0..<n]), w))"

section \<open>What system calls leave alone\<close>

text \<open>No system call changes the plan, the clock or the world outside, nor the variables of the
  program that later theories add to the world.\<close>

definition surroundings where
  "surroundings w = (w_fault w, w_clock w, w_rand w, w_short w, w_ext w, world.more w)"

lemma quiet_surroundings: "surroundings w = surroundings w' \<Longrightarrow> quiet w \<longleftrightarrow> quiet w'"
  by (simp add: surroundings_def quiet_def)

lemma same_sys [keeps]:
  fixes act :: "(('x, 'm) world_scheme, 'a) go"
  assumes "\<And>ft. same surroundings (flt ft)" and "same surroundings act"
  shows "same surroundings (sys flt act)"
proof (rule sameI)
  fix w :: "('x, 'm) world_scheme"
  let ?w = "w\<lparr>w_tick := Suc (w_tick w)\<rparr>"
  have "surroundings ?w = surroundings w" by (simp add: surroundings_def)
  then show "surroundings (snd (sys flt act w)) = surroundings w"
    using assms by (simp add: sys_def Let_def same_def split: option.split)
qed

lemma same_sysE [keeps]: "same surroundings act \<Longrightarrow> same surroundings (sysE act)"
  unfolding sysE_def by (intro keeps)

lemma surroundings_set_fs [simp]: "surroundings (set_fs f w) = surroundings w"
  by (simp add: surroundings_def set_fs_def)

lemma surroundings_set_off [simp]: "surroundings (set_off fd h n w) = surroundings w"
  by (simp add: surroundings_def set_off_def)

lemma surroundings_Close [simp]: "surroundings (file_Close fd w) = surroundings w"
  by (simp add: surroundings_def file_Close_def)

lemma surroundings_do_write [simp]: "surroundings (do_write fd h bs w) = surroundings w"
  by (simp add: do_write_def split: option.split node.split)

lemma surroundings_new_fd [simp]: "surroundings (snd (new_fd q rd wr w)) = surroundings w"
  by (simp add: surroundings_def new_fd_def)

lemma same_surroundings_os [keeps]:
  "same surroundings (os_Stat p)" "same surroundings (os_MkdirAll p)"
  "same surroundings (os_RemoveAll p)" "same surroundings (os_Remove p)"
  "same surroundings (os_Rename p q)" "same surroundings (os_Chown p)"
  "same surroundings (open_file rd wr cr tr p)" "same surroundings (file_Read fd n)"
  "same surroundings (file_ReadAt fd n off)" "same surroundings (file_Size fd)"
  "same surroundings (file_Write fd bs)" "same surroundings (file_Readdirnames fd k)"
  "same surroundings (os_ReadFile p)" "same surroundings (rand_ReadFull n)"
  "same surroundings (file_reader fd)"
  unfolding os_Stat_def os_MkdirAll_def os_RemoveAll_def os_Remove_def os_Rename_def os_Chown_def
    open_file_def file_Read_def file_ReadAt_def file_Size_def file_Write_def
    file_Readdirnames_def os_ReadFile_def rand_ReadFull_def file_reader_def Let_def
  by (intro keeps sameI; simp add: Let_def ret_def split: option.split sum.split node.split)+

lemma same_surroundings_WriteFile [keeps]: "same surroundings (os_WriteFile p bs)"
  unfolding os_WriteFile_def by (intro keeps) simp

lemma same_io_Copy [keeps]:
  "(\<And>bs. same g (dst bs)) \<Longrightarrow> same g src \<Longrightarrow> same g (io_Copy dst src)"
  unfolding io_Copy_def by (intro keeps)

lemma keeps_io_Copy [keeps]:
  "(\<And>bs. keeps I (dst bs)) \<Longrightarrow> keeps I src \<Longrightarrow> keeps I (io_Copy dst src)"
  unfolding io_Copy_def by (intro keeps)

text \<open>
  \<open>protected S g\<close>: the nodes in \<open>S\<close> are those of \<open>g\<close>, and no file open for writing is one of
  them.  The rules below say which calls keep it, whether they succeed or fail.
\<close>

definition protected :: "fpath set \<Rightarrow> (fpath \<Rightarrow> node option) \<Rightarrow> ('x, 'm) world_scheme \<Rightarrow> bool" where
  "protected S g w \<longleftrightarrow> (\<forall>q\<in>S. fs_get (w_fs w) q = g q) \<and>
     (\<forall>fd h. w_fds w fd = Some h \<longrightarrow> h_wr h \<longrightarrow> h_path h \<notin> S)"

lemma keeps_sys [keeps]:
  fixes act :: "(('x, 'm) world_scheme, 'a) go"
  assumes "\<And>ft. keeps (protected S g) (flt ft)" and "keeps (protected S g) act"
  shows "keeps (protected S g) (sys flt act)"
proof (rule keepsI)
  fix w :: "('x, 'm) world_scheme"
  assume "protected S g w"
  then have "protected S g (w\<lparr>w_tick := Suc (w_tick w)\<rparr>)" by (simp add: protected_def)
  then show "protected S g (snd (sys flt act w))"
    using assms by (simp add: sys_def Let_def keeps_def split: option.split)
qed

lemma keeps_sysE [keeps]: "keeps (protected S g) act \<Longrightarrow> keeps (protected S g) (sysE act)"
  unfolding sysE_def by (intro keeps)

lemma protected_Close [simp, intro]: "protected S g w \<Longrightarrow> protected S g (file_Close fd w)"
  by (auto simp: protected_def file_Close_def)

lemma protected_set_off:
  "protected S g w \<Longrightarrow> w_fds w fd = Some h \<Longrightarrow> protected S g (set_off fd h n w)"
  by (auto simp: protected_def set_off_def)

lemma protected_set_fs:
  "protected S g w \<Longrightarrow> (\<And>q. q \<in> S \<Longrightarrow> fs_get f q = fs_get (w_fs w) q) \<Longrightarrow> protected S g (set_fs f w)"
  by (auto simp: protected_def set_fs_def)

lemma protected_do_write:
  "protected S g w \<Longrightarrow> w_fds w fd = Some h \<Longrightarrow> h_wr h \<Longrightarrow> protected S g (do_write fd h bs w)"
  by (auto simp: do_write_def protected_def set_off_def set_fs_def fs_get_put
      split: option.split node.split)

lemma protected_new_fd:
  "protected S g w \<Longrightarrow> (wr \<Longrightarrow> q \<notin> S) \<Longrightarrow> protected S g (snd (new_fd q rd wr w))"
  by (auto simp: protected_def new_fd_def)

lemma keeps_protected_read [keeps]:
  "keeps (protected S g) (os_Stat p)" "keeps (protected S g) (os_Chown p)"
  "keeps (protected S g) (file_ReadAt fd n off)" "keeps (protected S g) (file_Size fd)"
  "keeps (protected S g) (file_Readdirnames fd k)" "keeps (protected S g) (os_ReadFile p)"
  "keeps (protected S g) (rand_ReadFull n)"
  unfolding os_Stat_def os_Chown_def file_ReadAt_def file_Size_def file_Readdirnames_def
    os_ReadFile_def rand_ReadFull_def
  by (intro keeps keepsI; simp add: Let_def split: option.split sum.split node.split)+

lemma keeps_protected_Read [keeps]:
  "keeps (protected S g) (file_Read fd n)" "keeps (protected S g) (file_reader fd)"
  unfolding file_Read_def file_reader_def Let_def
  by (intro keeps keepsI; auto simp: Let_def intro: protected_set_off split: option.split sum.split)+

lemma keeps_protected_Write [keeps]: "keeps (protected S g) (file_Write fd bs)"
  unfolding file_Write_def
  by (intro keeps keepsI; auto intro: protected_do_write split: option.split)+

lemma keeps_protected_open [keeps]:
  assumes "wr \<or> creat \<or> trunc \<Longrightarrow> resolve p \<notin> S"
  shows "keeps (protected S g) (open_file rd wr creat trunc p)"
  unfolding open_file_def
  by (intro keeps keepsI; use assms in \<open>auto simp: Let_def fs_get_put
      intro!: protected_new_fd protected_set_fs split: sum.split node.split if_splits\<close>)

lemma keeps_protected_WriteFile [keeps]:
  "resolve p \<notin> S \<Longrightarrow> keeps (protected S g) (os_WriteFile p bs)"
  unfolding os_WriteFile_def by (intro keeps) auto

lemma keeps_protected_RemoveAll [keeps]:
  "(\<And>q. q \<in> S \<Longrightarrow> \<not> prefix (resolve p) q) \<Longrightarrow> keeps (protected S g) (os_RemoveAll p)"
  unfolding os_RemoveAll_def
  by (intro keeps keepsI; auto simp: fs_get_drop intro!: protected_set_fs)+

lemma keeps_protected_Remove [keeps]:
  "resolve p \<notin> S \<Longrightarrow> keeps (protected S g) (os_Remove p)"
  unfolding os_Remove_def
  by (intro keeps keepsI; auto simp: fs_get_drop intro!: protected_set_fs split: sum.split node.split)+

lemma keeps_protected_MkdirAll [keeps]:
  assumes "\<And>q. q \<in> S \<Longrightarrow> q \<noteq> [] \<Longrightarrow> prefix q (resolve p) \<Longrightarrow> g q \<noteq> None"
  shows "keeps (protected S g) (os_MkdirAll p)"
proof -
  have get: "fs_get f q = g q"
    if "fs_mkdirs t (w_fs w) [] cs = Inr f" "prefix cs (resolve p)" "protected S g w" "q \<in> S"
    for t f cs q and w :: "('a, 'b) world_scheme"
  proof -
    have "fs_get (w_fs w) q = g q" using that(3,4) by (simp add: protected_def)
    moreover have "\<not> (\<exists>pa. pa \<noteq> [] \<and> prefix pa cs \<and> q = [] @ pa \<and> fs_get (w_fs w) q = None)"
    proof
      assume "\<exists>pa. pa \<noteq> [] \<and> prefix pa cs \<and> q = [] @ pa \<and> fs_get (w_fs w) q = None"
      then have "q \<noteq> []" "prefix q (resolve p)" "g q = None"
        using that(2) calculation by auto
      then show False using assms that(4) by blast
    qed
    ultimately show ?thesis by (simp only: fs_mkdirs_get [OF that(1)] if_False)
  qed
  have eq: "protected S g (set_fs f w)"
    if "fs_mkdirs t (w_fs w) [] cs = Inr f" "prefix cs (resolve p)" "protected S g w"
    for t f cs and w :: "('a, 'b) world_scheme"
    using get [OF that] that(3) by (auto simp: protected_def set_fs_def)
  show ?thesis
    unfolding os_MkdirAll_def
    by (intro keeps keepsI; auto intro: eq take_is_prefix split: sum.split)
qed

lemma fs_move_get:
  assumes "\<not> prefix a q" "\<not> prefix b q"
  shows "fs_get (fs_move a b f) q = fs_get f q"
proof -
  have "map_of (map (\<lambda>e. (b @ drop (length a) (fst e), snd e)) xs) q = None" for xs :: fs
    using assms(2) by (auto simp: map_of_eq_None_iff)
  moreover have "map_of (filter (\<lambda>e. \<not> prefix a (fst e) \<and> fst e \<noteq> b) f) q = map_of f q"
    using map_of_filter_keys [of "\<lambda>k. \<not> prefix a k \<and> k \<noteq> b" f q] assms by auto
  ultimately show ?thesis
    by (simp add: fs_get_def fs_move_def map_add_def split: option.split)
qed

lemma keeps_protected_Rename [keeps]:
  "(\<And>q. q \<in> S \<Longrightarrow> \<not> prefix (resolve a) q \<and> \<not> prefix (resolve b) q) \<Longrightarrow>
   keeps (protected S g) (os_Rename a b)"
  unfolding os_Rename_def
  by (intro keeps keepsI; auto simp: Let_def fs_move_get intro!: protected_set_fs
      split: sum.split option.split)

lemma protectedD: "protected S g w \<Longrightarrow> q \<in> S \<Longrightarrow> fs_get (w_fs w) q = g q"
  by (simp add: protected_def)

section \<open>Runs without I/O errors\<close>

definition tick :: "('x, 'm) world_scheme \<Rightarrow> ('x, 'm) world_scheme" where
  "tick w = w\<lparr>w_tick := Suc (w_tick w)\<rparr>"

named_theorems quiet_run "system calls in a world whose plan has no failures"

lemma quiet_fields [simp]:
  "quiet (tick w) = quiet w" "quiet (set_fs f w) = quiet w" "quiet (file_Close fd w) = quiet w"
  "quiet (set_off fd h n w) = quiet w" "quiet (do_write fd h bs w) = quiet w"
  by (simp_all add: quiet_def tick_def set_fs_def file_Close_def set_off_def do_write_def
      split: option.split node.split)

lemma fs_fields [simp]:
  "w_fs (tick w) = w_fs w" "w_fs (set_fs f w) = f" "w_fs (file_Close fd w) = w_fs w"
  "w_fs (set_off fd h n w) = w_fs w"
  by (simp_all add: tick_def set_fs_def file_Close_def set_off_def)

lemma fds_fields [simp]:
  "w_fds (tick w) = w_fds w" "w_fds (set_fs f w) = w_fds w"
  "w_fds (file_Close fd w) = (w_fds w)(fd := None)"
  "w_fds (set_off fd h n w) = (w_fds w)(fd \<mapsto> h\<lparr>h_off := n\<rparr>)"
  "w_nfd (tick w) = w_nfd w" "w_nfd (set_fs f w) = w_nfd w" "w_nfd (file_Close fd w) = w_nfd w"
  "w_nfd (set_off fd h n w) = w_nfd w"
  by (simp_all add: tick_def set_fs_def file_Close_def set_off_def)

lemma sys_quiet [quiet_run]: "quiet w \<Longrightarrow> sys flt act w = act (tick w)"
  by (simp add: sys_def quiet_def tick_def Let_def)

lemma sysE_quiet [quiet_run]: "quiet w \<Longrightarrow> sysE act w = act (tick w)"
  by (simp add: sysE_def sys_quiet)

lemma Stat_quiet [quiet_run]:
  "quiet w \<Longrightarrow> parents_ok (w_fs w) (resolve p) \<Longrightarrow>
   os_Stat p w = (case fs_get (w_fs w) (resolve p) of
     None \<Rightarrow> (Inl (ErrOS ENOENT), tick w) | Some n \<Rightarrow> (Inr n, tick w))"
  by (simp add: os_Stat_def sysE_quiet fs_find_eq split: option.split)

lemma RemoveAll_quiet [quiet_run]:
  "quiet w \<Longrightarrow> p \<noteq> '''' \<Longrightarrow> parents_ok (w_fs w) (resolve p) \<Longrightarrow>
   os_RemoveAll p w = (Inr (), set_fs (fs_drop (prefix (resolve p)) (w_fs w)) (tick w))"
  by (simp add: os_RemoveAll_def sys_quiet parents_ok_def)

lemma Remove_file_quiet [quiet_run]:
  "quiet w \<Longrightarrow> parents_ok (w_fs w) (resolve p) \<Longrightarrow> fs_get (w_fs w) (resolve p) = Some (File c t) \<Longrightarrow>
   os_Remove p w = (Inr (), set_fs (fs_drop (\<lambda>q. q = resolve p) (w_fs w)) (tick w))"
  by (simp add: os_Remove_def sysE_quiet fs_find_eq)

lemma Open_quiet [quiet_run]:
  "quiet w \<Longrightarrow> parents_ok (w_fs w) (resolve p) \<Longrightarrow> fs_get (w_fs w) (resolve p) = Some n \<Longrightarrow>
   os_Open p w = new_fd (resolve p) True False (tick w)"
  by (cases n) (simp_all add: open_file_def sysE_quiet fs_find_eq Let_def)

lemma ReadFile_quiet [quiet_run]:
  "quiet w \<Longrightarrow> parents_ok (w_fs w) (resolve p) \<Longrightarrow> fs_get (w_fs w) (resolve p) = Some (File c t) \<Longrightarrow>
   os_ReadFile p w = (Inr c, tick w)"
  by (simp add: os_ReadFile_def sysE_quiet fs_find_eq)

text \<open>Opening for writing: the file is new, or was there and is cut to nothing if asked.\<close>

lemma open_write_quiet [quiet_run]:
  assumes "quiet w" "parents_ok (w_fs w) (resolve p)" "\<not> is_dir (fs_get (w_fs w) (resolve p))"
  shows "open_file rd True True trunc p w = new_fd (resolve p) rd True
     (case fs_get (w_fs w) (resolve p) of
        Some (File c t) \<Rightarrow> if trunc then set_fs (fs_put (resolve p) (File [] (now (tick w))) (w_fs w)) (tick w) else tick w
      | _ \<Rightarrow> set_fs (fs_put (resolve p) (File [] (now (tick w))) (w_fs w)) (tick w))"
  using assms
  by (auto simp: open_file_def sysE_quiet fs_find_eq Let_def parents_ok_def
      split: option.splits node.splits)

lemma new_fd_run: "new_fd q rd wr w = (Inr (w_nfd w),
     w\<lparr>w_fds := (w_fds w)(w_nfd w \<mapsto> \<lparr>h_path = q, h_off = 0, h_rd = rd, h_wr = wr\<rparr>),
       w_nfd := Suc (w_nfd w)\<rparr>)"
  by (simp add: new_fd_def)

text \<open>Contents, without the times of the nodes.\<close>

definition file_at :: "fs \<Rightarrow> fpath \<Rightarrow> byte list option" where
  "file_at f p = (case fs_get f p of Some (File c _) \<Rightarrow> Some c | _ \<Rightarrow> None)"

lemma file_at_Some: "file_at f p = Some c \<longleftrightarrow> (\<exists>t. fs_get f p = Some (File c t))"
  by (auto simp: file_at_def split: option.split node.split)

section \<open>Closing, and directory walks\<close>

text \<open>\<open>f.Close()\<close> where the code looks at its error.\<close>

definition file_CloseE :: "nat \<Rightarrow> (('x, 'm) world_scheme, unit) go" where
  "file_CloseE fd = sys (\<lambda>ft w. (Inl (ErrOS (flt_errno ft)), file_Close fd w))
     (\<lambda>w. (Inr (), file_Close fd w))"

text \<open>\<open>os.ReadDir\<close>: the entries in the order of their names, each with whether it is a
  directory; a failing call still delivers a part of them.\<close>

definition os_ReadDir :: "string \<Rightarrow> (('x, 'm) world_scheme, (string \<times> bool) list \<times> err option) go" where
  "os_ReadDir p =
     (let ents = (\<lambda>w. map (\<lambda>n. (n, is_dir (fs_get (w_fs w) (resolve p @ [n])))) (sort (fs_names (w_fs w) (resolve p))))
      in sys (\<lambda>ft w. (Inr (take (flt_part ft) (ents w), Some (ErrOS (flt_errno ft))), w))
           (\<lambda>w. case fs_find (w_fs w) (resolve p) of
              Inl e \<Rightarrow> (Inr ([], Some (ErrOS e)), w)
            | Inr (File _ _) \<Rightarrow> (Inr ([], Some (ErrOS ENOTDIR)), w)
            | Inr (Dir _) \<Rightarrow> (Inr (ents w, None), w)))"

text \<open>
  \<open>fs.WalkDir\<close> and \<open>filepath.WalkDir\<close>: the callback gets a path, the entry (here whether it is a
  directory; \<open>None\<close> for the nil entry of a root that cannot be read) and an error.  A directory
  whose entries cannot be read is handed to the callback a second time, with the error.  The
  fuel bounds the depth of the tree.
\<close>

type_synonym 'w walk_fn = "string \<Rightarrow> bool option \<Rightarrow> err option \<Rightarrow> ('w, unit) go"

fun walk_dir ::
  "nat \<Rightarrow> (string \<Rightarrow> ('w, (string \<times> bool) list \<times> err option) go) \<Rightarrow> 'w walk_fn \<Rightarrow>
   string \<Rightarrow> bool \<Rightarrow> ('w, unit) go" where
  "walk_dir 0 rd fn name d = fail Diverges"
| "walk_dir (Suc n) rd fn name d =
     bnd (fn name (Some d) None) (\<lambda>_.
       if \<not> d then ret ()
       else bnd (rd name) (\<lambda>(es, eo).
         bnd (case eo of None \<Rightarrow> ret () | Some e \<Rightarrow> fn name (Some d) (Some e)) (\<lambda>_.
           each (\<lambda>(m, b). walk_dir n rd fn (path_Join [name, m]) b) es)))"

definition WalkDir ::
  "(string \<Rightarrow> string) \<Rightarrow> string \<Rightarrow> ('x, 'm) world_scheme walk_fn \<Rightarrow> (('x, 'm) world_scheme, unit) go" where
  "WalkDir full root fn =
     bnd (attempt (os_Stat (full root))) (\<lambda>r. case r of
         Inl e \<Rightarrow> fn root None (Some e)
       | Inr n \<Rightarrow> bnd (asks (\<lambda>w. Suc (length (w_fs w)))) (\<lambda>fuel.
           walk_dir fuel (\<lambda>p. os_ReadDir (full p)) fn root (is_dir (Some n))))"

lemma same_surroundings_more [keeps]:
  "same surroundings (file_CloseE fd)" "same surroundings (os_ReadDir p)"
  unfolding file_CloseE_def os_ReadDir_def Let_def
  by (intro keeps sameI; simp split: sum.split node.split)+

lemma keeps_protected_more [keeps]:
  "keeps (protected S g) (file_CloseE fd)" "keeps (protected S g) (os_ReadDir p)"
  unfolding file_CloseE_def os_ReadDir_def Let_def
  by (intro keeps keepsI; auto split: sum.split node.split)+

lemma same_walk_dir:
  assumes "\<And>p d e. same h (fn p d e)" and "\<And>p. same h (rd p)"
  shows "same h (walk_dir n rd fn name d)"
proof (induction n arbitrary: name d)
  case (Suc n)
  show ?case unfolding walk_dir.simps by (intro keeps assms Suc)
qed (simp add: keeps)

lemma same_WalkDir [keeps]:
  "(\<And>p d e. same surroundings (fn p d e)) \<Longrightarrow> same surroundings (WalkDir full root fn)"
  unfolding WalkDir_def by (intro keeps same_walk_dir)

lemma keeps_walk_dir:
  assumes "\<And>p d e. keeps I (fn p d e)" and "\<And>p. keeps I (rd p)"
  shows "keeps I (walk_dir n rd fn name d)"
proof (induction n arbitrary: name d)
  case (Suc n)
  show ?case unfolding walk_dir.simps by (intro keeps assms Suc)
qed (simp add: keeps)

lemma keeps_WalkDir [keeps]:
  "(\<And>p d e. keeps (protected S g) (fn p d e)) \<Longrightarrow> keeps (protected S g) (WalkDir full root fn)"
  unfolding WalkDir_def by (intro keeps keeps_walk_dir)

section \<open>What a successful call says\<close>

lemma os_Open_InrD:
  assumes "os_Open p w = (Inr fd, w')"
  shows "w_fs w' = w_fs w" "parents_ok (w_fs w) (resolve p)"
    "fs_get (w_fs w) (resolve p) \<noteq> None" "fd = w_nfd w"
    "w_fds w' = (w_fds w)(fd \<mapsto> \<lparr>h_path = resolve p, h_off = 0, h_rd = True, h_wr = False\<rparr>)"
  using assms
  by (auto simp: open_file_def sysE_def sys_def Let_def fail_def new_fd_def parents_ok_def
      fs_find_def split: option.splits sum.splits node.splits if_splits)

lemma os_Stat_InrD:
  assumes "os_Stat p w = (Inr n, w')"
  shows "w_fs w' = w_fs w" "parents_ok (w_fs w) (resolve p)" "fs_get (w_fs w) (resolve p) = Some n"
  using assms
  by (auto simp: os_Stat_def sysE_def sys_def Let_def fail_def parents_ok_def
      fs_find_def split: option.splits sum.splits)

lemma file_Readdirnames_InrD:
  assumes "file_Readdirnames fd k w = (Inr ns, w')"
  shows "w_fs w' = w_fs w"
    "\<exists>h. w_fds w fd = Some h \<and> is_dir (fs_get (w_fs w) (h_path h)) \<and>
       ns = (if k > 0 then take (nat k) (fs_names (w_fs w) (h_path h)) else fs_names (w_fs w) (h_path h)) \<and>
       (k > 0 \<longrightarrow> fs_names (w_fs w) (h_path h) \<noteq> [])"
  using assms
  by (auto simp: file_Readdirnames_def sysE_def sys_def Let_def fail_def
      split: option.splits node.splits if_splits)

lemma file_Readdirnames_EOF:
  assumes "file_Readdirnames fd k w = (Inl ErrEOF, w')"
  shows "w_fs w' = w_fs w"
    "\<exists>h. w_fds w fd = Some h \<and> is_dir (fs_get (w_fs w) (h_path h)) \<and> fs_names (w_fs w) (h_path h) = []"
  using assms
  by (auto simp: file_Readdirnames_def sysE_def sys_def Let_def fail_def
      split: option.splits node.splits if_splits)

lemma os_RemoveAll_InrD:
  assumes "os_RemoveAll p w = (Inr u, w')" "p \<noteq> ''''"
  shows "w_fs w' = fs_drop (prefix (resolve p)) (w_fs w)"
  using assms by (auto simp: os_RemoveAll_def sys_def Let_def split: option.splits if_splits)

lemma open_write_InrD:
  assumes "open_file rd True True True p w = (Inr fd, w')"
  shows "\<exists>t. w_fs w' = fs_put (resolve p) (File [] t) (w_fs w)" "resolve p \<noteq> []"
    "parents_ok (w_fs w) (resolve p)" "fd = w_nfd w" "w_nfd w' = Suc (w_nfd w)"
    "w_fds w' = (w_fds w)(fd \<mapsto> \<lparr>h_path = resolve p, h_off = 0, h_rd = rd, h_wr = True\<rparr>)"
    "\<not> is_dir (fs_get (w_fs w) (resolve p))"
  using assms
  by (auto simp: open_file_def sysE_def sys_def Let_def fail_def new_fd_def parents_ok_def
      fs_find_def set_fs_def split: option.splits sum.splits node.splits if_splits)

lemma os_Open_nfd: "os_Open p w = (Inr fd, w') \<Longrightarrow> w_nfd w' = Suc (w_nfd w)"
  by (auto simp: open_file_def sysE_def sys_def Let_def fail_def new_fd_def
      split: option.splits sum.splits node.splits if_splits)

lemma file_reader_InrD:
  assumes "file_reader fd w = (Inr (bs, None), w')" "w_fds w fd = Some h" "h_rd h"
    "fs_get (w_fs w) (h_path h) = Some (File c t)"
  shows "bs = drop (h_off h) c" "w_fs w' = w_fs w" "w_nfd w' = w_nfd w"
    "w_fds w' = (w_fds w)(fd \<mapsto> h\<lparr>h_off := h_off h + length bs\<rparr>)"
  using assms
  by (auto simp: file_reader_def sys_def Let_def fd_content_def set_off_def
      split: option.splits)

lemma overwrite_end: "overwrite c (length c) bs = c @ bs"
  by (simp add: overwrite_def)

lemma overwrite_start: "overwrite c 0 bs = bs @ drop (length bs) c"
  by (simp add: overwrite_def)

lemma overwrite_Nil: "k \<le> length c \<Longrightarrow> overwrite c k [] = c"
  by (simp add: overwrite_def)

lemma file_Write_InrD:
  assumes "file_Write fd bs w = (Inr u, w')" "w_fds w fd = Some h"
    "fs_get (w_fs w) (h_path h) = Some (File c t)"
  shows "\<exists>t'. w_fs w' = fs_put (h_path h) (File (overwrite c (h_off h) bs) t') (w_fs w)"
    "w_fds w' = (w_fds w)(fd \<mapsto> h\<lparr>h_off := h_off h + length bs\<rparr>)" "w_nfd w' = w_nfd w"
  using assms
  by (auto simp: file_Write_def sys_def Let_def do_write_def set_off_def set_fs_def
      split: option.splits if_splits)

lemma io_Copy_InrD:
  "io_Copy dst src w = (Inr u, w') \<longleftrightarrow>
     (\<exists>bs w1. src w = (Inr (bs, None), w1) \<and> (if bs = [] then w' = w1 else dst bs w1 = (Inr u, w')))"
  by (auto simp: io_Copy_def bnd_eq_Inr fail_def ret_def split: option.splits if_splits)

text \<open>Every name in a tidy file system is built from plain elements below directories.\<close>

definition tidy :: "fs \<Rightarrow> bool" where
  "tidy f \<longleftrightarrow> (\<forall>p. fs_get f p \<noteq> None \<longrightarrow> list_all plain_name p \<and> parents_ok f p)"

lemma tidyI: "list_all (\<lambda>e. list_all plain_name (fst e) \<and> fs_walk f [] (fst e) = None) f \<Longrightarrow> tidy f"
  by (auto simp: tidy_def fs_get_def parents_ok_def list_all_iff dest!: map_of_SomeD split: if_splits)

lemma tidy_name: "tidy f \<Longrightarrow> n \<in> set (fs_names f d) \<Longrightarrow> plain_name n"
  unfolding tidy_def set_fs_names by fastforce

lemma tidy_child:
  assumes "tidy f" "fs_get f q \<noteq> None" "strict_prefix d q"
  shows "\<exists>n\<in>set (fs_names f d). prefix (d @ [n]) q"
proof -
  from assms(3) obtain n r where q: "q = d @ n # r" by (blast elim: strict_prefixE')
  have "fs_get f (d @ [n]) \<noteq> None"
  proof (cases r)
    case Nil
    then show ?thesis using assms(2) q by simp
  next
    case Cons
    then have "strict_prefix (d @ [n]) q" by (simp add: q strict_prefix_def prefix_def)
    then have "is_dir (fs_get f (d @ [n]))"
      using assms(1,2) by (auto simp: tidy_def parents_ok_iff)
    then show ?thesis by (auto simp: is_dir_iff)
  qed
  then show ?thesis unfolding set_fs_names using q by auto
qed

section \<open>Success unless a call fails\<close>

text \<open>
  \<open>meets m Q w\<close>: a run of \<open>m\<close> from \<open>w\<close> that succeeds ends in \<open>Q\<close>, and it can only fail where the
  plan lets some system call fail.  So in a quiet world \<open>m\<close> succeeds, and under every plan its
  success means the same.
\<close>

definition meets ::
  "(('x, 'm) world_scheme, 'a) go \<Rightarrow> ('a \<Rightarrow> ('x, 'm) world_scheme \<Rightarrow> bool) \<Rightarrow> ('x, 'm) world_scheme \<Rightarrow> bool" where
  "meets m Q w \<longleftrightarrow> wp m Q (\<lambda>_ _. \<not> quiet w) w"

lemma meetsI:
  assumes "\<And>x w'. m w = (Inr x, w') \<Longrightarrow> Q x w'" and "quiet w \<Longrightarrow> \<exists>x w'. m w = (Inr x, w')"
  shows "meets m Q w"
  using assms by (auto simp: meets_def wp_def split: prod.splits sum.splits)

lemma meets_Inr: "meets m Q w \<Longrightarrow> m w = (Inr x, w') \<Longrightarrow> Q x w'"
  by (simp add: meets_def wp_def)

lemma meets_quiet: "meets m Q w \<Longrightarrow> quiet w \<Longrightarrow> \<exists>x w'. m w = (Inr x, w') \<and> Q x w'"
  by (auto simp: meets_def wp_def split: prod.splits sum.splits)

lemma meets_mono: "meets m Q w \<Longrightarrow> (\<And>x w'. Q x w' \<Longrightarrow> R x w') \<Longrightarrow> meets m R w"
  by (auto simp: meets_def wp_def split: prod.splits sum.splits)

lemma meets_conj: "meets m Q w \<Longrightarrow> meets m R w \<Longrightarrow> meets m (\<lambda>x w. Q x w \<and> R x w) w"
  by (auto simp: meets_def wp_def split: prod.splits sum.splits)

lemma meets_frame: "meets m Q w \<Longrightarrow> same g m \<Longrightarrow> meets m (\<lambda>x w'. Q x w' \<and> g w' = g w) w"
  by (auto simp: meets_def wp_def same_def split: prod.splits sum.splits) (metis snd_conv)

lemma meets_ret: "Q x w \<Longrightarrow> meets (ret x) Q w"
  by (simp add: meets_def wp_ret)

lemma same_fault [keeps]: "same surroundings m \<Longrightarrow> same w_fault m"
  by (erule same_comp) (simp add: surroundings_def)

lemma meets_bnd:
  assumes "meets m R w" "same w_fault m" "\<And>x w1. R x w1 \<Longrightarrow> quiet w1 = quiet w \<Longrightarrow> meets (k x) Q w1"
  shows "meets (bnd m k) Q w"
proof -
  obtain r w1 where m: "m w = (r, w1)" by fastforce
  then have "w_fault w1 = w_fault w" by (rule sameD [OF assms(2)])
  then have "quiet w1 = quiet w" by (simp add: quiet_def)
  with assms(3) have "R x w1 \<Longrightarrow> meets (k x) Q w1" for x by blast
  then show ?thesis
    using m assms(1) \<open>quiet w1 = quiet w\<close>
    by (cases r) (simp_all add: meets_def wp_bnd, simp_all add: wp_def)
qed

lemma meets_wrapE: "meets m Q w \<Longrightarrow> meets (wrapE s m) Q w"
  by (simp add: meets_def wp_wrapE)

lemma meets_deferred: "meets m (\<lambda>x w. Q x (d w)) w \<Longrightarrow> meets (deferred d m) Q w"
  by (simp add: meets_def wp_deferred)

text \<open>Where the code goes on after an error, only the success branch is promised.\<close>

lemma meets_attempt:
  assumes "meets m (\<lambda>x. Q (Inr x)) w" "\<And>e w'. m w = (Inl e, w') \<Longrightarrow> \<not> quiet w \<Longrightarrow> \<not> unwinds e \<Longrightarrow> Q (Inl e) w'"
  shows "meets (attempt m) Q w"
  using assms by (auto simp: meets_def wp_attempt) (auto simp: wp_def split: prod.splits sum.splits)

lemma meets_liftR: "r = Inr x \<Longrightarrow> Q x w \<Longrightarrow> meets (liftR r) Q w"
  by (simp add: meets_ret)

lemma meets_asks: "Q (f w) w \<Longrightarrow> meets (asks f) Q w"
  by (simp add: meets_def wp_asks)

lemma meets_sysE: "wp act Q (\<lambda>_ _. False) (tick w) \<Longrightarrow> meets (sysE act) Q w"
  by (auto simp: meets_def wp_def sysE_def sys_def tick_def Let_def quiet_def fail_def
      split: option.splits prod.splits sum.splits)

lemma meets_sys:
  assumes "wp act Q (\<lambda>_ _. False) (tick w)" "\<And>ft. \<exists>e w'. flt ft (tick w) = (Inl e, w')"
  shows "meets (sys flt act) Q w"
proof (cases "w_fault w (w_tick w)")
  case None
  then show ?thesis using assms(1)
    by (auto simp: meets_def wp_def sys_def tick_def split: prod.splits sum.splits)
next
  case (Some ft)
  obtain e w' where "flt ft (tick w) = (Inl e, w')" using assms(2) by blast
  with Some show ?thesis
    by (auto simp: meets_def wp_def sys_def tick_def quiet_def)
qed

subsection \<open>The calls\<close>

lemma meets_Stat:
  "parents_ok (w_fs w) (resolve p) \<Longrightarrow> fs_get (w_fs w) (resolve p) = Some n \<Longrightarrow>
   meets (os_Stat p) (\<lambda>n' w'. n' = n \<and> w_fs w' = w_fs w \<and> w_fds w' = w_fds w \<and> w_nfd w' = w_nfd w) w"
  unfolding os_Stat_def by (rule meets_sysE) (simp add: fs_find_eq wp_def)

lemma meets_Open:
  assumes "parents_ok (w_fs w) (resolve p)" "fs_get (w_fs w) (resolve p) = Some n"
  shows "meets (os_Open p) (\<lambda>fd w'. fd = w_nfd w \<and> w_fs w' = w_fs w \<and> w_nfd w' = Suc (w_nfd w) \<and>
     w_fds w' = (w_fds w)(fd \<mapsto> \<lparr>h_path = resolve p, h_off = 0, h_rd = True, h_wr = False\<rparr>)) w"
  unfolding open_file_def
  by (rule meets_sysE, use assms in \<open>cases n\<close>) (simp_all add: fs_find_eq Let_def new_fd_def wp_def)

text \<open>\<open>O_CREATE\<close> for writing: the file is there afterwards, cut to nothing or with what it held.\<close>

definition opened :: "bool \<Rightarrow> node option \<Rightarrow> byte list" where
  "opened trunc n = (case n of Some (File c _) \<Rightarrow> if trunc then [] else c | _ \<Rightarrow> [])"

lemma fs_get_put_fun: "p \<noteq> [] \<Longrightarrow> fs_get (fs_put p n f) = (fs_get f)(p \<mapsto> n)"
  by (auto simp: fs_get_put fun_eq_iff)

lemma meets_open_write:
  assumes "parents_ok (w_fs w) (resolve p)" "\<not> is_dir (fs_get (w_fs w) (resolve p))"
  shows "meets (open_file rd True True trunc p) (\<lambda>fd w'. fd = w_nfd w \<and> w_nfd w' = Suc (w_nfd w) \<and>
     (\<exists>t. fs_get (w_fs w') = (fs_get (w_fs w))(resolve p \<mapsto> File (opened trunc (fs_get (w_fs w) (resolve p))) t)) \<and>
     w_fds w' = (w_fds w)(fd \<mapsto> \<lparr>h_path = resolve p, h_off = 0, h_rd = rd, h_wr = True\<rparr>)) w"
proof -
  have ne: "resolve p \<noteq> []" using assms(2) by auto
  consider c t where "fs_get (w_fs w) (resolve p) = Some (File c t)" | "fs_get (w_fs w) (resolve p) = None"
    using assms(2) by (cases "fs_get (w_fs w) (resolve p)" rule: is_dir.cases) auto
  then show ?thesis
  proof cases
    case 1
    have "\<exists>s. (fs_get (w_fs w)) = (fs_get (w_fs w))(resolve p \<mapsto> File c s)"
      by (rule exI [of _ t]) (simp add: 1 fun_upd_idem)
    then show ?thesis unfolding open_file_def
      by (intro meets_sysE) (use assms(1) 1 ne in
        \<open>auto simp: fs_find_eq Let_def new_fd_def fs_get_put_fun opened_def wp_def\<close>)
  next
    case 2
    then show ?thesis unfolding open_file_def
      by (intro meets_sysE) (use assms(1) ne in
        \<open>auto simp: fs_find_eq Let_def new_fd_def fs_get_put_fun opened_def parents_ok_def wp_def\<close>)
  qed
qed

lemma meets_Read:
  assumes "w_fds w fd = Some h" "h_rd h" "fs_get (w_fs w) (h_path h) = Some (File c t)" "cap > 0"
  shows "meets (file_Read fd cap) (\<lambda>(bs, eof) w'. w_fs w' = w_fs w \<and> w_nfd w' = w_nfd w \<and>
     w_fds w' = (w_fds w)(fd \<mapsto> h\<lparr>h_off := h_off h + length bs\<rparr>) \<and>
     bs = take (length bs) (drop (h_off h) c) \<and> length bs \<le> cap \<and>
     (eof \<longleftrightarrow> drop (h_off h) c = []) \<and> (bs = [] \<longleftrightarrow> eof)) w"
proof -
  have triv: "w_fds w = (w_fds w)(fd \<mapsto> h\<lparr>h_off := h_off h\<rparr>)" using assms(1) by (simp add: fun_upd_idem)
  have cont: "fd_content h (tick w) = Inr c" using assms(3) by (simp add: fd_content_def)
  show ?thesis
  proof (cases "drop (h_off h) c = []")
    case True
    then show ?thesis unfolding file_Read_def
      by (intro meets_sysE) (use assms triv cont in \<open>simp add: wp_def Let_def\<close>)
  next
    case False
    then show ?thesis unfolding file_Read_def
      by (intro meets_sysE) (use assms cont in \<open>auto simp: wp_def Let_def min_def\<close>)
  qed
qed

lemma meets_ReadAt:
  assumes "w_fds w fd = Some h" "h_rd h" "fs_get (w_fs w) (h_path h) = Some (File c t)"
    "0 \<le> off" "nat off + n \<le> length c"
  shows "meets (file_ReadAt fd n off) (\<lambda>bs w'. bs = take n (drop (nat off) c) \<and>
     w_fs w' = w_fs w \<and> w_nfd w' = w_nfd w \<and> w_fds w' = w_fds w) w"
  unfolding file_ReadAt_def
  by (rule meets_sysE) (use assms in \<open>auto simp: fd_content_def Let_def wp_def\<close>)

lemma meets_Size:
  assumes "w_fds w fd = Some h" "fs_get (w_fs w) (h_path h) = Some (File c t)"
  shows "meets (file_Size fd) (\<lambda>n w'. n = int (length c) \<and>
     w_fs w' = w_fs w \<and> w_nfd w' = w_nfd w \<and> w_fds w' = w_fds w) w"
  unfolding file_Size_def by (rule meets_sysE) (use assms in \<open>auto simp: wp_def\<close>)

lemma meets_Write:
  assumes "w_fds w fd = Some h" "h_wr h" "fs_get (w_fs w) (h_path h) = Some (File c t)" "h_path h \<noteq> []"
  shows "meets (file_Write fd bs) (\<lambda>_ w'.
     (\<exists>t'. fs_get (w_fs w') = (fs_get (w_fs w))(h_path h \<mapsto> File (overwrite c (h_off h) bs) t')) \<and>
     w_fds w' = (w_fds w)(fd \<mapsto> h\<lparr>h_off := h_off h + length bs\<rparr>) \<and> w_nfd w' = w_nfd w) w"
  unfolding file_Write_def
  by (rule meets_sys) (use assms in \<open>auto simp: do_write_def fs_get_put_fun wp_def\<close>)

lemma meets_Remove_file:
  assumes "parents_ok (w_fs w) (resolve p)" "fs_get (w_fs w) (resolve p) = Some (File c t)"
  shows "meets (os_Remove p) (\<lambda>_ w'. fs_get (w_fs w') = (fs_get (w_fs w))(resolve p := None) \<and>
     w_fds w' = w_fds w \<and> w_nfd w' = w_nfd w) w"
proof -
  have "resolve p \<noteq> []" using assms(2) by auto
  then have "fs_get (fs_drop (\<lambda>q. q = resolve p) (w_fs w)) = (fs_get (w_fs w))(resolve p := None)"
    by (auto simp: fs_get_drop fun_eq_iff)
  then show ?thesis unfolding os_Remove_def
    by (intro meets_sysE) (use assms in \<open>simp add: fs_find_eq wp_def\<close>)
qed

lemma meets_RemoveAll:
  assumes "p \<noteq> ''''" "parents_ok (w_fs w) (resolve p)"
  shows "meets (os_RemoveAll p) (\<lambda>_ w'. w_fs w' = fs_drop (prefix (resolve p)) (w_fs w) \<and>
     w_fds w' = w_fds w \<and> w_nfd w' = w_nfd w) w"
proof -
  have "fs_walk (w_fs w) [] (resolve p) = None" using assms(2) by (simp add: parents_ok_def)
  then show ?thesis using assms(1) unfolding os_RemoveAll_def
    by (simp, intro meets_sys) (simp_all add: wp_def)
qed

lemma meets_MkdirAll:
  assumes "\<And>q c t. prefix q (resolve p) \<Longrightarrow> q \<noteq> [] \<Longrightarrow> fs_get (w_fs w) q \<noteq> Some (File c t)"
  shows "meets (os_MkdirAll p) (\<lambda>_ w'. (\<exists>t. \<forall>q. fs_get (w_fs w') q =
      (if q \<noteq> [] \<and> prefix q (resolve p) \<and> fs_get (w_fs w) q = None then Some (Dir t) else fs_get (w_fs w) q)) \<and>
    w_fds w' = w_fds w \<and> w_nfd w' = w_nfd w) w"
proof -
  obtain g where g: "fs_mkdirs (now (tick w)) (w_fs w) [] (resolve p) = Inr g"
    using fs_mkdirs_ok [of "resolve p" "w_fs w" "[]" "now (tick w)"] assms by auto
  have "wp (\<lambda>w. case fs_mkdirs (now w) (w_fs w) [] (resolve p) of
      Inl e \<Rightarrow> (Inl (ErrOS e), w) | Inr f \<Rightarrow> (Inr (), set_fs f w))
    (\<lambda>_ w'. (\<exists>t. \<forall>q. fs_get (w_fs w') q =
      (if q \<noteq> [] \<and> prefix q (resolve p) \<and> fs_get (w_fs w) q = None then Some (Dir t) else fs_get (w_fs w) q)) \<and>
      w_fds w' = w_fds w \<and> w_nfd w' = w_nfd w) (\<lambda>_ _. False) (tick w)"
    using g fs_mkdirs_get [OF g] by (auto simp: wp_def set_fs_def intro!: exI [of _ "now (tick w)"])
  then show ?thesis unfolding os_MkdirAll_def by (rule meets_sys) simp
qed

text \<open>A directory is made new.\<close>

lemma meets_new_dir:
  fixes w :: "('x, 'm) world_scheme"
  assumes "p \<noteq> ''''" "parents_ok (w_fs w) (resolve p)"
  shows "meets (bnd (wrapE m1 (os_RemoveAll p)) (\<lambda>_. wrapE m2 (os_MkdirAll p)))
    (\<lambda>_ w'. is_dir (fs_get (w_fs w') (resolve p)) \<and> (\<forall>q. \<not> prefix (resolve p) q \<longrightarrow> fs_get (w_fs w') q = fs_get (w_fs w) q) \<and>
      (\<forall>q. strict_prefix (resolve p) q \<longrightarrow> fs_get (w_fs w') q = None)) w"
proof -
  let ?R = "resolve p"
  have rm: "meets (wrapE m1 (os_RemoveAll p)) (\<lambda>_ v. w_fs v = fs_drop (prefix ?R) (w_fs w)) w"
    by (rule meets_wrapE, rule meets_mono [OF meets_RemoveAll [OF assms]]) simp
  show ?thesis
  proof (rule meets_bnd [OF rm], (intro same_wrapE same_fault same_surroundings_os)[1])
    fix v :: "('x, 'm) world_scheme"
    assume v: "w_fs v = fs_drop (prefix ?R) (w_fs w)"
    have vq: "fs_get (w_fs v) q = (if q \<noteq> [] \<and> prefix ?R q then None else fs_get (w_fs w) q)" for q
      unfolding v by (rule fs_get_drop)
    have above: "is_dir (fs_get (w_fs w) q)" if "prefix q ?R" "q \<noteq> ?R" for q
      using that assms(2) by (simp add: parents_ok_iff strict_prefix_def)
    have nf: "fs_get (w_fs v) q \<noteq> Some (File c t)" if "prefix q ?R" "q \<noteq> []" for q c t
      using vq [of q] above [OF that(1)] that by (cases "q = ?R") auto
    show "meets (wrapE m2 (os_MkdirAll p)) (\<lambda>_ w'. is_dir (fs_get (w_fs w') ?R) \<and>
      (\<forall>q. \<not> prefix ?R q \<longrightarrow> fs_get (w_fs w') q = fs_get (w_fs w) q) \<and>
      (\<forall>q. strict_prefix ?R q \<longrightarrow> fs_get (w_fs w') q = None)) v"
    proof (rule meets_wrapE, rule meets_mono [OF meets_MkdirAll], rule nf, assumption, assumption, elim conjE exE, goal_cases)
      case (1 u w' t)
      have "fs_get (w_fs w') q = fs_get (w_fs w) q" if "\<not> prefix ?R q" for q
        using 1(3) vq [of q] above [of q] that by (cases "q = ?R") (auto simp: is_dir_iff)
      moreover have "fs_get (w_fs w') q = None" if "strict_prefix ?R q" for q
        using 1(3) vq [of q] that by (auto simp: strict_prefix_def dest: prefix_order.antisym)
      moreover have "is_dir (fs_get (w_fs w') ?R)" using 1(3) vq [of ?R] by (cases "?R = []") auto
      ultimately show ?case by blast
    qed
  qed
qed

lemma meets_rand:
  "meets (rand_ReadFull n) (\<lambda>bs w'. length bs = n \<and> w_fs w' = w_fs w \<and> w_fds w' = w_fds w \<and> w_nfd w' = w_nfd w) w"
  unfolding rand_ReadFull_def by (rule meets_sysE) (simp add: wp_def)

text \<open>Copying one open file to another.\<close>

lemma meets_copy:
  assumes i: "w_fds w i = Some hi" "h_rd hi" "fs_get (w_fs w) (h_path hi) = Some (File c t)"
    and q: "w_fds w q = Some hq" "h_wr hq" "fs_get (w_fs w) (h_path hq) = Some (File d s)"
    and ne: "h_path hq \<noteq> []" "i \<noteq> q" and off: "h_off hq \<le> length d"
  shows "meets (io_Copy (file_Write q) (file_reader i)) (\<lambda>_ w'.
     (\<exists>s. fs_get (w_fs w') = (fs_get (w_fs w))(h_path hq \<mapsto> File (overwrite d (h_off hq) (drop (h_off hi) c)) s)) \<and>
     (\<forall>j. j \<noteq> i \<longrightarrow> j \<noteq> q \<longrightarrow> w_fds w' j = w_fds w j) \<and> w_nfd w' = w_nfd w) w"
proof (rule meetsI)
  fix x w'
  assume "io_Copy (file_Write q) (file_reader i) w = (Inr x, w')"
  then obtain bs w1 where 1: "file_reader i w = (Inr (bs, None), w1)"
    and 2: "if bs = [] then w' = w1 else file_Write q bs w1 = (Inr x, w')"
    by (auto simp: io_Copy_InrD)
  note r = file_reader_InrD [OF 1 i]
  have q1: "w_fds w1 q = Some hq" "fs_get (w_fs w1) (h_path hq) = Some (File d s)" using r q ne by auto
  show "(\<exists>s. fs_get (w_fs w') = (fs_get (w_fs w))(h_path hq \<mapsto> File (overwrite d (h_off hq) (drop (h_off hi) c)) s)) \<and>
     (\<forall>j. j \<noteq> i \<longrightarrow> j \<noteq> q \<longrightarrow> w_fds w' j = w_fds w j) \<and> w_nfd w' = w_nfd w"
  proof (cases "bs = []")
    case True
    moreover have "fs_get (w_fs w) = (fs_get (w_fs w))(h_path hq \<mapsto> File d s)" using q(3) by (simp add: fun_upd_idem)
    ultimately show ?thesis using 2 r off by (auto simp: overwrite_Nil)
  next
    case False
    then have "file_Write q bs w1 = (Inr x, w')" using 2 by simp
    from file_Write_InrD [OF this q1] r ne show ?thesis by (auto simp: fs_get_put_fun)
  qed
next
  assume "quiet w"
  then show "\<exists>x w'. io_Copy (file_Write q) (file_reader i) w = (Inr x, w')"
    using i q ne by (simp add: io_Copy_def file_reader_def file_Write_def Let_def sys_quiet bnd_run fd_content_def ret_run)
qed

section \<open>What is not there stays away\<close>

text \<open>Calls that only read or remove never bring a node into being.\<close>

definition absent :: "fpath \<Rightarrow> ('x, 'm) world_scheme \<Rightarrow> bool" where
  "absent q w \<longleftrightarrow> fs_get (w_fs w) q = None"

lemma absent_fields [simp]:
  "absent q (tick w) = absent q w" "absent q (file_Close fd w) = absent q w"
  "absent q (set_off fd h n w) = absent q w" "absent q (w\<lparr>w_tick := t\<rparr>) = absent q w"
  by (simp_all add: absent_def)

lemma absent_drop [simp, intro]: "absent q w \<Longrightarrow> absent q (set_fs (fs_drop d (w_fs w)) w)"
  by (auto simp: absent_def fs_get_drop)

lemma keeps_absent_sys:
  fixes act :: "(('x, 'm) world_scheme, 'a) go"
  assumes "\<And>ft. keeps (absent q) (flt ft)" and "keeps (absent q) act"
  shows "keeps (absent q) (sys flt act)"
proof (rule keepsI)
  fix w :: "('x, 'm) world_scheme"
  assume "absent q w"
  then have "absent q (w\<lparr>w_tick := Suc (w_tick w)\<rparr>)" by simp
  then show "absent q (snd (sys flt act w))"
    using assms by (simp add: sys_def Let_def keeps_def split: option.split)
qed

lemma keeps_absent_sysE: "keeps (absent q) act \<Longrightarrow> keeps (absent q) (sysE act)"
  unfolding sysE_def by (intro keeps_absent_sys keeps)

lemma keeps_absent_os [keeps]:
  "keeps (absent q) (os_Stat p)" "keeps (absent q) (os_Chown p)" "keeps (absent q) (os_RemoveAll p)"
  "keeps (absent q) (os_Remove p)" "keeps (absent q) (file_Readdirnames fd k)"
  "keeps (absent q) (os_ReadFile p)" "keeps (absent q) (os_Open p)"
  unfolding os_Stat_def os_Chown_def os_RemoveAll_def os_Remove_def file_Readdirnames_def
    os_ReadFile_def open_file_def
  by (intro keeps_absent_sys keeps_absent_sysE keeps keepsI;
      auto simp: Let_def absent_def new_fd_def fs_get_drop split: option.split sum.split node.split)+

lemma keeps_absent_each_RemoveAll [keeps]: "keeps (absent q) (each (\<lambda>n. os_RemoveAll (f n)) ns)"
  by (intro keeps)

lemma keeps_absent_MkdirAll [keeps]:
  assumes "\<not> prefix q (resolve p)"
  shows "keeps (absent q) (os_MkdirAll p)"
proof -
  have "fs_get g q = None"
    if "fs_mkdirs t f [] cs = Inr g" "fs_get f q = None" "prefix cs (resolve p)" for t f cs g
    using fs_mkdirs_get [OF that(1), of q] that(2,3) assms by auto
  then have "absent q (set_fs g w)"
    if "fs_mkdirs t (w_fs w) [] cs = Inr g" "absent q w" "prefix cs (resolve p)" for t cs g and w :: "('a, 'b) world_scheme"
    using that by (simp add: absent_def)
  then show ?thesis unfolding os_MkdirAll_def
    by (intro keeps_absent_sys keepsI) (auto simp: take_is_prefix split: sum.split)
qed

lemma os_RemoveAll_Inl: "os_RemoveAll p w = (Inl e, w') \<Longrightarrow> \<not> unwinds e"
  by (auto simp: os_RemoveAll_def sys_def Let_def ret_def split: option.splits if_splits)

end
