(* ===== verification/Providers.thy ===== *)
theory Providers
  imports GoOs "HOL-Library.Multiset"
begin

text \<open>
  \<open>cmd/internal/backup/providers/contract.go\<close> and \<open>providers/common/common.go\<close>: the interface of
  a backup provider, backup versions and their order.

  \<open>sort.Slice\<close> is not stable: how it leaves versions of the same date is up to the sort.  The
  parameter \<open>sws\<close> stands for that choice: swaps made on the slice before a stable sort.  Every
  permutation of the slice that is sorted is the outcome of some choice (\<open>Sort_complete\<close>).
\<close>

record version =
  bv_name :: string
  bv_version :: string
  bv_date :: int

text \<open>The interface \<open>BackupVersions\<close>; \<open>Inl\<close> is a run-time panic of the method (or, for \<open>Get\<close>, its
  error).\<close>

record backup_versions =
  bvs_Latest :: "err + version option"
  bvs_List :: "err + version list"
  bvs_Get :: "string \<Rightarrow> err + version"

record 'w provider =
  bp_EnsureBackupBucket :: "('w, unit) go"
  bp_ListBackups :: "('w, backup_versions) go"
  bp_CleanupBackups :: "('w, unit) go"
  bp_GetNextBackupName :: "('w, string) go"
  bp_DownloadBackup :: "version \<Rightarrow> 'w writer \<Rightarrow> ('w, unit) go"
  bp_UploadBackup :: "'w reader \<Rightarrow> ('w, unit) go"

section \<open>Sorting\<close>

definition swap_at :: "nat \<times> nat \<Rightarrow> 'a list \<Rightarrow> 'a list" where
  "swap_at ij xs = (case ij of (i, j) \<Rightarrow>
     if i < length xs \<and> j < length xs then xs[i := xs ! j, j := xs ! i] else xs)"

definition swaps :: "(nat \<times> nat) list \<Rightarrow> 'a list \<Rightarrow> 'a list" where
  "swaps s xs = fold swap_at s xs"

type_synonym ties = "version list \<Rightarrow> (nat \<times> nat) list"

definition Sort :: "ties \<Rightarrow> version list \<Rightarrow> version list" where
  "Sort sws vs = sort_key (\<lambda>v. - bv_date v) (swaps (sws vs) vs)"

definition common_Latest :: "ties \<Rightarrow> version list \<Rightarrow> version option" where
  "common_Latest sws vs = (case Sort sws vs of [] \<Rightarrow> None | v # _ \<Rightarrow> Some v)"

fun common_Get :: "version list \<Rightarrow> string \<Rightarrow> err + version" where
  "common_Get [] version = Inl (ErrText (''version '' @ version @ '' not found''))"
| "common_Get (b # bs) version = (if version = bv_version b then Inr b else common_Get bs version)"

definition newest_first :: "version list \<Rightarrow> bool" where
  "newest_first vs \<longleftrightarrow> sorted_wrt (\<lambda>a b. bv_date b \<le> bv_date a) vs"

lemma mset_swap_at [simp]: "mset (swap_at ij xs) = mset xs"
  by (cases ij) (simp add: swap_at_def mset_swap)

text \<open>Sorting keeps the versions, and puts the newest first.\<close>

lemma mset_swaps [simp]: "mset (swaps s xs) = mset xs"
  unfolding swaps_def by (induction s arbitrary: xs) simp_all

lemma mset_Sort [simp]: "mset (Sort sws vs) = mset vs"
  by (simp add: Sort_def)

lemma set_Sort [simp]: "set (Sort sws vs) = set vs"
  using mset_Sort by (metis set_mset_mset)

lemma Sort_eq_Nil [simp]: "Sort sws vs = [] \<longleftrightarrow> vs = []"
  using set_Sort [of sws vs] by (metis set_empty)

text \<open>Where no two versions have the same date, the order is determined.\<close>

lemma Sort_unique:
  assumes "mset us = mset vs" "inj_on bv_date (set us)"
  shows "Sort s us = Sort t vs"
proof -
  have set: "set (swaps (s us) us) = set us" by (metis mset_swaps set_mset_mset)
  have "inj_on (\<lambda>v. - bv_date v) (set (swaps (s us) us))" using assms(2) by (simp add: set inj_on_def)
  then show ?thesis unfolding Sort_def
    by (intro sort_key_inj_key_eq) (simp_all add: assms(1))
qed

lemma newest_first_Sort [simp]: "newest_first (Sort sws vs)"
proof -
  have "sorted (map (\<lambda>v. - bv_date v) (Sort sws vs))" by (simp add: Sort_def)
  then show ?thesis by (simp add: newest_first_def sorted_map)
qed

lemma Get_Cons_neq: "bv_version b \<noteq> k \<Longrightarrow>
  (\<exists>us ws. b # bs = us @ v # ws \<and> bv_version v = k \<and> (\<forall>u\<in>set us. bv_version u \<noteq> k)) \<longleftrightarrow>
  (\<exists>us ws. bs = us @ v # ws \<and> bv_version v = k \<and> (\<forall>u\<in>set us. bv_version u \<noteq> k))"
  (is "_ \<Longrightarrow> ?L \<longleftrightarrow> ?R")
proof
  assume b: "bv_version b \<noteq> k"
  show ?R if ?L
  proof -
    from that obtain us ws where u: "b # bs = us @ v # ws" "bv_version v = k" "\<forall>u\<in>set us. bv_version u \<noteq> k" by blast
    with b show ?thesis by (cases us) auto
  qed
  show ?L if ?R
  proof -
    from that obtain us ws where "bs = us @ v # ws" "bv_version v = k" "\<forall>u\<in>set us. bv_version u \<noteq> k" by blast
    with b show ?thesis by (intro exI [of _ "b # us"] exI [of _ ws]) simp
  qed
qed

lemma swaps_shift: "swaps (map (\<lambda>(i, j). (Suc i, Suc j)) s) (x # xs) = x # swaps s xs"
proof (induction s arbitrary: xs)
  case (Cons ij s)
  have "swap_at (Suc i, Suc j) (x # xs) = x # swap_at (i, j) xs" for i j
    by (simp add: swap_at_def)
  then show ?case using Cons by (cases ij) (simp add: swaps_def)
qed (simp add: swaps_def)

lemma swaps_complete: "mset xs = mset ys \<Longrightarrow> \<exists>s. swaps s xs = ys"
proof (induction ys arbitrary: xs)
  case Nil
  then show ?case by (intro exI [of _ "[]"]) (simp add: swaps_def)
next
  case (Cons y ys)
  then obtain k where k: "k < length xs" "xs ! k = y"
    by (metis in_set_conv_nth list.set_intros(1) mset_eq_setD)
  then obtain zs where zs: "swap_at (0, k) xs = y # zs"
    by (cases xs; cases k) (auto simp: swap_at_def)
  have "mset (y # zs) = mset (y # ys)" using Cons.prems zs by (metis mset_swap_at)
  then obtain s where "swaps s zs = ys" using Cons.IH by auto
  then have "swaps ((0, k) # map (\<lambda>(i, j). (Suc i, Suc j)) s) xs = y # ys"
    using zs swaps_shift [of s y zs] by (simp add: swaps_def)
  then show ?case by blast
qed

text \<open>Nothing is lost by the choice of swaps: every sorted arrangement is an outcome.\<close>

lemma Sort_complete:
  assumes "mset ys = mset vs" "newest_first ys"
  shows "\<exists>sws. Sort sws vs = ys"
proof -
  obtain s where "swaps s vs = ys" using swaps_complete assms(1) by metis
  moreover have "sort_key (\<lambda>v. - bv_date v) ys = ys"
    by (rule sort_key_id_if_sorted) (use assms(2) in \<open>simp add: newest_first_def sorted_map\<close>)
  ultimately have "Sort (\<lambda>_. s) vs = ys" by (simp add: Sort_def)
  then show ?thesis by blast
qed

lemma Latest_None [simp]: "common_Latest sws vs = None \<longleftrightarrow> vs = []"
  by (simp add: common_Latest_def split: list.split) (metis Sort_eq_Nil list.distinct(1))

lemma Latest_newest:
  "common_Latest sws vs = Some v \<Longrightarrow> v \<in> set vs \<and> (\<forall>u\<in>set vs. bv_date u \<le> bv_date v)"
proof -
  assume "common_Latest sws vs = Some v"
  then obtain us where s: "Sort sws vs = v # us" by (auto simp: common_Latest_def split: list.splits)
  have "set vs = insert v (set us)" using set_Sort [of sws vs] s by simp
  moreover have "\<forall>u\<in>set us. bv_date u \<le> bv_date v"
    using newest_first_Sort [of sws vs] s by (simp add: newest_first_def)
  ultimately show ?thesis by auto
qed

lemma Get_Inr: "common_Get vs k = Inr v \<longleftrightarrow>
   (\<exists>us ws. vs = us @ v # ws \<and> bv_version v = k \<and> (\<forall>u\<in>set us. bv_version u \<noteq> k))"
proof (induction vs)
  case (Cons b bs)
  show ?case
  proof (cases "bv_version b = k")
    case True
    then show ?thesis by (auto simp: Cons_eq_append_conv)
  next
    case False
    then show ?thesis using Cons Get_Cons_neq [OF False] by simp
  qed
qed simp

lemma Get_Inl: "common_Get vs k = Inl e \<Longrightarrow> \<not> unwinds e \<and> (\<forall>u\<in>set vs. bv_version u \<noteq> k)"
  by (induction vs) (auto split: if_splits)

lemma Get_absent: "k \<notin> bv_version ` set vs \<Longrightarrow> \<exists>e. common_Get vs k = Inl e"
  by (induction vs) auto

section \<open>What a list of versions promises\<close>

text \<open>
  The contract of \<open>BackupVersions\<close>: from what the provider listed (\<open>'a\<close>), the methods give the
  items it contains, newest first.  Where an item is incomplete a method may panic.
\<close>

definition item :: "version \<Rightarrow> string \<times> int" where
  "item v = (bv_name v, bv_date v)"

locale version_list =
  fixes methods :: "'a \<Rightarrow> backup_versions" and sws :: ties
    and items :: "'a \<Rightarrow> (string \<times> int) set"
  assumes list_items: "bvs_List (methods x) = Inr vs \<Longrightarrow> item ` set vs = items x"
    and list_sorted: "bvs_List (methods x) = Inr vs \<Longrightarrow> newest_first vs"
    and latest_list: "bvs_Latest (methods x) =
      (case bvs_List (methods x) of Inl e \<Rightarrow> Inl e | Inr vs \<Rightarrow> Inr (common_Latest sws vs))"
    and get_list: "bvs_Get (methods x) k =
      (case bvs_List (methods x) of Inl e \<Rightarrow> Inl e | Inr vs \<Rightarrow> common_Get vs k)"
begin

text \<open>The three methods panic together, and otherwise \<open>Latest\<close> is absent only for an empty list
  and else a newest listed item.\<close>

lemma Latest_panic: "bvs_Latest (methods x) = Inl e \<longleftrightarrow> bvs_List (methods x) = Inl e"
  by (simp add: latest_list split: sum.split)

lemma Latest_absent: "bvs_Latest (methods x) = Inr None \<Longrightarrow> items x = {}"
  using list_items [of x "[]"] by (auto simp: latest_list split: sum.splits)

lemma Latest_present:
  assumes "bvs_Latest (methods x) = Inr (Some v)"
  shows "item v \<in> items x \<and> (\<forall>(n, t)\<in>items x. t \<le> bv_date v)"
proof -
  obtain vs where vs: "bvs_List (methods x) = Inr vs" "common_Latest sws vs = Some v"
    using assms by (auto simp: latest_list split: sum.splits)
  show ?thesis using Latest_newest [OF vs(2)] unfolding list_items [OF vs(1), symmetric]
    by (auto simp: item_def)
qed

text \<open>The head of the list is as new as \<open>Latest\<close>.\<close>

lemma Latest_head:
  assumes "bvs_List (methods x) = Inr (u # us)" "bvs_Latest (methods x) = Inr (Some v)"
  shows "bv_date v = bv_date u"
proof -
  have "common_Latest sws (u # us) = Some v" using assms by (simp add: latest_list)
  moreover have "newest_first (u # us)" by (rule list_sorted [OF assms(1)])
  ultimately show ?thesis
    using Latest_newest [of sws "u # us" v] by (auto simp: newest_first_def intro: antisym)
qed

lemma Get_listed: "bvs_Get (methods x) k = Inr v \<Longrightarrow> bv_version v = k \<and> item v \<in> items x"
proof -
  assume "bvs_Get (methods x) k = Inr v"
  then obtain vs where vs: "bvs_List (methods x) = Inr vs" "common_Get vs k = Inr v"
    by (auto simp: get_list split: sum.splits)
  then have "v \<in> set vs" "bv_version v = k" by (auto simp: Get_Inr)
  then show ?thesis using list_items [OF vs(1)] by blast
qed

lemma Get_finds:
  assumes "bvs_List (methods x) = Inr vs" "v \<in> set vs" "distinct (map bv_version vs)"
  shows "bvs_Get (methods x) (bv_version v) = Inr v"
proof -
  obtain us ws where vs: "vs = us @ v # ws" using assms(2) by (meson split_list)
  have "common_Get vs (bv_version v) = Inr v"
    unfolding Get_Inr by (rule exI [of _ us], rule exI [of _ ws]) (use assms(3) vs in \<open>auto simp: image_iff\<close>)
  then show ?thesis using assms(1) by (simp add: get_list)
qed

end

end
