(* ===== verification/Utils.thy ===== *)
theory Utils
  imports GoOs
begin

text \<open>
  \<open>pkg/constants\<close> and \<open>cmd/internal/utils\<close>: the directories the sidecar works in, the helpers
  on directories and files (\<open>files.go\<close>), the command executor (\<open>cmd.go\<close>) and the sequential
  writer (\<open>sequentialWriterAt.go\<close>).
\<close>

section \<open>Constants\<close>

definition DefaultObjectsToKeep :: int where
  "DefaultObjectsToKeep = 20"

definition SidecarBaseDir :: string where
  "SidecarBaseDir = ''/backup''"

definition BackupDir :: string where
  "BackupDir = SidecarBaseDir @ ''/upload/files''"

definition UploadDir :: string where
  "UploadDir = SidecarBaseDir @ ''/upload''"

definition RestoreDir :: string where
  "RestoreDir = SidecarBaseDir @ ''/restore/files''"

definition DownloadDir :: string where
  "DownloadDir = SidecarBaseDir @ ''/restore''"

definition ErrBackupAlreadyInProgress :: err where
  "ErrBackupAlreadyInProgress = ErrText ''a backup is already in progress''"

lemmas dir_defs = SidecarBaseDir_def BackupDir_def UploadDir_def RestoreDir_def DownloadDir_def

lemma resolve_dirs [simp]:
  "resolve BackupDir = [''backup'', ''upload'', ''files'']"
  "resolve UploadDir = [''backup'', ''upload'']"
  "resolve RestoreDir = [''backup'', ''restore'', ''files'']"
  "resolve DownloadDir = [''backup'', ''restore'']"
  by (simp_all add: dir_defs resolve_def)

lemma rooted_dirs [simp]: "rooted BackupDir" "rooted UploadDir" "rooted RestoreDir" "rooted DownloadDir"
  by (simp_all add: dir_defs rooted_def)

lemma dirs_ne [simp]: "BackupDir \<noteq> ''''" "UploadDir \<noteq> ''''" "RestoreDir \<noteq> ''''" "DownloadDir \<noteq> ''''"
  by (simp_all add: dir_defs)

section \<open>Directories and files\<close>

definition IsEmpty :: "string \<Rightarrow> (('x, 'm) world_scheme, bool) go" where
  "IsEmpty name =
     bnd (os_Open name) (\<lambda>f. deferred (file_Close f)
       (bnd (attempt (file_Readdirnames f 1)) (\<lambda>r. case r of
          Inl e \<Rightarrow> if e = ErrEOF then ret True else fail e
        | Inr _ \<Rightarrow> ret False)))"

definition RemoveContents :: "string \<Rightarrow> (('x, 'm) world_scheme, unit) go" where
  "RemoveContents dir =
     bnd (os_Open dir) (\<lambda>d. deferred (file_Close d)
       (bnd (file_Readdirnames d (- 1)) (\<lambda>names.
          each (\<lambda>name. os_RemoveAll (path_Join [dir, name])) names)))"

definition Copy :: "string \<Rightarrow> string \<Rightarrow> (('x, 'm) world_scheme, unit) go" where
  "Copy src dst =
     bnd (os_Open src) (\<lambda>inf. deferred (file_Close inf)
       (bnd (os_Create dst) (\<lambda>out. deferred (file_Close out)
          (io_Copy (file_Write out) (file_reader inf)))))"

text \<open>The programs that can be run: \<open>exec.LookPath\<close>, and a run of a program with arguments and
  added environment that gives its combined output and its error.  A program may change the
  file system and the world outside in any way.\<close>

record 'w exec =
  look_path :: "string \<Rightarrow> ('w, string) go"
  run_cmd :: "string \<Rightarrow> string list \<Rightarrow> string list \<Rightarrow> ('w, string \<times> err option) go"

definition IsCommandPresent ::
  "('x, 'm) world_scheme exec \<Rightarrow> string \<Rightarrow> (('x, 'm) world_scheme, bool) go" where
  "IsCommandPresent xe command =
     bnd (attempt (look_path xe command)) (\<lambda>r. case r of
         Inl e \<Rightarrow> ret False
       | Inr p \<Rightarrow> bnd (attempt (os_Stat p)) (\<lambda>s.
           ret (\<not> isNotExist_result errors_Is_NotExist s)))"

text \<open>\<open>CopyFS(dir, os.DirFS(src))\<close>.  The callback never looks at the error it is given, and reads
  the entry even where there is none.  File names are taken to be valid UTF-8: \<open>os.DirFS\<close> refuses to open others,
  with an error where the model copies them.\<close>

definition dirfs :: "string \<Rightarrow> string \<Rightarrow> string" where
  "dirfs src p = src @ ''/'' @ p"

definition CopyFS_fn :: "string \<Rightarrow> string \<Rightarrow> ('x, 'm) world_scheme walk_fn" where
  "CopyFS_fn dir src p d e =
     (let targ = path_Join [dir, p] in
      case d of
        None \<Rightarrow> fail (Panic ''nil pointer dereference'')
      | Some isdir \<Rightarrow>
          if isdir then os_MkdirAll targ
          else bnd (os_Open (dirfs src p)) (\<lambda>r. deferred (file_Close r)
            (bnd (file_Size r) (\<lambda>info.
             bnd (open_file False True True True targ) (\<lambda>w.
             bnd (attempt (io_Copy (file_Write w) (file_reader r))) (\<lambda>c. case c of
                 Inl x \<Rightarrow> bnd (attempt (file_CloseE w)) (\<lambda>_. fail (ErrWrap (''copying '' @ p) x))
               | Inr _ \<Rightarrow> file_CloseE w))))))"

definition CopyFS :: "string \<Rightarrow> string \<Rightarrow> (('x, 'm) world_scheme, unit) go" where
  "CopyFS dir src = WalkDir (dirfs src) ''.'' (CopyFS_fn dir src)"

section \<open>Commands\<close>

text \<open>\<open>(out, err)\<close>: the code hands both on.\<close>

definition ExecuteCommandWithOutput ::
  "('x, 'm) world_scheme exec \<Rightarrow> string \<Rightarrow> string list \<Rightarrow> string list \<Rightarrow>
   (('x, 'm) world_scheme, string \<times> err option) go" where
  "ExecuteCommandWithOutput xe command env arg =
     bnd (attempt (look_path xe command)) (\<lambda>r. case r of
         Inl e \<Rightarrow> ret (''unable to find command:'' @ command @ '' in path'', Some e)
       | Inr p \<Rightarrow> bnd (run_cmd xe p env arg) (\<lambda>(output, e). ret (strings_TrimSpace output, e)))"

text \<open>\<open>os.ExpandEnv\<close>.\<close>

definition is_alnum :: "char \<Rightarrow> bool" where
  "is_alnum c \<longleftrightarrow> (let n = (of_char c :: nat) in
     c = CHR ''_'' \<or> (48 \<le> n \<and> n \<le> 57) \<or> (65 \<le> n \<and> n \<le> 90) \<or> (97 \<le> n \<and> n \<le> 122))"

definition is_shell_special :: "char \<Rightarrow> bool" where
  "is_shell_special c \<longleftrightarrow> c \<in> set ''*#$@!?-0123456789''"

text \<open>The name after a dollar sign and how many characters it takes.\<close>

definition shell_name :: "string \<Rightarrow> string \<times> nat" where
  "shell_name s =
     (case s of [] \<Rightarrow> ('''', 0)
      | c # cs \<Rightarrow>
        if c = CHR ''{'' then
          (if length s > 2 \<and> is_shell_special (cs ! 0) \<and> cs ! 1 = CHR ''}'' then ([cs ! 0], 3)
           else let inner = takeWhile (\<lambda>x. x \<noteq> CHR ''}'') cs in
                if length inner = length cs then ('''', 1)
                else if inner = [] then ('''', 2)
                else (inner, length inner + 2))
        else if is_shell_special c then ([c], 1)
        else let nm = takeWhile is_alnum s in (nm, length nm))"

fun expand_fuel :: "nat \<Rightarrow> (string \<Rightarrow> string) \<Rightarrow> string \<Rightarrow> string" where
  "expand_fuel 0 getenv s = s"
| "expand_fuel (Suc n) getenv [] = []"
| "expand_fuel (Suc n) getenv (c # cs) =
     (if c = CHR ''$'' \<and> cs \<noteq> [] then
        (case shell_name cs of (nm, k) \<Rightarrow>
           (if nm \<noteq> '''' then getenv nm else if k > 0 then '''' else ''$'')
           @ expand_fuel n getenv (drop k cs))
      else c # expand_fuel n getenv cs)"

definition os_ExpandEnv :: "(string \<Rightarrow> string) \<Rightarrow> string \<Rightarrow> string" where
  "os_ExpandEnv getenv s = expand_fuel (Suc (length s)) getenv s"

text \<open>The error is that of \<open>cmd.Start()\<close> or \<open>cmd.Wait()\<close>; the goroutine that passes the stop
  signal on to the process is not modelled.\<close>

definition ExecWithStreamingOutput ::
  "('x, 'm) world_scheme exec \<Rightarrow> (string \<Rightarrow> string) \<Rightarrow> string \<Rightarrow> (('x, 'm) world_scheme, unit) go" where
  "ExecWithStreamingOutput xe getenv command =
     (case strings_Fields (os_ExpandEnv getenv command) of
        [] \<Rightarrow> fail (Panic ''index out of range [0] with length 0'')
      | p # ps \<Rightarrow> bnd (run_cmd xe p [] ps) (\<lambda>(_, e). case e of None \<Rightarrow> ret () | Some x \<Rightarrow> fail x))"

section \<open>The sequential writer\<close>

definition SequentialWriterAt_WriteAt :: "'w writer \<Rightarrow> byte list \<Rightarrow> int \<Rightarrow> ('w, unit) go" where
  "SequentialWriterAt_WriteAt w p off = w p"

section \<open>Facts about the helpers\<close>

lemma same_surroundings_utils [keeps]:
  "same surroundings (IsEmpty d)" "same surroundings (RemoveContents d)"
  "same surroundings (Copy src dst)"
  unfolding IsEmpty_def RemoveContents_def Copy_def by (intro keeps; simp)+

lemma same_CopyFS [keeps]: "same surroundings (CopyFS dir src)"
  unfolding CopyFS_def CopyFS_fn_def Let_def by (intro keeps; simp)

lemma keeps_IsEmpty [keeps]: "keeps (protected S g) (IsEmpty d)"
  unfolding IsEmpty_def by (intro keeps; simp)

lemma keeps_Copy [keeps]: "resolve dst \<notin> S \<Longrightarrow> keeps (protected S g) (Copy src dst)"
  unfolding Copy_def by (intro keeps; simp)

text \<open>\<open>IsEmpty\<close> answers only for a directory, and then truthfully, whatever calls fail.\<close>

lemma IsEmpty_InrD:
  assumes "IsEmpty d w = (Inr b, w')"
  shows "w_fs w' = w_fs w" "is_dir (fs_get (w_fs w) (resolve d))"
    "b \<longleftrightarrow> fs_names (w_fs w) (resolve d) = []"
proof -
  let ?k = "\<lambda>r. case r of Inl e \<Rightarrow> if e = ErrEOF then ret True else fail e | Inr (_ :: string list) \<Rightarrow> ret False"
  from assms obtain fd w1 w3 where
    1: "os_Open d w = (Inr fd, w1)" and w': "w' = file_Close fd w3"
    and 2: "bnd (attempt (file_Readdirnames fd 1)) ?k w1 = (Inr b, w3)"
    unfolding IsEmpty_def bnd_eq_Inr [of "os_Open d"] deferred_eq by blast
  from 2 obtain r w2 where 3: "attempt (file_Readdirnames fd 1) w1 = (Inr r, w2)"
    and 4: "?k r w2 = (Inr b, w3)" unfolding bnd_eq_Inr by blast
  note o = os_Open_InrD [OF 1]
  consider "b" "file_Readdirnames fd 1 w1 = (Inl ErrEOF, w3)"
    | ns where "\<not> b" "file_Readdirnames fd 1 w1 = (Inr ns, w3)"
    using 3 4 by (cases r) (auto simp: attempt_eq_Inr ret_def fail_def split: if_splits)
  then have "w_fs w' = w_fs w \<and> is_dir (fs_get (w_fs w) (resolve d)) \<and>
    (b \<longleftrightarrow> fs_names (w_fs w) (resolve d) = [])"
  proof cases
    case 1
    then show ?thesis using o w' file_Readdirnames_EOF [OF 1(2)] by auto
  next
    case 2
    then show ?thesis using o w' file_Readdirnames_InrD [OF 2(2)] by auto
  qed
  then show "w_fs w' = w_fs w" "is_dir (fs_get (w_fs w) (resolve d))"
    "b \<longleftrightarrow> fs_names (w_fs w) (resolve d) = []" by blast+
qed

lemma each_RemoveAll_InrD:
  assumes "each (\<lambda>n. os_RemoveAll (f n)) ns w = (Inr u, w')" "\<And>n. n \<in> set ns \<Longrightarrow> f n \<noteq> ''''"
  shows "fs_get (w_fs w') q =
    (if q \<noteq> [] \<and> (\<exists>n\<in>set ns. prefix (resolve (f n)) q) then None else fs_get (w_fs w) q)"
  using assms
proof (induction ns arbitrary: w)
  case (Cons n ns)
  then obtain w1 where 1: "os_RemoveAll (f n) w = (Inr (), w1)"
    and 2: "each (\<lambda>n. os_RemoveAll (f n)) ns w1 = (Inr u, w')"
    by (auto simp: bnd_eq_Inr)
  have "w_fs w1 = fs_drop (prefix (resolve (f n))) (w_fs w)"
    using os_RemoveAll_InrD [OF 1] Cons.prems(2) by simp
  then show ?case using Cons.IH [OF 2] Cons.prems(2) by (auto simp: fs_get_drop)
qed (simp add: ret_def)

lemma path_Join_ne: "rooted d \<Longrightarrow> path_Join (d # ds) \<noteq> ''''"
  using rooted_Join rooted_ne by blast

text \<open>\<open>RemoveContents\<close> removes everything below the directory and nothing else.\<close>

lemma RemoveContents_InrD:
  assumes "RemoveContents d w = (Inr u, w')" "rooted d" "tidy (w_fs w)"
  shows "fs_get (w_fs w') q = (if strict_prefix (resolve d) q then None else fs_get (w_fs w) q)"
proof -
  from assms(1) obtain fd w1 ns w2 w3 where
    1: "os_Open d w = (Inr fd, w1)" and 2: "file_Readdirnames fd (- 1) w1 = (Inr ns, w2)"
    and 3: "each (\<lambda>name. os_RemoveAll (path_Join [d, name])) ns w2 = (Inr u, w3)"
    and w': "w' = file_Close fd w3"
    unfolding RemoveContents_def bnd_eq_Inr deferred_eq by blast
  have ns: "ns = fs_names (w_fs w) (resolve d)" and fs: "w_fs w2 = w_fs w"
    using os_Open_InrD [OF 1] file_Readdirnames_InrD [OF 2] by auto
  have plain: "plain_name n" if "n \<in> set ns" for n
    using that assms(3) by (simp add: ns tidy_name)
  have ne: "path_Join [d, n] \<noteq> ''''" for n using assms(2) by (rule path_Join_ne)
  have "(\<exists>n\<in>set ns. prefix (resolve (path_Join [d, n])) q) \<longleftrightarrow>
        (\<exists>n\<in>set ns. prefix (resolve d @ [n]) q)"
    using plain assms(2) by (intro bex_cong) simp_all
  moreover have "strict_prefix (resolve d) q" if "prefix (resolve d @ [n]) q" for n
    using that by (auto simp: prefix_def strict_prefix_def)
  moreover have "q \<noteq> []" if "strict_prefix (resolve d) q" using that by auto
  ultimately show ?thesis
    using each_RemoveAll_InrD [OF 3 ne, of q] tidy_child [OF assms(3), of q "resolve d"] fs ns
    by (auto simp: w')
qed

text \<open>A \<open>Copy\<close> that succeeds has copied the file, and touched no other node.\<close>

lemma Copy_InrD:
  assumes "Copy src dst w = (Inr u, w')" "resolve src \<noteq> resolve dst"
    "file_at (w_fs w) (resolve src) = Some c"
  shows "\<exists>t. fs_get (w_fs w') = (fs_get (w_fs w))(resolve dst \<mapsto> File c t)"
proof -
  from assms(1) obtain i w1 o' w2 bs w3 w4 where
    1: "os_Open src w = (Inr i, w1)" and 2: "os_Create dst w1 = (Inr o', w2)"
    and 3: "file_reader i w2 = (Inr (bs, None), w3)"
    and 4: "if bs = [] then w4 = w3 else file_Write o' bs w3 = (Inr u, w4)"
    and w': "w' = file_Close i (file_Close o' w4)"
    unfolding Copy_def bnd_eq_Inr deferred_eq io_Copy_InrD by blast
  note o1 = os_Open_InrD [OF 1] os_Open_nfd [OF 1] and o2 = open_write_InrD [OF 2]
  from assms(3) obtain s where src: "fs_get (w_fs w) (resolve src) = Some (File c s)"
    by (auto simp: file_at_Some)
  obtain t2 where fs2: "w_fs w2 = fs_put (resolve dst) (File [] t2) (w_fs w)"
    using o1 o2 by auto
  have h: "w_fds w2 i = Some \<lparr>h_path = resolve src, h_off = 0, h_rd = True, h_wr = False\<rparr>"
    "w_fds w2 o' = Some \<lparr>h_path = resolve dst, h_off = 0, h_rd = True, h_wr = True\<rparr>" "i \<noteq> o'"
    using o1 o2 by auto
  have r: "bs = c" "w_fs w3 = w_fs w2" "w_fds w3 o' = w_fds w2 o'"
    using file_reader_InrD [OF 3 h(1), of c s] h src fs2 assms(2) by auto
  have "\<exists>t. fs_get (w_fs w4) = (fs_get (w_fs w2))(resolve dst \<mapsto> File c t)"
  proof (cases "bs = []")
    case True
    then show ?thesis using 4 r fs2 o2(2) by (auto simp: fs_get_put_fun)
  next
    case False
    then have "file_Write o' bs w3 = (Inr u, w4)" using 4 by simp
    from file_Write_InrD(1) [OF this, of _ "[]" t2] r h fs2 o2(2) show ?thesis
      by (auto simp: overwrite_def fs_get_put_fun)
  qed
  then show ?thesis
    using o2(2) by (auto simp: w' fs2 fun_eq_iff fs_get_put)
qed

lemma keeps_absent_RemoveContents [keeps]: "keeps (absent q) (RemoveContents d)"
  unfolding RemoveContents_def by (intro keeps) simp

end
