(* ===== verification/LocalProvider.thy ===== *)
theory LocalProvider
  imports Providers Utils "HOL-Library.Signed_Division"
begin

text \<open>
  \<open>cmd/internal/backup/providers/local\<close>: backups kept in a directory, under the names
  \<open>0, 1, ...\<close> used in turn.  The world is extended by the two variables of the provider, its
  64 bit counter and the name given out last.
\<close>

record 'x lp_world = "'x world" +
  lp_nextBackupCount :: "64 word"
  lp_currentBackupName :: string

record local_config =
  lc_LocalBackupPath :: string
  lc_ObjectsToKeep :: "64 word"
  lc_Suffix :: string

definition defaultLocalBackupPath :: string where
  "defaultLocalBackupPath = SidecarBaseDir @ ''/local-provider''"

definition Local_New :: "local_config option \<Rightarrow> err + local_config" where
  "Local_New config = (case config of
     None \<Rightarrow> Inl (ErrText ''local backup provider requires a provider config'')
   | Some c \<Rightarrow> Inr (c\<lparr>
       lc_ObjectsToKeep := if lc_ObjectsToKeep c = 0 then word_of_int DefaultObjectsToKeep else lc_ObjectsToKeep c,
       lc_LocalBackupPath := if lc_LocalBackupPath c = '''' then defaultLocalBackupPath else lc_LocalBackupPath c\<rparr>))"

definition Local_EnsureBackupBucket :: "local_config \<Rightarrow> (('x, 'm) world_scheme, unit) go" where
  "Local_EnsureBackupBucket c =
     wrapE ''could not create local backup directory'' (os_MkdirAll (lc_LocalBackupPath c))"

definition Local_CleanupBackups :: "local_config \<Rightarrow> ('w, unit) go" where
  "Local_CleanupBackups c = ret ()"

definition Local_DownloadBackup ::
  "local_config \<Rightarrow> version \<Rightarrow> ('x, 'm) world_scheme writer \<Rightarrow> (('x, 'm) world_scheme, unit) go" where
  "Local_DownloadBackup c version wr =
     (let source = path_Join [lc_LocalBackupPath c, bv_name version] in
      bnd (wrapE (''could not open file '' @ source) (os_Open source)) (\<lambda>infile.
        deferred (file_Close infile) (io_Copy wr (file_reader infile))))"

text \<open>The file written is never closed.\<close>

definition Local_UploadBackup ::
  "local_config \<Rightarrow> ('x, 'm) lp_world_scheme reader \<Rightarrow> (('x, 'm) lp_world_scheme, unit) go" where
  "Local_UploadBackup c rd =
     bnd (asks lp_currentBackupName) (\<lambda>cur.
      let destination = lc_LocalBackupPath c @ ''/'' @ cur @ lc_Suffix c in
      bnd (wrapE (''could not create file '' @ destination) (os_Create destination)) (\<lambda>out.
        io_Copy (file_Write out) rd))"

text \<open>Go's remainder takes the sign of the dividend, and division by zero panics.\<close>

definition int64_rem :: "64 word \<Rightarrow> 64 word \<Rightarrow> err + 64 word" where
  "int64_rem a b = (if b = 0 then Inl (Panic ''integer divide by zero'')
     else Inr (word_of_int (sint a smod sint b)))"

definition Local_GetNextBackupName :: "local_config \<Rightarrow> (('x, 'm) lp_world_scheme, string) go" where
  "Local_GetNextBackupName c =
     bnd (asks (\<lambda>w. FormatInt (sint (lp_nextBackupCount w)))) (\<lambda>name.
     bnd (upd (\<lambda>w. w\<lparr>lp_nextBackupCount := lp_nextBackupCount w + 1\<rparr>)) (\<lambda>_.
     bnd (asks (\<lambda>w. int64_rem (lp_nextBackupCount w) (lc_ObjectsToKeep c))) (\<lambda>r.
     bnd (liftR r) (\<lambda>n.
     bnd (upd (\<lambda>w. w\<lparr>lp_nextBackupCount := n, lp_currentBackupName := name\<rparr>)) (\<lambda>_.
     ret name)))))"

section \<open>Listing\<close>

text \<open>\<open>os.FileInfo\<close>: the name and the time of modification.\<close>

fun node_time :: "node \<Rightarrow> int" where
  "node_time (File c t) = t"
| "node_time (Dir t) = t"

fun stat_all :: "string \<Rightarrow> string list \<Rightarrow> (('x, 'm) world_scheme, (string \<times> int) list) go" where
  "stat_all p [] = ret []"
| "stat_all p (n # ns) =
     bnd (os_Stat (path_Join [p, n])) (\<lambda>info.
     bnd (stat_all p ns) (\<lambda>r. ret ((filepath_Base (path_Join [p, n]), node_time info) # r)))"

definition local_List :: "ties \<Rightarrow> (string \<times> int) list \<Rightarrow> version list" where
  "local_List sws files =
     (let result = Sort sws (map (\<lambda>(n, t). \<lparr>bv_name = n, bv_version = '''', bv_date = t\<rparr>) files)
      in map (\<lambda>(i, b). b\<lparr>bv_version := FormatInt (int i)\<rparr>) (enumerate 0 result))"

definition backupVersionsLocal :: "ties \<Rightarrow> (string \<times> int) list \<Rightarrow> backup_versions" where
  "backupVersionsLocal sws files =
     \<lparr>bvs_Latest = Inr (common_Latest sws (local_List sws files)),
      bvs_List = Inr (local_List sws files),
      bvs_Get = common_Get (local_List sws files)\<rparr>"

definition Local_ListBackups :: "local_config \<Rightarrow> ties \<Rightarrow> (('x, 'm) world_scheme, backup_versions) go" where
  "Local_ListBackups c sws =
     bnd (os_Open (lc_LocalBackupPath c)) (\<lambda>d. deferred (file_Close d)
       (bnd (file_Readdirnames d (- 1)) (\<lambda>names.
        bnd (stat_all (lc_LocalBackupPath c) names) (\<lambda>files.
        ret (backupVersionsLocal sws files)))))"

definition local_provider :: "local_config \<Rightarrow> ties \<Rightarrow> ('x, 'm) lp_world_scheme provider" where
  "local_provider c sws =
     \<lparr>bp_EnsureBackupBucket = Local_EnsureBackupBucket c,
      bp_ListBackups = Local_ListBackups c sws,
      bp_CleanupBackups = Local_CleanupBackups c,
      bp_GetNextBackupName = Local_GetNextBackupName c,
      bp_DownloadBackup = Local_DownloadBackup c,
      bp_UploadBackup = Local_UploadBackup c\<rparr>"

section \<open>The list of versions\<close>

lemma local_List_items: "item ` set (local_List sws files) = set files"
proof -
  let ?mk = "\<lambda>(n, t). \<lparr>bv_name = n, bv_version = '''', bv_date = t\<rparr>"
  have "item ` set (map (\<lambda>(i, b). b\<lparr>bv_version := FormatInt (int i)\<rparr>) (enumerate k vs)) = item ` set vs" for k vs
    by (induction vs arbitrary: k) (auto simp: item_def)
  then have "item ` set (local_List sws files) = item ` set (map ?mk files)"
    by (simp add: local_List_def Let_def del: set_map)
  also have "\<dots> = set files" by (force simp: item_def image_iff)
  finally show ?thesis .
qed

lemma local_List_names: "mset (map bv_name (local_List sws files)) = mset (map fst files)"
proof -
  let ?mk = "\<lambda>(n, t). \<lparr>bv_name = n, bv_version = '''', bv_date = t\<rparr>"
  have "map bv_name (map (\<lambda>(i, b). b\<lparr>bv_version := FormatInt (int i)\<rparr>) (enumerate k vs)) = map bv_name vs" for k vs
    by (induction vs arbitrary: k) simp_all
  then have "map bv_name (local_List sws files) = map bv_name (Sort sws (map ?mk files))"
    unfolding local_List_def Let_def .
  then have "mset (map bv_name (local_List sws files)) = image_mset bv_name (mset (Sort sws (map ?mk files)))"
    by (simp only: mset_map)
  also have "\<dots> = mset (map fst files)" by (simp add: multiset.map_comp comp_def split_beta)
  finally show ?thesis .
qed

lemma local_List_dates: "map bv_date (local_List sws files) =
  map bv_date (Sort sws (map (\<lambda>(n, t). \<lparr>bv_name = n, bv_version = '''', bv_date = t\<rparr>) files))"
  by (auto simp: local_List_def Let_def comp_def split_beta enumerate_eq_zip intro: nth_equalityI)

lemma newest_first_map: "newest_first vs \<longleftrightarrow> sorted_wrt (\<lambda>a b. b \<le> a) (map bv_date vs)"
  by (simp add: newest_first_def sorted_wrt_map)

lemma newest_first_local_List: "newest_first (local_List sws files)"
  unfolding newest_first_map local_List_dates unfolding newest_first_map [symmetric] by simp

lemma local_List_versions:
  "map bv_version (local_List sws files) = map (\<lambda>i. FormatInt (int i)) [0..<length files]"
proof -
  have "length (Sort sws vs) = length vs" for vs by (metis mset_Sort size_mset)
  then show ?thesis
    by (intro nth_equalityI) (simp_all add: local_List_def Let_def nth_enumerate_eq)
qed

lemma distinct_local_versions: "distinct (map bv_version (local_List sws files))"
  unfolding local_List_versions by (auto simp: distinct_map inj_on_def FormatInt_inj_nat)

interpretation local_versions: version_list "backupVersionsLocal sws" sws set for sws
  by unfold_locales
    (auto simp: backupVersionsLocal_def local_List_items newest_first_local_List)

section \<open>The names are used in turn\<close>

definition keep_of :: "local_config \<Rightarrow> nat" where
  "keep_of c = nat (sint (lc_ObjectsToKeep c))"

text \<open>The file of the name \<open>i\<close>.\<close>

definition slot :: "local_config \<Rightarrow> nat \<Rightarrow> fpath" where
  "slot c i = resolve (lc_LocalBackupPath c) @ [FormatInt (int i) @ lc_Suffix c]"

definition local_ready :: "local_config \<Rightarrow> bool" where
  "local_ready c \<longleftrightarrow> 0 < sint (lc_ObjectsToKeep c) \<and> slash \<notin> set (lc_Suffix c)"

lemma sint_below: "sint (k :: 64 word) < 2 ^ 63"
  using sint_less [of k] by simp

lemma sint_of_nat64: "m < 2 ^ 63 \<Longrightarrow> sint (of_nat m :: 64 word) = int m"
proof -
  assume "m < 2 ^ 63"
  then have "int m < 2 ^ 63" by (metis of_nat_less_iff of_nat_numeral of_nat_power)
  then have "signed_take_bit 63 (int m) = int m"
    by (intro signed_take_bit_int_eq_self) (simp_all add: le_less_trans [of _ 0])
  then have "sint (word_of_int (int m) :: 64 word) = int m"
    by (simp add: sint_sbintrunc' del: of_int_of_nat_eq)
  then show ?thesis by simp
qed

lemma keep_below: "keep_of c \<le> 2 ^ 63 - 1"
proof -
  have "sint (lc_ObjectsToKeep c) \<le> 2 ^ 63 - 1" using sint_below [of "lc_ObjectsToKeep c"] by linarith
  then have "nat (sint (lc_ObjectsToKeep c)) \<le> nat (2 ^ 63 - 1)" by (rule nat_mono)
  then show ?thesis by (simp add: keep_of_def)
qed

lemma next_in_turn:
  assumes "local_ready c" "i < keep_of c"
  shows "int64_rem (of_nat i + 1) (lc_ObjectsToKeep c) = Inr (of_nat (Suc i mod keep_of c))"
proof -
  let ?k = "lc_ObjectsToKeep c"
  have pos: "0 < sint ?k" and kk: "int (keep_of c) = sint ?k" using assms(1) by (simp_all add: local_ready_def keep_of_def)
  have "sint (of_nat (Suc i) :: 64 word) = int (Suc i)"
    by (rule sint_of_nat64) (use assms(2) keep_below [of c] in linarith)
  moreover have "int (Suc i) smod sint ?k = int (Suc i mod keep_of c)"
    using pos by (simp add: smod_int_alt_def zmod_int kk)
  ultimately have "word_of_int (sint (of_nat (Suc i) :: 64 word) smod sint ?k) = (of_nat (Suc i mod keep_of c) :: 64 word)"
    by (simp only: of_int_of_nat_eq)
  moreover have "?k \<noteq> 0" using pos by auto
  ultimately show ?thesis by (simp add: int64_rem_def add.commute)
qed

lemma GetNextBackupName_run:
  assumes "local_ready c" "i < keep_of c" "lp_nextBackupCount w = of_nat i"
  shows "Local_GetNextBackupName c w = (Inr (FormatInt (int i)),
    w\<lparr>lp_nextBackupCount := of_nat (Suc i mod keep_of c), lp_currentBackupName := FormatInt (int i)\<rparr>)"
proof -
  have "sint (of_nat i :: 64 word) = int i"
    by (rule sint_of_nat64) (use assms(2) keep_below [of c] in linarith)
  then show ?thesis
    using next_in_turn [OF assms(1,2)] assms(3)
    by (simp add: Local_GetNextBackupName_def bnd_run asks_run upd_run ret_run)
qed

lemma plain_digits: "slash \<notin> set s \<Longrightarrow> plain_name (FormatInt (int i) @ s)"
proof -
  assume s: "slash \<notin> set s"
  obtain c cs where e: "FormatInt (int i) = c # cs" "is_digit c" "list_all is_digit cs"
    using nat_str_digits [of i] by (cases "nat_str i") (auto simp: FormatInt_def)
  then have "slash \<notin> set cs" "c \<noteq> slash" "c \<noteq> CHR ''.''" by (auto simp: is_digit_def list_all_iff)
  then show ?thesis using s e(1) by (auto intro!: plain_nameI)
qed

lemma slot_inj: "slot c i = slot c j \<longleftrightarrow> i = j"
  by (auto simp: slot_def FormatInt_inj_nat)

lemma slot_resolve:
  "local_ready c \<Longrightarrow> resolve (lc_LocalBackupPath c @ ''/'' @ FormatInt (int i) @ lc_Suffix c) = slot c i"
  by (simp add: slot_def plain_digits local_ready_def)

lemma meets_Local_Upload:
  fixes w :: "('x, 'm) lp_world_scheme"
  assumes c: "local_ready c" "lp_currentBackupName w = FormatInt (int i)"
    and dest: "parents_ok (w_fs w) (slot c i)" "\<not> is_dir (fs_get (w_fs w) (slot c i))"
    and copy: "\<And>w1 t. w_fds w1 = (w_fds w)(w_nfd w \<mapsto> \<lparr>h_path = slot c i, h_off = 0, h_rd = True, h_wr = True\<rparr>) \<Longrightarrow>
      fs_get (w_fs w1) = (fs_get (w_fs w))(slot c i \<mapsto> File [] t) \<Longrightarrow> surroundings w1 = surroundings w \<Longrightarrow>
      meets (io_Copy (file_Write (w_nfd w)) rd) Q w1"
  shows "meets (Local_UploadBackup c rd) Q w"
  unfolding Local_UploadBackup_def Let_def
proof (rule meets_bnd [OF meets_asks [where Q = "\<lambda>n w1. n = FormatInt (int i) \<and> w1 = w"]], simp add: c(2),
    intro keeps, goal_cases)
  case (1 x w1)
  then have x: "x = FormatInt (int i)" "w1 = w" by simp_all
  let ?p = "lc_LocalBackupPath c @ ''/'' @ FormatInt (int i) @ lc_Suffix c"
  note rs = slot_resolve [OF c(1), of i]
  have "meets (wrapE (''could not create file '' @ ?p) (os_Create ?p)) (\<lambda>fd w'. fd = w_nfd w \<and>
     (\<exists>t. fs_get (w_fs w') = (fs_get (w_fs w))(slot c i \<mapsto> File [] t)) \<and>
     w_fds w' = (w_fds w)(fd \<mapsto> \<lparr>h_path = slot c i, h_off = 0, h_rd = True, h_wr = True\<rparr>)
     \<and> surroundings w' = surroundings w) w"
  proof (rule meets_wrapE, rule meetsI)
    fix fd w'
    assume o: "os_Create ?p w = (Inr fd, w')"
    have "surroundings w' = surroundings w"
      by (rule sameD [where m = "os_Create ?p" and w = w, OF _ o]) (intro keeps)
    with open_write_InrD [OF o] show "fd = w_nfd w \<and>
     (\<exists>t. fs_get (w_fs w') = (fs_get (w_fs w))(slot c i \<mapsto> File [] t)) \<and>
     w_fds w' = (w_fds w)(fd \<mapsto> \<lparr>h_path = slot c i, h_off = 0, h_rd = True, h_wr = True\<rparr>)
     \<and> surroundings w' = surroundings w"
      unfolding rs by (auto simp: fs_get_put_fun)
  next
    assume "quiet w"
    then show "\<exists>x w'. os_Create ?p w = (Inr x, w')"
      using open_write_quiet [of w ?p True True] dest rs by (simp add: new_fd_run)
  qed
  then show ?case unfolding x
    by (rule meets_bnd) (auto intro!: keeps copy)
qed

section \<open>What a run of uploads keeps\<close>

text \<open>A backup is the next name and an upload under it; here from a reader that holds the bytes.\<close>

definition bytes_reader :: "byte list \<Rightarrow> 'w reader" where
  "bytes_reader bs = ret (bs, None)"

definition take_backup :: "local_config \<Rightarrow> byte list \<Rightarrow> (('x, 'm) lp_world_scheme, unit) go" where
  "take_backup c bs = bnd (Local_GetNextBackupName c) (\<lambda>_. Local_UploadBackup c (bytes_reader bs))"

definition kept_last ::
  "local_config \<Rightarrow> byte list list \<Rightarrow> ('x, 'm) lp_world_scheme \<Rightarrow> ('x, 'm) lp_world_scheme \<Rightarrow> bool" where
  "kept_last c bss w w' \<longleftrightarrow>
     lp_nextBackupCount w' = of_nat (length bss mod keep_of c) \<and>
     (\<forall>q. fs_get (w_fs w') q = fs_get (w_fs w) q \<or> (\<exists>i<keep_of c. q = slot c i)) \<and>
     (\<forall>i<keep_of c. \<not> is_dir (fs_get (w_fs w') (slot c i))) \<and>
     (\<forall>j<length bss. length bss \<le> j + keep_of c \<longrightarrow>
        file_at (w_fs w') (slot c (j mod keep_of c)) = Some (bss ! j))"

lemma slot_apart: "j < n \<Longrightarrow> Suc n \<le> j + k \<Longrightarrow> j mod k \<noteq> n mod (k :: nat)"
proof
  assume j: "j < n" "Suc n \<le> j + k" and eq: "j mod k = n mod k"
  then have "k dvd n - j" using mod_eq_dvd_iff_nat [of j n k] by simp
  then show False using j by (auto dest: dvd_imp_le)
qed

lemma copy_bytes:
  assumes "w_fds w q = Some h" "h_wr h" "h_off h = 0" "h_path h \<noteq> []" "fs_get (w_fs w) (h_path h) = Some (File [] t)"
  shows "meets (io_Copy (file_Write q) (bytes_reader bs))
    (\<lambda>_ w'. \<exists>s. fs_get (w_fs w') = (fs_get (w_fs w))(h_path h \<mapsto> File bs s) \<and> surroundings w' = surroundings w) w"
proof -
  have eq: "io_Copy (file_Write q) (bytes_reader bs) = (if bs = [] then ret () else file_Write q bs)"
    by (simp add: io_Copy_def bytes_reader_def)
  have "same surroundings (file_Write q bs)" by (intro keeps)
  from meets_frame [OF meets_Write [OF assms(1,2,5,4)] this]
  have "meets (file_Write q bs) (\<lambda>_ w'. \<exists>s. fs_get (w_fs w') = (fs_get (w_fs w))(h_path h \<mapsto> File bs s) \<and>
    surroundings w' = surroundings w) w"
    by (rule meets_mono) (auto simp: assms(3) overwrite_start)
  moreover have "fs_get (w_fs w) = (fs_get (w_fs w))(h_path h \<mapsto> File [] t)" using assms(5) by (simp add: fun_upd_idem)
  ultimately show ?thesis unfolding eq by (auto intro!: meets_ret)
qed

lemma surroundings_lp:
  fixes w w' :: "('x, 'm) lp_world_scheme"
  shows "surroundings w' = surroundings w \<Longrightarrow>
    lp_nextBackupCount w' = lp_nextBackupCount w \<and> lp_currentBackupName w' = lp_currentBackupName w \<and>
    lp_world.more w' = lp_world.more w"
  by (cases w, cases w') (simp add: surroundings_def)

text \<open>One backup: the slot whose turn it is holds the new bytes, nothing else is touched.\<close>

lemma meets_take_backup:
  fixes w :: "('x, 'm) lp_world_scheme"
  assumes c: "local_ready c" "i < keep_of c" "lp_nextBackupCount w = of_nat i"
    and dest: "parents_ok (w_fs w) (slot c i)" "\<not> is_dir (fs_get (w_fs w) (slot c i))"
  shows "meets (take_backup c bs) (\<lambda>_ w'. \<exists>s. fs_get (w_fs w') = (fs_get (w_fs w))(slot c i \<mapsto> File bs s) \<and>
     lp_nextBackupCount w' = of_nat (Suc i mod keep_of c)) w"
proof -
  let ?w = "w\<lparr>lp_nextBackupCount := of_nat (Suc i mod keep_of c), lp_currentBackupName := FormatInt (int i)\<rparr>"
  note G = GetNextBackupName_run [OF c]
  have "meets (Local_UploadBackup c (bytes_reader bs)) (\<lambda>_ w'. \<exists>s.
     fs_get (w_fs w') = (fs_get (w_fs w))(slot c i \<mapsto> File bs s) \<and>
     lp_nextBackupCount w' = of_nat (Suc i mod keep_of c)) ?w"
  proof (rule meets_Local_Upload [where i = i, OF c(1)], goal_cases)
    case (4 w1 t)
    have fd: "w_fds w1 (w_nfd ?w) = Some \<lparr>h_path = slot c i, h_off = 0, h_rd = True, h_wr = True\<rparr>"
      using 4(1) by simp
    have "meets (io_Copy (file_Write (w_nfd ?w)) (bytes_reader bs)) (\<lambda>_ w'. \<exists>s.
      fs_get (w_fs w') = (fs_get (w_fs w1))(slot c i \<mapsto> File bs s) \<and> surroundings w' = surroundings w1) w1"
      using copy_bytes [OF fd, of t bs] 4(2) by (simp add: slot_def)
    then show ?case
      by (rule meets_mono) (use 4(2,3) in \<open>auto dest!: surroundings_lp\<close>)
  qed (use dest in simp_all)
  then show ?thesis
    by (simp add: meets_def take_backup_def wp_bnd) (simp add: wp_def G quiet_def)
qed

lemma parents_slot:
  assumes "parents_ok (w_fs w) (resolve (lc_LocalBackupPath c))" "is_dir (fs_get (w_fs w) (resolve (lc_LocalBackupPath c)))"
    and "kept_last c bss w w'"
  shows "parents_ok (w_fs w') (slot c i)"
proof -
  have "parents_ok (w_fs w) (slot c i)" using assms(1,2) by (simp add: slot_def parents_ok_snoc)
  moreover have "fs_get (w_fs w') q = fs_get (w_fs w) q" if "strict_prefix q (slot c i)" for q
  proof -
    have "length q < length (slot c i)" using that by (rule prefix_length_less)
    then have "q \<noteq> slot c j" for j by (auto simp: slot_def)
    then show ?thesis using assms(3) by (auto simp: kept_last_def)
  qed
  ultimately show ?thesis by (rule parents_ok_cong)
qed

lemma same_take_backup [keeps]: "same w_fault (take_backup c bs)"
  unfolding take_backup_def Local_GetNextBackupName_def Local_UploadBackup_def Let_def bytes_reader_def
  by (intro keeps) simp_all

lemma meets_backups:
  fixes w :: "('x, 'm) lp_world_scheme"
  assumes c: "local_ready c"
    and dir: "parents_ok (w_fs w) (resolve (lc_LocalBackupPath c))" "is_dir (fs_get (w_fs w) (resolve (lc_LocalBackupPath c)))"
    and fresh: "lp_nextBackupCount w = 0" "\<And>i. \<not> is_dir (fs_get (w_fs w) (slot c i))"
  shows "meets (each (take_backup c) bss) (\<lambda>_. kept_last c bss w) w"
proof (induction bss rule: rev_induct)
  case Nil
  show ?case using fresh by (auto intro!: meets_ret simp: kept_last_def)
next
  case (snoc bs bss)
  let ?n = "length bss" and ?k = "keep_of c"
  have k: "0 < ?k" using c by (simp add: local_ready_def keep_of_def)
  have one: "bnd (take_backup c bs) (\<lambda>_. ret ()) = (take_backup c bs :: (('x, 'm) lp_world_scheme, unit) go)"
    by simp
  show ?case unfolding each_append each.simps one
  proof (rule meets_bnd [OF snoc], rule same_each, rule same_take_backup, goal_cases)
    case (1 u w1)
    note K = this(1)
    have next1: "lp_nextBackupCount w1 = of_nat (?n mod ?k)" "?n mod ?k < ?k"
      using K k by (simp_all add: kept_last_def)
    have dest: "parents_ok (w_fs w1) (slot c (?n mod ?k))" "\<not> is_dir (fs_get (w_fs w1) (slot c (?n mod ?k)))"
      using parents_slot [OF dir K] K next1(2) by (auto simp: kept_last_def)
    show ?case
    proof (rule meets_mono [OF meets_take_backup [OF c next1(2,1) dest]])
      fix u and w2 :: "('x, 'm) lp_world_scheme"
      assume "\<exists>s. fs_get (w_fs w2) = (fs_get (w_fs w1))(slot c (?n mod ?k) \<mapsto> File bs s) \<and>
        lp_nextBackupCount w2 = of_nat (Suc (?n mod ?k) mod ?k)"
      then obtain s where w2: "fs_get (w_fs w2) = (fs_get (w_fs w1))(slot c (?n mod ?k) \<mapsto> File bs s)"
        "lp_nextBackupCount w2 = of_nat (Suc ?n mod ?k)" by (auto simp: mod_Suc_eq)
      show "kept_last c (bss @ [bs]) w w2" unfolding kept_last_def
      proof (intro conjI allI impI, goal_cases)
        case (4 j)
        show ?case
        proof (cases "j = ?n")
          case True
          then show ?thesis using w2(1) by (simp add: file_at_def)
        next
          case False
          then have j: "j < ?n" "Suc ?n \<le> j + ?k" using 4 by simp_all
          then have "file_at (w_fs w1) (slot c (j mod ?k)) = Some (bss ! j)"
            using K by (simp add: kept_last_def)
          moreover have "slot c (j mod ?k) \<noteq> slot c (?n mod ?k)" using slot_apart [OF j] by (simp add: slot_inj)
          ultimately show ?thesis using w2(1) j(1) by (simp add: file_at_def nth_append)
        qed
      qed (use w2 K next1(2) in \<open>auto simp: kept_last_def\<close>)
    qed
  qed
qed

section \<open>Listing the directory, and reading a backup\<close>

lemma stat_all_InrD:
  assumes "stat_all p ns w = (Inr fs, w')" "rooted p" "\<forall>n\<in>set ns. plain_name n"
  shows "w_fs w' = w_fs w \<and> map fst fs = ns \<and>
    (\<forall>(n, t)\<in>set fs. \<exists>nd. fs_get (w_fs w) (resolve p @ [n]) = Some nd \<and> t = node_time nd)"
  using assms
proof (induction ns arbitrary: w fs)
  case (Cons n ns)
  then obtain nd w1 r where 1: "os_Stat (path_Join [p, n]) w = (Inr nd, w1)" "stat_all p ns w1 = (Inr r, w')"
    and fs: "fs = (n, node_time nd) # r"
    by (auto simp: bnd_eq_Inr ret_def)
  note s = os_Stat_InrD [OF 1(1)]
  from Cons.IH [OF 1(2)] Cons.prems s show ?case unfolding fs by auto
qed (simp add: ret_def)

text \<open>A listing that succeeds lists every entry of the directory with its time.\<close>

lemma Local_ListBackups_InrD:
  assumes "Local_ListBackups c sws w = (Inr bv, w')" "rooted (lc_LocalBackupPath c)" "tidy (w_fs w)"
  shows "w_fs w' = w_fs w" "\<exists>files. bv = backupVersionsLocal sws files \<and> distinct (map fst files) \<and>
    set files = {(n, node_time nd) | n nd. fs_get (w_fs w) (resolve (lc_LocalBackupPath c) @ [n]) = Some nd}"
proof -
  let ?p = "lc_LocalBackupPath c"
  from assms(1) obtain d w1 ns w2 files w3 where
    1: "os_Open ?p w = (Inr d, w1)" and 2: "file_Readdirnames d (- 1) w1 = (Inr ns, w2)"
    and 3: "stat_all ?p ns w2 = (Inr files, w3)" and bv: "bv = backupVersionsLocal sws files"
    and w': "w' = file_Close d w3"
    unfolding Local_ListBackups_def bnd_eq_Inr deferred_eq by (auto simp: ret_def)
  have ns: "ns = fs_names (w_fs w) (resolve ?p)" and fs2: "w_fs w2 = w_fs w"
    using os_Open_InrD [OF 1] file_Readdirnames_InrD [OF 2] by auto
  have plain: "\<forall>n\<in>set ns. plain_name n" using tidy_name [OF assms(3)] by (simp add: ns)
  note S = stat_all_InrD [OF 3 assms(2) plain]
  show "w_fs w' = w_fs w" using S fs2 by (simp add: w')
  have names: "fst ` set files = {n. fs_get (w_fs w) (resolve ?p @ [n]) \<noteq> None}"
    using S by (metis list.set_map ns set_fs_names)
  have times: "\<exists>nd. fs_get (w_fs w) (resolve ?p @ [n]) = Some nd \<and> t = node_time nd" if "(n, t) \<in> set files" for n t
    using S that fs2 by fastforce
  have "set files = {(n, node_time nd) | n nd. fs_get (w_fs w) (resolve ?p @ [n]) = Some nd}"
  proof (intro set_eqI iffI)
    fix x assume "x \<in> set files"
    then show "x \<in> {(n, node_time nd) | n nd. fs_get (w_fs w) (resolve ?p @ [n]) = Some nd}"
      using times [of "fst x" "snd x"] by (metis (mono_tags, lifting) mem_Collect_eq prod.collapse)
  next
    fix x assume "x \<in> {(n, node_time nd) | n nd. fs_get (w_fs w) (resolve ?p @ [n]) = Some nd}"
    then obtain n nd where x: "x = (n, node_time nd)" "fs_get (w_fs w) (resolve ?p @ [n]) = Some nd" by blast
    then obtain t where t: "(n, t) \<in> set files" using names by force
    then show "x \<in> set files" using times [OF t] x by simp
  qed
  moreover have "distinct (map fst files)" using S by (simp add: ns)
  ultimately show "\<exists>files. bv = backupVersionsLocal sws files \<and> distinct (map fst files) \<and>
    set files = {(n, node_time nd) | n nd. fs_get (w_fs w) (resolve (lc_LocalBackupPath c) @ [n]) = Some nd}"
    using bv by blast
qed

lemma meets_Local_Download:
  fixes w :: "('x, 'm) world_scheme"
  assumes "rooted (lc_LocalBackupPath c)" "plain_name (bv_name v)"
    and src: "parents_ok (w_fs w) (resolve (lc_LocalBackupPath c) @ [bv_name v])"
      "fs_get (w_fs w) (resolve (lc_LocalBackupPath c) @ [bv_name v]) = Some (File bs t)"
    and q: "w_fds w q = Some hq" "h_wr hq" "fs_get (w_fs w) (h_path hq) = Some (File d s)" "h_path hq \<noteq> []" "q < w_nfd w"
      "h_off hq \<le> length d"
  shows "meets (Local_DownloadBackup c v (file_Write q)) (\<lambda>_ w'.
     \<exists>s. fs_get (w_fs w') = (fs_get (w_fs w))(h_path hq \<mapsto> File (overwrite d (h_off hq) bs) s)) w"
proof -
  let ?src = "path_Join [lc_LocalBackupPath c, bv_name v]"
  have rs: "resolve ?src = resolve (lc_LocalBackupPath c) @ [bv_name v]" using assms(1,2) by simp
  have o: "parents_ok (w_fs w) (resolve ?src)" "fs_get (w_fs w) (resolve ?src) = Some (File bs t)" using src rs by simp_all
  show ?thesis unfolding Local_DownloadBackup_def Let_def
  proof (rule meets_bnd [OF meets_wrapE [OF meets_Open [OF o]]], intro keeps, rule meets_deferred, goal_cases)
    case (1 i w1)
    let ?hi = "\<lparr>h_path = resolve ?src, h_off = 0, h_rd = True, h_wr = False\<rparr>"
    have i: "w_fds w1 i = Some ?hi" "h_rd ?hi" "fs_get (w_fs w1) (h_path ?hi) = Some (File bs t)" "i \<noteq> q"
      using 1 o q(5) by auto
    have q1: "w_fds w1 q = Some hq" "fs_get (w_fs w1) (h_path hq) = Some (File d s)" using 1 q by auto
    show ?case
      by (rule meets_mono [OF meets_copy [OF i(1-3) q1(1) q(2) q1(2) q(4) i(4) q(6)]]) (use 1 in auto)
  qed
qed

section \<open>Properties\<close>

text \<open>C10: the local provider keeps the last \<open>ObjectsToKeep\<close> backups: after any number of backups
  taken from a fresh start, each of the last ones is there in full under the name of its turn, and
  no file outside the \<open>ObjectsToKeep\<close> names was touched. Without failing system calls the backups
  succeed.\<close>

theorem Local_keeps_last:
  assumes "local_ready c" "parents_ok (w_fs w) (resolve (lc_LocalBackupPath c))"
    and "is_dir (fs_get (w_fs w) (resolve (lc_LocalBackupPath c)))"
    and "lp_nextBackupCount w = 0" "\<And>i. \<not> is_dir (fs_get (w_fs w) (slot c i))"
  shows "(quiet w \<longrightarrow> (\<exists>w'. each (take_backup c) bss w = (Inr (), w'))) \<and>
    (\<forall>w'. each (take_backup c) bss w = (Inr (), w') \<longrightarrow>
      (\<forall>j<length bss. length bss \<le> j + keep_of c \<longrightarrow>
         file_at (w_fs w') (slot c (j mod keep_of c)) = Some (bss ! j)) \<and>
      (\<forall>q. fs_get (w_fs w') q = fs_get (w_fs w) q \<or> (\<exists>i<keep_of c. q = slot c i)))"
proof -
  note M = meets_backups [OF assms, of bss]
  show ?thesis using meets_quiet [OF M] meets_Inr [OF M] unfolding kept_last_def by auto
qed

definition a_local :: local_config where
  "a_local = \<lparr>lc_LocalBackupPath = ''/b'', lc_ObjectsToKeep = 2, lc_Suffix = ''.tar''\<rparr>"

definition a_local_world :: "unit lp_world" where
  "a_local_world = world.extend (calm [([''b''], Dir 0)] ())
     \<lparr>lp_nextBackupCount = 0, lp_currentBackupName = ''''\<rparr>"

theorem Local_keeps_last_witness:
  "\<exists>w'. each (take_backup a_local) [[1], [2], [3]] a_local_world = (Inr (), w') \<and>
     file_at (w_fs w') (slot a_local 0) = Some [3] \<and> file_at (w_fs w') (slot a_local 1) = Some [2]"
proof -
  have r: "resolve ''/b'' = [''b'']" by (simp add: resolve_def)
  have h: "local_ready a_local" "parents_ok (w_fs a_local_world) (resolve (lc_LocalBackupPath a_local))"
    "is_dir (fs_get (w_fs a_local_world) (resolve (lc_LocalBackupPath a_local)))"
    "lp_nextBackupCount a_local_world = 0" "\<And>i. \<not> is_dir (fs_get (w_fs a_local_world) (slot a_local i))"
    by (simp_all add: a_local_def a_local_world_def local_ready_def r parents_ok_def fs_get_def slot_def world.defs calm_def)
  have k: "keep_of a_local = 2" by (simp add: keep_of_def a_local_def)
  have q: "quiet a_local_world" by (simp add: a_local_world_def quiet_def world.defs calm_def)
  from Local_keeps_last [OF h, of "[[1], [2], [3]]"] q obtain w' where
    w': "each (take_backup a_local) [[1], [2], [3]] a_local_world = (Inr (), w')" by blast
  have "file_at (w_fs w') (slot a_local (j mod 2)) = Some ([[1], [2], [3]] ! j)" if "j < 3" "3 \<le> j + 2" for j
    using Local_keeps_last [OF h, of "[[1], [2], [3]]"] w' that k by simp
  from this [of 1] this [of 2] show ?thesis using w' by (auto simp: numeral_2_eq_2)
qed

text \<open>C11: the list of the local provider is the directory: it has exactly one version for each entry, with the
  entry's name and time, the newest first, and the versions are the numbers of the places.  Every listed version is found
  again under its version string, and nothing else is found.  \<open>Latest\<close> is absent exactly if the directory is
  empty, and otherwise one of the list than which none is newer.\<close>

theorem Local_list_correct:
  assumes "Local_ListBackups c sws w = (Inr bv, w')" "rooted (lc_LocalBackupPath c)" "tidy (w_fs w)"
  shows "\<exists>latest vs. bvs_Latest bv = Inr latest \<and> bvs_List bv = Inr vs \<and>
    distinct (map bv_name vs) \<and>
    item ` set vs = {(n, node_time nd) | n nd. fs_get (w_fs w) (resolve (lc_LocalBackupPath c) @ [n]) = Some nd} \<and>
    newest_first vs \<and> map bv_version vs = map (\<lambda>i. FormatInt (int i)) [0..<length vs] \<and>
    (\<forall>v\<in>set vs. bvs_Get bv (bv_version v) = Inr v) \<and> (\<forall>k. k \<notin> bv_version ` set vs \<longrightarrow> (\<exists>e. bvs_Get bv k = Inl e)) \<and>
    (latest = None \<longleftrightarrow> fs_names (w_fs w) (resolve (lc_LocalBackupPath c)) = []) \<and>
    (\<forall>v. latest = Some v \<longrightarrow> v \<in> set vs \<and> (\<forall>u\<in>set vs. bv_date u \<le> bv_date v))"
proof -
  let ?p = "resolve (lc_LocalBackupPath c)"
  obtain files where bv: "bv = backupVersionsLocal sws files" and d: "distinct (map fst files)"
    and files: "set files = {(n, node_time nd) | n nd. fs_get (w_fs w) (?p @ [n]) = Some nd}"
    using Local_ListBackups_InrD [OF assms] by blast
  let ?vs = "local_List sws files" and ?l = "common_Latest sws (local_List sws files)"
  have eq: "bvs_Latest bv = Inr ?l" "bvs_List bv = Inr ?vs" by (simp_all add: bv backupVersionsLocal_def)
  have "?vs = [] \<longleftrightarrow> files = []" using local_List_items [of sws files] by auto
  moreover have "fst ` set files = set (fs_names (w_fs w) ?p)" unfolding files set_fs_names by force
  ultimately have none: "?l = None \<longleftrightarrow> fs_names (w_fs w) ?p = []" by auto
  have names: "distinct (map bv_name ?vs)" using local_List_names [of sws files] d by (metis mset_eq_imp_distinct_iff)
  have items: "item ` set ?vs = {(n, node_time nd) | n nd. fs_get (w_fs w) (?p @ [n]) = Some nd}"
    by (simp only: local_List_items files)
  have versions: "map bv_version ?vs = map (\<lambda>i. FormatInt (int i)) [0..<length ?vs]"
    using local_List_versions [of sws files] by (metis length_map map_nth diff_zero length_upt)
  have found: "\<forall>v\<in>set ?vs. bvs_Get bv (bv_version v) = Inr v"
    using local_versions.Get_finds [OF _ _ distinct_local_versions, of sws files] bv eq(2) by simp
  have others: "\<exists>e. bvs_Get bv k = Inl e" if "k \<notin> bv_version ` set ?vs" for k
    using Get_absent [OF that] by (simp add: bv backupVersionsLocal_def)
  have newest: "v \<in> set ?vs \<and> (\<forall>u\<in>set ?vs. bv_date u \<le> bv_date v)" if "?l = Some v" for v
    by (rule Latest_newest [OF that])
  show ?thesis
    using eq names items versions found others none newest newest_first_local_List [of sws files]
    by (intro exI [of _ ?l] exI [of _ ?vs]) simp
qed

definition a_stocked_world :: "unit world" where
  "a_stocked_world = calm [([''b''], Dir 0), ([''b'', ''0.tar''], File [1] 5), ([''b'', ''1.tar''], File [2] 9)] ()"

theorem Local_list_correct_witness:
  "\<exists>bv w' v vs. Local_ListBackups a_local (\<lambda>_. []) a_stocked_world = (Inr bv, w') \<and> bvs_List bv = Inr vs \<and>
     item ` set vs = {(''0.tar'', 5), (''1.tar'', 9)} \<and> map bv_version vs = [''0'', ''1''] \<and> bvs_Latest bv = Inr (Some v) \<and>
     bv_name v = ''1.tar''"
proof -
  have r: "resolve ''/b'' = [''b'']" by (simp add: resolve_def)
  have root: "rooted (lc_LocalBackupPath a_local)" by (simp add: a_local_def rooted_def)
  have tidy: "tidy (w_fs a_stocked_world)" by (rule tidyI) code_simp
  have "\<not> isl (fst (Local_ListBackups a_local (\<lambda>_. []) a_stocked_world))" by code_simp
  then obtain bv w' where run: "Local_ListBackups a_local (\<lambda>_. []) a_stocked_world = (Inr bv, w')" using ran_ok by fastforce
  have dir: "{(n, node_time nd) | n nd. fs_get (w_fs a_stocked_world) (resolve (lc_LocalBackupPath a_local) @ [n]) = Some nd} =
      {(''0.tar'', 5), (''1.tar'', 9)}"
    by (auto simp: a_local_def r a_stocked_world_def fs_get_def split: if_splits)
  have names: "fs_names (w_fs a_stocked_world) (resolve (lc_LocalBackupPath a_local)) \<noteq> []"
    by (simp add: a_local_def r a_stocked_world_def fs_names_def)
  from Local_list_correct [OF run root tidy] obtain latest vs where l: "bvs_Latest bv = Inr latest" "bvs_List bv = Inr vs"
    "distinct (map bv_name vs)" "item ` set vs = {(''0.tar'', 5), (''1.tar'', 9)}"
    "map bv_version vs = map (\<lambda>i. FormatInt (int i)) [0..<length vs]" "latest \<noteq> None"
    "\<And>v. latest = Some v \<Longrightarrow> v \<in> set vs \<and> (\<forall>u\<in>set vs. bv_date u \<le> bv_date v)"
    unfolding dir using names by blast
  obtain v where v: "latest = Some v" using l(6) by blast
  have "inj_on bv_name (set vs)" using l(3) by (simp add: distinct_map)
  then have "inj_on item (set vs)" by (auto simp: inj_on_def item_def)
  moreover have "distinct vs" using l(3) by (simp add: distinct_map)
  ultimately have "length vs = card (item ` set vs)" by (simp add: card_image distinct_card)
  moreover have n: "FormatInt (int 0) = ''0''" "FormatInt (int 1) = ''1''" by code_simp+
  ultimately have two: "map bv_version vs = [''0'', ''1'']" using l(5) n unfolding l(4) by (simp add: numeral_2_eq_2)
  have "(''1.tar'', 9) \<in> item ` set vs" unfolding l(4) by simp
  then obtain u where u: "item u = (''1.tar'', 9)" "u \<in> set vs" by (metis imageE)
  have "bv_date u \<le> bv_date v" using l(7) [OF v] u(2) by (rule conjunct2 [THEN bspec])
  then have "9 \<le> bv_date v" using u(1) by (simp add: item_def)
  moreover have "item v \<in> item ` set vs" using l(7) [OF v] by (rule imageI [OF conjunct1])
  then have "item v \<in> {(''0.tar'', 5), (''1.tar'', 9)}" by (simp only: l(4))
  then have "item v = (''0.tar'', 5) \<or> item v = (''1.tar'', 9)" by (simp only: insert_iff empty_iff simp_thms)
  ultimately have "bv_name v = ''1.tar''" by (auto simp: item_def)
  then show ?thesis
    by (intro exI [of _ bv] exI [of _ w'] exI [of _ v] exI [of _ vs] conjI run l(2,4) two) (simp_all only: l(1) v)
qed

section \<open>The counter stays in bounds\<close>

text \<open>One step of the 64 bit counter, whatever the number of objects to keep, negative ones included: the
  increment may wrap around, the remainder then still is what it would be without.\<close>

lemma int64_next:
  fixes a k :: "64 word"
  assumes "k \<noteq> 0" "0 \<le> sint a" "sint a < \<bar>sint k\<bar>"
  shows "\<exists>n. int64_rem (a + 1) k = Inr n \<and> sint n = (sint a + 1) mod \<bar>sint k\<bar>"
proof -
  have k: "\<bar>sint k\<bar> \<le> 2 ^ 63" "sint k \<noteq> 0" using sint_below [of k] sint_ge [of k] assms(1) by (auto simp: signed_eq_0_iff)
  have s: "sint (a + 1) = signed_take_bit 63 (sint a + 1)" by (simp add: sint_word_ariths)
  have r: "sint (a + 1) smod sint k = (sint a + 1) mod \<bar>sint k\<bar>"
  proof (cases "sint a + 1 = 2 ^ 63")
    case True
    then have "\<bar>sint k\<bar> = 2 ^ 63" using assms(3) k(1) by linarith
    moreover have "sint (a + 1) = - (2 ^ 63)" unfolding s True by simp
    ultimately show ?thesis unfolding True by (simp add: smod_int_alt_def)
  next
    case False
    then have "sint a + 1 < 2 ^ 63" using sint_below [of a] by linarith
    then have "sint (a + 1) = sint a + 1" unfolding s using assms(2) by (intro signed_take_bit_int_eq_self) simp_all
    then show ?thesis using assms(2) by (simp add: smod_int_alt_def)
  qed
  let ?n = "word_of_int ((sint a + 1) mod \<bar>sint k\<bar>) :: 64 word"
  have "0 \<le> (sint a + 1) mod \<bar>sint k\<bar>" "(sint a + 1) mod \<bar>sint k\<bar> < \<bar>sint k\<bar>" using k(2) by simp_all
  then have "sint ?n = (sint a + 1) mod \<bar>sint k\<bar>"
    using k(1) by (subst sint_sbintrunc') (intro signed_take_bit_int_eq_self, simp_all)
  then show ?thesis using assms(1) r by (simp add: int64_rem_def)
qed

lemma Local_New_keeps: "Local_New config = Inr c \<Longrightarrow> lc_ObjectsToKeep c \<noteq> 0"
  by (auto simp: Local_New_def DefaultObjectsToKeep_def split: option.splits if_splits)

text \<open>The names of a run: between two of them the rest of the program changes its state.\<close>

fun names_given ::
  "local_config \<Rightarrow> (('x, 'm) lp_world_scheme \<Rightarrow> ('x, 'm) lp_world_scheme) list \<Rightarrow> (('x, 'm) lp_world_scheme, string list) go" where
  "names_given c [] = ret []"
| "names_given c (f # fs) =
     bnd (Local_GetNextBackupName c) (\<lambda>n. bnd (upd f) (\<lambda>_. bnd (names_given c fs) (\<lambda>ns. ret (n # ns))))"

text \<open>C17: with every configuration that the provider accepts the counter never leaves its bounds, the
  names never exceed them, and no call panics: the \<open>i\<close>th name is \<open>i\<close> modulo the (absolute) number of objects to
  keep, which fits into 64 bits, whatever happens between the calls.\<close>

theorem Local_names_bounded:
  fixes w :: "('x, 'm) lp_world_scheme"
  assumes "Local_New config = Inr c" "sint (lp_nextBackupCount w) = start" "0 \<le> start" "start < \<bar>sint (lc_ObjectsToKeep c)\<bar>"
    and "list_all (\<lambda>f. \<forall>v :: ('x, 'm) lp_world_scheme. lp_nextBackupCount (f v) = lp_nextBackupCount v) fs"
  shows "\<exists>w'. names_given c fs w =
      (Inr (map (\<lambda>i. FormatInt ((start + int i) mod \<bar>sint (lc_ObjectsToKeep c)\<bar>)) [0..<length fs]), w') \<and>
    0 \<le> sint (lp_nextBackupCount w') \<and> sint (lp_nextBackupCount w') < \<bar>sint (lc_ObjectsToKeep c)\<bar> \<and>
    \<bar>sint (lc_ObjectsToKeep c)\<bar> \<le> 2 ^ 63"
  using assms(2-)
proof (induction fs arbitrary: w start)
  case Nil
  have "\<bar>sint (lc_ObjectsToKeep c)\<bar> \<le> 2 ^ 63"
    using sint_below [of "lc_ObjectsToKeep c"] sint_ge [of "lc_ObjectsToKeep c"] by auto
  then show ?case using Nil by (simp add: ret_def)
next
  case (Cons f fs)
  let ?m = "\<bar>sint (lc_ObjectsToKeep c)\<bar>"
  obtain n where n: "int64_rem (lp_nextBackupCount w + 1) (lc_ObjectsToKeep c) = Inr n" "sint n = (start + 1) mod ?m"
    using int64_next [OF Local_New_keeps [OF assms(1)]] Cons.prems(1-3) by blast
  let ?w = "f (w\<lparr>lp_nextBackupCount := n, lp_currentBackupName := FormatInt start\<rparr>)"
  have "sint (lp_nextBackupCount ?w) = (start + 1) mod ?m" using Cons.prems(4) n(2) by simp
  then obtain w' where w': "names_given c fs ?w = (Inr (map (\<lambda>i. FormatInt (((start + 1) mod ?m + int i) mod ?m)) [0..<length fs]), w')"
    "0 \<le> sint (lp_nextBackupCount w')" "sint (lp_nextBackupCount w') < ?m" "?m \<le> 2 ^ 63"
    using Cons.IH [of ?w "(start + 1) mod ?m"] Cons.prems by auto
  have shift: "(\<lambda>i. FormatInt (((start + 1) mod ?m + int i) mod ?m)) = (\<lambda>i. FormatInt ((start + int (Suc i)) mod ?m))"
    by (simp add: mod_add_left_eq add.assoc)
  have "[0..<length (f # fs)] = 0 # map Suc [0..<length fs]" by (simp add: upt_conv_Cons map_Suc_upt del: upt_Suc)
  then have "map (\<lambda>i. FormatInt ((start + int i) mod ?m)) [0..<length (f # fs)] =
    FormatInt start # map (\<lambda>i. FormatInt ((start + int (Suc i)) mod ?m)) [0..<length fs]"
    using Cons.prems by (simp add: comp_def)
  then show ?case
    using w' n Cons.prems(1) unfolding shift
    by (simp add: Local_GetNextBackupName_def bnd_run asks_run upd_run ret_run)
qed

text \<open>The most negative number of objects to keep, and a counter that is about to wrap around.\<close>

theorem Local_names_bounded_witness:
  "\<exists>w'. names_given (a_local\<lparr>lc_ObjectsToKeep := - (2 ^ 63)\<rparr>) [id, id]
       (world.extend (calm [] ()) \<lparr>lp_nextBackupCount = 2 ^ 63 - 1, lp_currentBackupName = ''''\<rparr>) =
     (Inr [''9223372036854775807'', ''0''], w')"
proof -
  let ?c = "a_local\<lparr>lc_ObjectsToKeep := - (2 ^ 63)\<rparr>"
  let ?w = "world.extend (calm [] ()) \<lparr>lp_nextBackupCount = 2 ^ 63 - 1, lp_currentBackupName = ''''\<rparr> :: unit lp_world"
  have "Local_New (Some ?c) = Inr ?c" by (simp add: Local_New_def a_local_def)
  moreover have "sint (lp_nextBackupCount ?w) = 2 ^ 63 - 1" by (simp add: world.defs)
  moreover have k: "\<bar>sint (lc_ObjectsToKeep ?c)\<bar> = 2 ^ 63" by simp
  moreover have "FormatInt (2 ^ 63 - 1) = ''9223372036854775807''" "FormatInt 0 = ''0''"
    by (simp_all add: FormatInt_def nat_str.simps) code_simp+
  ultimately show ?thesis using Local_names_bounded [of "Some ?c" ?c ?w "2 ^ 63 - 1" "[id, id]"] by (auto simp: upt_rec)
qed

end
