(* ===== verification/Metrics.thy ===== *)
theory Metrics
  imports LocalProvider
begin

text \<open>
  \<open>cmd/internal/metrics/metrics.go\<close>: the counters and gauges of the process, as variables of the
  world, with the patterns that are registered with the HTTP server.  A parameter: the registry of the
  Prometheus client library, as \<open>MustRegister\<close>.
\<close>

record 'x m_world = "'x lp_world" +
  m_totalBackups :: nat
  m_backupSuccess :: int
  m_backupSize :: int
  m_totalErrors :: "string \<Rightarrow> nat"
  m_routes :: "string list"

section \<open>Starting the metrics server\<close>

datatype collector_kind = Counter | Gauge | CounterVec "string list"

record collector =
  col_Name :: string
  col_Help :: string
  col_kind :: collector_kind

record metrics =
  mt_totalBackups :: collector
  mt_backupSuccess :: collector
  mt_backupSize :: collector
  mt_totalErrors :: collector

definition Metrics_New :: metrics where
  "Metrics_New =
     (let backupSuccess = \<lparr>col_Name = ''backup_success'', col_Help = ''is 0 when the last backup was successful, otherwise 1'', col_kind = Gauge\<rparr>;
          totalBackups = \<lparr>col_Name = ''backup_total_backups'', col_Help = ''total number of successful backups'', col_kind = Counter\<rparr>;
          totalErrors = \<lparr>col_Name = ''backup_errors'', col_Help = ''total number of errors during backups'', col_kind = CounterVec [''operation'']\<rparr>;
          backupSize = \<lparr>col_Name = ''backup_size'', col_Help = ''size of last backup in bytes'', col_kind = Gauge\<rparr>
      in \<lparr>mt_totalBackups = totalBackups, mt_backupSuccess = backupSuccess, mt_backupSize = backupSize, mt_totalErrors = totalErrors\<rparr>)"

text \<open>\<open>http.Handle\<close> on the server that the process shares: a pattern that is registered already is a panic.\<close>

definition http_Handle :: "string \<Rightarrow> (('x, 'm) m_world_scheme, unit) go" where
  "http_Handle pattern = bnd (asks m_routes) (\<lambda>rs.
     if pattern \<in> set rs then fail (Panic (''http: multiple registrations for '' @ pattern))
     else upd (\<lambda>w. w\<lparr>m_routes := rs @ [pattern]\<rparr>))"

text \<open>What \<open>Start\<close> does before it returns.\<close>

definition Metrics_Start ::
  "(collector \<Rightarrow> (('x, 'm) m_world_scheme, unit) go) \<Rightarrow> metrics \<Rightarrow> (('x, 'm) m_world_scheme, unit) go" where
  "Metrics_Start prometheus_MustRegister m =
     bnd (http_Handle ''/metrics'') (\<lambda>_.
     bnd (http_Handle ''/'') (\<lambda>_.
     bnd (prometheus_MustRegister (mt_backupSuccess m)) (\<lambda>_.
     bnd (prometheus_MustRegister (mt_totalBackups m)) (\<lambda>_.
     bnd (prometheus_MustRegister (mt_totalErrors m)) (\<lambda>_.
     prometheus_MustRegister (mt_backupSize m))))))"

text \<open>The goroutine that it leaves behind, and the page of the root pattern.\<close>

definition metrics_serve :: "(string \<Rightarrow> ('w, unit) go) \<Rightarrow> ('w, unit) go" where
  "metrics_serve http_ListenAndServe = bnd (attempt (http_ListenAndServe '':2112'')) (\<lambda>r. case r of
     Inl e \<Rightarrow> fail (Panic ''metrics server'')
   | Inr _ \<Rightarrow> ret ())"

definition metrics_root :: "(string \<Rightarrow> ('w, unit) go) \<Rightarrow> ('w, unit) go" where
  "metrics_root write = bnd (attempt (write (strings_Join
     [''<html>'',
      [CHR 0x09, CHR 0x09, CHR 0x09] @ ''<head><title>backup-restore metrics</title></head>'',
      [CHR 0x09, CHR 0x09, CHR 0x09] @ ''<body>'',
      [CHR 0x09, CHR 0x09, CHR 0x09] @ ''<h1>backup-restore metrics</h1>'',
      [CHR 0x09, CHR 0x09, CHR 0x09] @ ''<p><a href='' @ [CHR 0x27] @ ''/metrics'' @ [CHR 0x27] @ ''>Metrics</a></p </body </html>'']
     [CHR 0x0A]))) (\<lambda>_. ret ())"

text \<open>A first start registers both patterns and the four metrics; a second one in the same process panics.\<close>

lemma Metrics_Start_routes:
  fixes w :: "('x, 'm) m_world_scheme"
  assumes "Metrics_Start reg m w = (Inr u, w')" "\<And>c. same m_routes (reg c)"
  shows "m_routes w' = m_routes w @ [''/metrics'', ''/''] \<and> fst (Metrics_Start reg m w') = Inl (Panic ''http: multiple registrations for /metrics'')"
proof -
  have "m_routes w' = m_routes w @ [''/metrics'', ''/'']"
    using assms(1) by (auto simp: Metrics_Start_def http_Handle_def bnd_eq_Inr asks_def upd_def fail_def ret_def
        dest!: sameD [OF assms(2)] split: if_splits)
  then show ?thesis by (simp add: Metrics_Start_def http_Handle_def bnd_run asks_run fail_run)
qed

lemma Metrics_Start_first:
  assumes "m_routes w = []"
  shows "Metrics_Start reg m w =
    each reg [mt_backupSuccess m, mt_totalBackups m, mt_totalErrors m, mt_backupSize m] (w\<lparr>m_routes := [''/metrics'', ''/'']\<rparr>)"
  using assms by (simp add: Metrics_Start_def http_Handle_def bnd_run asks_run upd_run)

section \<open>Counting\<close>

text \<open>The size that \<open>Stat\<close> reports; that of a directory is left at nought.\<close>

fun node_size :: "node \<Rightarrow> int" where
  "node_size (File c t) = int (length c)"
| "node_size (Dir t) = 0"

text \<open>The error of \<open>Stat\<close> is ignored, so that a missing file is a nil pointer at the last line.\<close>

definition CountBackup :: "string \<Rightarrow> (('x, 'm) m_world_scheme, unit) go" where
  "CountBackup backupFile =
     bnd (attempt (os_Stat backupFile)) (\<lambda>s.
     bnd (upd (\<lambda>w. w\<lparr>m_totalBackups := Suc (m_totalBackups w)\<rparr>)) (\<lambda>_.
     bnd (upd (\<lambda>w. w\<lparr>m_backupSuccess := 1\<rparr>)) (\<lambda>_.
     case s of
       Inl e \<Rightarrow> fail (Panic ''nil pointer dereference'')
     | Inr n \<Rightarrow> upd (\<lambda>w. w\<lparr>m_backupSize := node_size n\<rparr>))))"

definition CountError :: "string \<Rightarrow> (('x, 'm) m_world_scheme, unit) go" where
  "CountError op = bnd (upd (\<lambda>w. w\<lparr>m_totalErrors := (m_totalErrors w)(op := Suc (m_totalErrors w op))\<rparr>)) (\<lambda>_.
     upd (\<lambda>w. w\<lparr>m_backupSuccess := 0\<rparr>))"

text \<open>The help text of the gauge \<open>backup_success\<close> in \<open>New\<close>: the value it announces for a success.\<close>

definition backup_success_announced :: int where
  "backup_success_announced = 0"

definition metrics_of :: "('x, 'm) m_world_scheme \<Rightarrow> nat \<times> int \<times> int \<times> (string \<Rightarrow> nat)" where
  "metrics_of w = (m_totalBackups w, m_backupSuccess w, m_backupSize w, m_totalErrors w)"

lemma metrics_surroundings: "surroundings w' = surroundings w \<Longrightarrow> metrics_of w' = metrics_of w"
  for w w' :: "('x, 'm) m_world_scheme"
  by (cases w, cases w') (simp add: surroundings_def metrics_of_def)

lemma same_metrics_os [keeps]: "same surroundings m \<Longrightarrow> same metrics_of m"
  for m :: "(('x, 'm) m_world_scheme, 'a) go"
  by (erule same_comp) (rule metrics_surroundings)

lemma CountError_run:
  "CountError op w = (Inr (), w\<lparr>m_totalErrors := (m_totalErrors w)(op := Suc (m_totalErrors w op)), m_backupSuccess := 0\<rparr>)"
  by (simp add: CountError_def run)

lemma CountBackup_Inr:
  assumes "CountBackup f w = (Inr u, w')"
  shows "\<exists>n. metrics_of w' = (Suc (m_totalBackups w), 1, node_size n, m_totalErrors w)"
proof -
  from assms obtain n w1 where s: "os_Stat f w = (Inr n, w1)" and
    w': "w' = w1\<lparr>m_totalBackups := Suc (m_totalBackups w1), m_backupSuccess := 1, m_backupSize := node_size n\<rparr>"
  proof -
    from assms obtain r w1 where r: "attempt (os_Stat f) w = (Inr r, w1)" and
      k: "(case r of Inl e \<Rightarrow> fail (Panic ''nil pointer dereference'') | Inr n \<Rightarrow> upd (\<lambda>w. w\<lparr>m_backupSize := node_size n\<rparr>))
        (w1\<lparr>m_totalBackups := Suc (m_totalBackups w1), m_backupSuccess := 1\<rparr>) = (Inr u, w')"
      by (auto simp: CountBackup_def bnd_eq_Inr upd_def)
    show ?thesis
    proof (cases r)
      case (Inl e)
      then show ?thesis using k by (simp add: fail_def)
    next
      case (Inr n)
      then show ?thesis using that [of n w1] r k by (simp add: attempt_eq_Inr upd_def)
    qed
  qed
  have "same metrics_of (os_Stat f :: (('a, 'b) m_world_scheme, node) go)" by (intro keeps)
  then have "metrics_of w1 = metrics_of w" using s by (simp add: same_run)
  then show ?thesis unfolding w' by (auto simp: metrics_of_def)
qed

text \<open>C38: the gauge \<open>backup_success\<close> is 1 after a success and 0 after an error: the reverse of
  what its help text announces (0 for a successful backup, otherwise 1).\<close>

theorem backup_success_reversed:
  assumes "CountBackup f w = (Inr u, w')"
  shows "m_backupSuccess w' \<noteq> backup_success_announced \<and>
     m_backupSuccess (snd (CountError op w)) = backup_success_announced"
  using CountBackup_Inr [OF assms]
  by (auto simp: metrics_of_def backup_success_announced_def CountError_run)

definition a_metrics_world :: "fs \<Rightarrow> unit m_world" where
  "a_metrics_world f = lp_world.extend (world.extend (calm f ())
     \<lparr>lp_nextBackupCount = 0, lp_currentBackupName = ''''\<rparr>)
     \<lparr>m_totalBackups = 0, m_backupSuccess = 0, m_backupSize = 0, m_totalErrors = (\<lambda>_. 0), m_routes = []\<rparr>"

theorem backup_success_reversed_witness:
  "\<exists>w'. CountBackup ''/f'' (a_metrics_world [([''f''], File [1] 0)]) = (Inr (), w') \<and>
     m_backupSuccess w' \<noteq> backup_success_announced"
proof -
  have "\<not> isl (fst (CountBackup ''/f'' (a_metrics_world [([''f''], File [1] 0)])))" by code_simp
  then obtain w' where "CountBackup ''/f'' (a_metrics_world [([''f''], File [1] 0)]) = (Inr (), w')"
    by (cases "CountBackup ''/f'' (a_metrics_world [([''f''], File [1] 0)])";
        cases "fst (CountBackup ''/f'' (a_metrics_world [([''f''], File [1] 0)]))") auto
  with backup_success_reversed [OF this] show ?thesis by blast
qed

end
