(* ===== verification/Encryption.thy ===== *)
theory Encryption
  imports Utils
begin

text \<open>
  \<open>cmd/internal/encryption/encryption.go\<close>: files encrypted with AES in counter mode, the
  initialisation vector behind the cipher text.

  The block function of \<open>crypto/aes\<close> is a parameter \<open>aes\<close> (key, block, encrypted block);
  everything else, the counter stream of \<open>cipher.NewCTR\<close> included, is modelled.  Nothing is
  assumed of \<open>aes\<close>: counter mode only ever runs it forwards.
\<close>

unbundle bit_operations_syntax

section \<open>Counter mode\<close>

type_synonym block_fn = "byte list \<Rightarrow> byte list"

definition aes_BlockSize :: nat where
  "aes_BlockSize = 16"

definition be_nat :: "byte list \<Rightarrow> nat" where
  "be_nat bs = foldl (\<lambda>a b. a * 256 + unat b) 0 bs"

definition be_bytes :: "nat \<Rightarrow> nat \<Rightarrow> byte list" where
  "be_bytes k n = map (\<lambda>i. of_nat (n div 256 ^ (k - 1 - i))) [0..<k]"

text \<open>Byte \<open>i\<close> of the key stream: the counter block is the vector plus the block number, as a
  128 bit big-endian number that wraps around.\<close>

definition key_stream :: "block_fn \<Rightarrow> byte list \<Rightarrow> nat \<Rightarrow> byte" where
  "key_stream blk iv i =
     blk (be_bytes aes_BlockSize ((be_nat iv + i div aes_BlockSize) mod 2 ^ 128)) ! (i mod aes_BlockSize)"

fun xor_stream :: "block_fn \<Rightarrow> byte list \<Rightarrow> nat \<Rightarrow> byte list \<Rightarrow> byte list" where
  "xor_stream blk iv pos [] = []"
| "xor_stream blk iv pos (b # bs) = (b XOR key_stream blk iv pos) # xor_stream blk iv (Suc pos) bs"

lemma length_xor_stream [simp]: "length (xor_stream blk iv pos bs) = length bs"
  by (induction blk iv pos bs rule: xor_stream.induct) simp_all

lemma xor_stream_append:
  "xor_stream blk iv pos (xs @ ys) = xor_stream blk iv pos xs @ xor_stream blk iv (pos + length xs) ys"
  by (induction xs arbitrary: pos) simp_all

lemma xor_stream_inverse [simp]: "xor_stream blk iv pos (xor_stream blk iv pos bs) = bs"
  by (induction blk iv pos bs rule: xor_stream.induct) (simp_all add: xor.assoc)

section \<open>The encrypter\<close>

definition enc_suffix :: string where
  "enc_suffix = ''.aes''"

record encrypter =
  enc_key :: string

definition isASCII :: "string \<Rightarrow> bool" where
  "isASCII s \<longleftrightarrow> list_all (\<lambda>c. (of_char c :: nat) \<le> 127) s"

definition Encrypter_New :: "string \<Rightarrow> err + encrypter" where
  "Encrypter_New key =
     (if length key \<noteq> 32 then
        Inl (ErrText (''key length: '' @ FormatInt (int (length key)) @ '' invalid, must be 32 bytes''))
      else if \<not> isASCII key then Inl (ErrText ''key must only contain ascii characters'')
      else Inr \<lparr>enc_key = key\<rparr>)"

definition Encrypter_Extension :: "encrypter \<Rightarrow> string" where
  "Encrypter_Extension e = enc_suffix"

definition IsEncrypted :: "string \<Rightarrow> bool" where
  "IsEncrypted p \<longleftrightarrow> filepath_Ext p = enc_suffix"

text \<open>\<open>aes.NewCipher\<close> takes keys of 16, 24 or 32 bytes.\<close>

definition createCipher :: "(byte list \<Rightarrow> block_fn) \<Rightarrow> encrypter \<Rightarrow> err + block_fn" where
  "createCipher aes e =
     (let k = map (\<lambda>c. of_nat (of_char c)) (enc_key e) in
      if length k \<in> {16, 24, 32} then Inr (aes k) else Inl (ErrExt ''aes.KeySizeError'' (int (length k))))"

text \<open>Read and write, but not cut: what the file held stays behind what is written.\<close>

definition openOutputFile :: "string \<Rightarrow> (('x, 'm) world_scheme, nat) go" where
  "openOutputFile output = open_file True True True False output"

definition generateIV :: "(('x, 'm) world_scheme, byte list) go" where
  "generateIV = rand_ReadFull aes_BlockSize"

definition bufsize :: nat where
  "bufsize = 1024"

fun encrypt_loop ::
  "nat \<Rightarrow> block_fn \<Rightarrow> byte list \<Rightarrow> nat \<Rightarrow> nat \<Rightarrow> nat \<Rightarrow> (('x, 'm) world_scheme, unit) go" where
  "encrypt_loop 0 blk iv pos infd outfd = fail Diverges"
| "encrypt_loop (Suc n) blk iv pos infd outfd =
     bnd (wrapE ''error reading from file (0 bytes read)'' (file_Read infd bufsize)) (\<lambda>(buf, eof).
     bnd (if buf \<noteq> [] then file_Write outfd (xor_stream blk iv pos buf) else ret ()) (\<lambda>_.
       if eof then ret () else encrypt_loop n blk iv (pos + length buf) infd outfd))"

text \<open>Every turn of the loop but the last reads at least a byte.\<close>

definition read_fuel :: "nat \<Rightarrow> ('x, 'm) world_scheme \<Rightarrow> nat" where
  "read_fuel fd w = (case w_fds w fd of
     Some h \<Rightarrow> (case fs_get (w_fs w) (h_path h) of Some (File c _) \<Rightarrow> Suc (length c) | _ \<Rightarrow> 1)
   | None \<Rightarrow> 1)"

definition encryptFile ::
  "nat \<Rightarrow> nat \<Rightarrow> block_fn \<Rightarrow> byte list \<Rightarrow> (('x, 'm) world_scheme, unit) go" where
  "encryptFile infd outfd blk iv =
     bnd (asks (read_fuel infd)) (\<lambda>n.
     bnd (encrypt_loop n blk iv 0 infd outfd) (\<lambda>_.
       wrapE ''could not append iv'' (file_Write outfd iv)))"

definition Encrypt ::
  "(byte list \<Rightarrow> block_fn) \<Rightarrow> encrypter \<Rightarrow> string \<Rightarrow> (('x, 'm) world_scheme, string) go" where
  "Encrypt aes e inputPath =
     (let output = inputPath @ enc_suffix in
      bnd (os_Open inputPath) (\<lambda>infile. deferred (file_Close infile)
      (bnd (liftR (createCipher aes e)) (\<lambda>blk.
       bnd generateIV (\<lambda>iv.
       bnd (openOutputFile output) (\<lambda>outfile. deferred (file_Close outfile)
       (bnd (encryptFile infile outfile blk iv) (\<lambda>_.
        bnd (attempt (os_Remove inputPath)) (\<lambda>_.
        ret output)))))))))"

definition readIVAndMessageLength :: "nat \<Rightarrow> (('x, 'm) world_scheme, byte list \<times> int) go" where
  "readIVAndMessageLength infd =
     bnd (file_Size infd) (\<lambda>size.
      let msgLen = size - int aes_BlockSize in
      bnd (file_ReadAt infd aes_BlockSize msgLen) (\<lambda>iv. ret (iv, msgLen)))"

fun decrypt_loop ::
  "nat \<Rightarrow> block_fn \<Rightarrow> byte list \<Rightarrow> nat \<Rightarrow> int \<Rightarrow> nat \<Rightarrow> nat \<Rightarrow> (('x, 'm) world_scheme, unit) go" where
  "decrypt_loop 0 blk iv pos msgLen infd outfd = fail Diverges"
| "decrypt_loop (Suc n) blk iv pos msgLen infd outfd =
     bnd (wrapE ''error reading from file (0 bytes read)'' (file_Read infd bufsize)) (\<lambda>(buf, eof).
     let n' = (if buf \<noteq> [] \<and> int (length buf) > msgLen then msgLen else int (length buf)) in
     if n' < 0 then fail (Panic ''slice bounds out of range'')
     else let bs = take (nat n') buf in
     bnd (if buf \<noteq> [] then file_Write outfd (xor_stream blk iv pos bs) else ret ()) (\<lambda>_.
       if eof then ret () else decrypt_loop n blk iv (pos + length bs) (msgLen - n') infd outfd))"

definition decryptFile ::
  "nat \<Rightarrow> nat \<Rightarrow> block_fn \<Rightarrow> byte list \<Rightarrow> int \<Rightarrow> (('x, 'm) world_scheme, unit) go" where
  "decryptFile infd outfd blk iv msgLen =
     bnd (asks (read_fuel infd)) (\<lambda>n. decrypt_loop n blk iv 0 msgLen infd outfd)"

definition Decrypt ::
  "(byte list \<Rightarrow> block_fn) \<Rightarrow> encrypter \<Rightarrow> string \<Rightarrow> (('x, 'm) world_scheme, string) go" where
  "Decrypt aes e inputPath =
     (let output = strings_TrimSuffix inputPath enc_suffix in
      if \<not> IsEncrypted inputPath then fail (ErrText ''input is not encrypted'')
      else
      bnd (os_Open inputPath) (\<lambda>infile. deferred (file_Close infile)
      (bnd (liftR (createCipher aes e)) (\<lambda>blk.
       bnd (readIVAndMessageLength infile) (\<lambda>(iv, msgLen).
       bnd (openOutputFile output) (\<lambda>outfile.
       bnd (decryptFile infile outfile blk iv msgLen) (\<lambda>_.
       bnd (attempt (os_Remove inputPath)) (\<lambda>_.
       ret output))))))))"

section \<open>What the loops do\<close>


lemma length_overwrite: "k \<le> length c \<Longrightarrow> length (overwrite c k bs) = max (length c) (k + length bs)"
  by (auto simp: overwrite_def)

lemma overwrite_append:
  assumes "k \<le> length c"
  shows "overwrite (overwrite c k a) (k + length a) b = overwrite c k (a @ b)"
proof -
  have 1: "k - length c = 0" "k + length a - length (overwrite c k a) = 0"
    using assms length_overwrite [OF assms, of a] by simp_all
  have "take (k + length a) (overwrite c k a) = take k c @ a"
    using assms by (simp add: overwrite_def)
  moreover have "drop (k + length a + length b) (overwrite c k a) = drop (k + length a + length b) c"
    using assms by (simp add: overwrite_def add.commute add.left_commute)
  ultimately show ?thesis
    using 1 by (simp add: overwrite_def [of "overwrite c k a"] overwrite_def [of c k "a @ b"] add.assoc)
qed

lemma same_encrypt_loop [keeps]: "same surroundings (encrypt_loop n blk iv pos i q)"
proof (induction n arbitrary: pos)
  case (Suc n)
  show ?case unfolding encrypt_loop.simps by (intro keeps Suc)
qed (simp add: keeps)

lemma same_decrypt_loop [keeps]: "same surroundings (decrypt_loop n blk iv pos k i q)"
proof (induction n arbitrary: pos k)
  case (Suc n)
  show ?case unfolding decrypt_loop.simps Let_def by (intro keeps Suc)
qed (simp add: keeps)

text \<open>The situation at the head of both loops: \<open>i\<close> is open for reading a file \<open>c\<close>, \<open>q\<close> for
  writing another file, which holds \<open>d\<close>.\<close>

definition at_work ::
  "nat \<Rightarrow> handle \<Rightarrow> byte list \<Rightarrow> nat \<Rightarrow> handle \<Rightarrow> byte list \<Rightarrow> ('x, 'm) world_scheme \<Rightarrow> bool" where
  "at_work i hi c q hq d w \<longleftrightarrow>
     w_fds w i = Some hi \<and> h_rd hi \<and> w_fds w q = Some hq \<and> h_wr hq \<and> i \<noteq> q \<and>
     h_path hi \<noteq> h_path hq \<and> h_path hq \<noteq> [] \<and> h_off hi \<le> length c \<and> h_off hq \<le> length d \<and>
     (\<exists>t. fs_get (w_fs w) (h_path hi) = Some (File c t)) \<and>
     (\<exists>t. fs_get (w_fs w) (h_path hq) = Some (File d t))"

text \<open>What a loop leaves: the file behind \<open>q\<close> holds \<open>d'\<close>, and \<open>q\<close> stands behind \<open>n\<close> more bytes.\<close>

definition wrote ::
  "nat \<Rightarrow> nat \<Rightarrow> handle \<Rightarrow> nat \<Rightarrow> byte list \<Rightarrow> ('x, 'm) world_scheme \<Rightarrow> ('x, 'm) world_scheme \<Rightarrow> bool" where
  "wrote i q hq n d' w w' \<longleftrightarrow>
     (\<exists>t. fs_get (w_fs w') = (fs_get (w_fs w))(h_path hq \<mapsto> File d' t)) \<and>
     (\<exists>hi. w_fds w' = (w_fds w)(i := hi, q \<mapsto> hq\<lparr>h_off := h_off hq + n\<rparr>)) \<and> w_nfd w' = w_nfd w"

lemma wrote_here:
  assumes "at_work i hi c q hq d w"
    and "w_fs w' = w_fs w" "w_nfd w' = w_nfd w" "w_fds w' = (w_fds w)(i := x)"
  shows "wrote i q hq 0 d w w'"
proof -
  from assms(1) obtain t where t: "fs_get (w_fs w) (h_path hq) = Some (File d t)" and q: "w_fds w q = Some hq" "i \<noteq> q"
    by (auto simp: at_work_def)
  have "fs_get (w_fs w') = (fs_get (w_fs w))(h_path hq \<mapsto> File d t)" by (simp add: assms t fun_upd_idem)
  moreover have "w_fds w' = (w_fds w)(i := x, q \<mapsto> hq\<lparr>h_off := h_off hq + 0\<rparr>)"
    using assms(4) q by (simp add: fun_upd_idem)
  ultimately show ?thesis using assms(3) unfolding wrote_def by blast
qed

lemma wrote_trans:
  assumes "wrote i q hq n d1 w w1" "wrote i q (hq\<lparr>h_off := h_off hq + n\<rparr>) m d2 w1 w2"
  shows "wrote i q hq (n + m) d2 w w2"
  using assms unfolding wrote_def by (auto simp: add.assoc fun_upd_twist)

text \<open>One turn: a read, and a write of as many bytes.\<close>

lemma meets_turn:
  fixes w :: "('x, 'm) world_scheme"
  assumes w: "at_work i hi c q hq d w"
    and more: "\<And>buf w1. wrote i q hq (length (f buf)) (overwrite d (h_off hq) (f buf)) w w1 \<Longrightarrow>
       at_work i (hi\<lparr>h_off := h_off hi + length buf\<rparr>) c q (hq\<lparr>h_off := h_off hq + length (f buf)\<rparr>)
         (overwrite d (h_off hq) (f buf)) w1 \<Longrightarrow> buf \<noteq> [] \<Longrightarrow>
       buf = take (length buf) (drop (h_off hi) c) \<Longrightarrow> meets (k (buf, False)) Q w1"
    and last: "\<And>w1. wrote i q hq 0 d w w1 \<Longrightarrow> h_off hi = length c \<Longrightarrow> meets (k ([], True)) Q w1"
  shows "meets (bnd (wrapE s (file_Read i bufsize)) (\<lambda>(buf, eof).
     bnd (if buf \<noteq> [] then file_Write q (f buf) else ret ()) (\<lambda>_. k (buf, eof)))) Q w"
proof -
  from w obtain t where i: "w_fds w i = Some hi" "h_rd hi" "fs_get (w_fs w) (h_path hi) = Some (File c t)"
    by (auto simp: at_work_def)
  have cap: "bufsize > 0" by (simp add: bufsize_def)
  show ?thesis
  proof (rule meets_bnd [OF meets_wrapE [OF meets_Read [OF i cap]]])
    show "same w_fault (wrapE s (file_Read i bufsize))" by (intro keeps)
    fix x and w1 :: "('x, 'm) world_scheme"
    assume R: "(case x of (bs, eof) \<Rightarrow> \<lambda>w'. w_fs w' = w_fs w \<and> w_nfd w' = w_nfd w \<and>
       w_fds w' = (w_fds w)(i \<mapsto> hi\<lparr>h_off := h_off hi + length bs\<rparr>) \<and>
       bs = take (length bs) (drop (h_off hi) c) \<and> length bs \<le> bufsize \<and>
       (eof \<longleftrightarrow> drop (h_off hi) c = []) \<and> (bs = [] \<longleftrightarrow> eof)) w1"
    obtain buf eof where x: "x = (buf, eof)" by fastforce
    from R have R: "w_fs w1 = w_fs w" "w_nfd w1 = w_nfd w"
       "w_fds w1 = (w_fds w)(i \<mapsto> hi\<lparr>h_off := h_off hi + length buf\<rparr>)"
       "buf = take (length buf) (drop (h_off hi) c)" "eof \<longleftrightarrow> drop (h_off hi) c = []" "buf = [] \<longleftrightarrow> eof"
      unfolding x by auto
    show "meets (case x of (buf, eof) \<Rightarrow>
       bnd (if buf \<noteq> [] then file_Write q (f buf) else ret ()) (\<lambda>_. k (buf, eof))) Q w1"
    proof (cases "buf = []")
      case True
      then have "eof" "h_off hi = length c" using R(5,6) w by (auto simp: at_work_def)
      then show ?thesis using True last wrote_here [OF w R(1-3)] by (simp add: x)
    next
      case False
      have q: "w_fds w1 q = Some hq" "h_wr hq" "h_path hq \<noteq> []"
        using w R(3) by (auto simp: at_work_def)
      obtain s where s: "fs_get (w_fs w1) (h_path hq) = Some (File d s)"
        using w R(1) by (auto simp: at_work_def)
      have "eof = False" using False R(6) by simp
      moreover have "meets (bnd (file_Write q (f buf)) (\<lambda>_. k (buf, False))) Q w1"
      proof (rule meets_bnd [OF meets_Write [OF q(1,2) s q(3)]])
        show "same w_fault (file_Write q (f buf))" by (intro keeps)
        fix u and w2 :: "('x, 'm) world_scheme"
        assume W: "(\<exists>t'. fs_get (w_fs w2) = (fs_get (w_fs w1))(h_path hq \<mapsto> File (overwrite d (h_off hq) (f buf)) t')) \<and>
          w_fds w2 = (w_fds w1)(q \<mapsto> hq\<lparr>h_off := h_off hq + length (f buf)\<rparr>) \<and> w_nfd w2 = w_nfd w1"
        have "length buf \<le> length c - h_off hi" using R(4) by (metis length_drop length_take min.cobounded1 min.commute)
        moreover have "h_off hi \<le> length c" using w by (simp add: at_work_def)
        ultimately have len: "h_off hi + length buf \<le> length c" by linarith
        show "meets (k (buf, False)) Q w2"
        proof (rule more [OF _ _ False R(4)])
          show "wrote i q hq (length (f buf)) (overwrite d (h_off hq) (f buf)) w w2"
            using W R(1-3) unfolding wrote_def by auto
          show "at_work i (hi\<lparr>h_off := h_off hi + length buf\<rparr>) c q (hq\<lparr>h_off := h_off hq + length (f buf)\<rparr>)
              (overwrite d (h_off hq) (f buf)) w2"
            using W R(1-3) w len unfolding at_work_def by (auto simp: length_overwrite)
        qed
      qed
      ultimately show ?thesis using False by (simp add: x)
    qed
  qed
qed

lemma meets_encrypt_loop:
  assumes "at_work i hi c q hq d w" "length c - h_off hi < n"
  shows "meets (encrypt_loop n blk iv pos i q) (\<lambda>_. wrote i q hq (length c - h_off hi)
     (overwrite d (h_off hq) (xor_stream blk iv pos (drop (h_off hi) c))) w) w"
  using assms
proof (induction n arbitrary: w hi hq d pos)
  case (Suc n)
  have k: "(\<lambda>_. if eof then ret () else encrypt_loop n blk iv (pos + length buf) i q) =
     (\<lambda>_. (\<lambda>(buf, eof). if eof then ret () else encrypt_loop n blk iv (pos + length buf) i q) (buf, eof))"
    for buf eof by simp
  show ?case unfolding encrypt_loop.simps
  proof (subst k, rule meets_turn [OF Suc.prems(1)], goal_cases)
    case (1 buf w1)
    let ?f = "xor_stream blk iv pos buf" and ?d = "overwrite d (h_off hq) (xor_stream blk iv pos buf)"
    have len: "h_off hi + length buf \<le> length c" using 1(2) by (simp add: at_work_def)
    have cut: "drop (h_off hi) c = buf @ drop (h_off hi + length buf) c"
      using 1(4) by (metis append_take_drop_id drop_drop add.commute)
    have "h_off hq \<le> length d" using Suc.prems(1) by (simp add: at_work_def)
    then have eq: "overwrite ?d (h_off hq + length ?f) (xor_stream blk iv (pos + length buf) (drop (h_off hi + length buf) c))
        = overwrite d (h_off hq) (xor_stream blk iv pos (drop (h_off hi) c))"
      by (simp add: overwrite_append cut xor_stream_append del: length_xor_stream)
    have fuel: "length c - h_off (hi\<lparr>h_off := h_off hi + length buf\<rparr>) < n"
      using Suc.prems(2) 1(3) len by (cases buf) auto
    have sum: "length ?f + (length c - (h_off hi + length buf)) = length c - h_off hi" using len by simp
    have "meets (encrypt_loop n blk iv (pos + length buf) i q)
      (\<lambda>_. wrote i q (hq\<lparr>h_off := h_off hq + length ?f\<rparr>) (length c - (h_off hi + length buf))
        (overwrite d (h_off hq) (xor_stream blk iv pos (drop (h_off hi) c))) w1) w1"
      using Suc.IH [OF 1(2) fuel, of "pos + length buf"] by (simp add: eq [simplified])
    then show ?case
      by (simp, elim meets_mono) (drule wrote_trans [OF 1(1)], simp only: sum)
  next
    case (2 w1)
    have "h_off hq \<le> length d" using Suc.prems(1) by (simp add: at_work_def)
    then show ?case using 2 by (auto intro!: meets_ret simp: overwrite_Nil)
  qed
qed simp

lemma decrypt_loop_Suc:
  assumes "0 \<le> msgLen"
  shows "decrypt_loop (Suc n) blk iv pos msgLen i q =
     bnd (wrapE ''error reading from file (0 bytes read)'' (file_Read i bufsize)) (\<lambda>(buf, eof).
     bnd (if buf \<noteq> [] then file_Write q (xor_stream blk iv pos (take (nat msgLen) buf)) else ret ()) (\<lambda>_.
       (\<lambda>(buf, eof). if eof then ret () else decrypt_loop n blk iv (pos + length (take (nat msgLen) buf))
         (msgLen - int (length (take (nat msgLen) buf))) i q) (buf, eof)))"
proof -
  have n': "(if buf \<noteq> [] \<and> int (length buf) > msgLen then msgLen else int (length buf))
      = int (length (take (nat msgLen) buf))" for buf :: "byte list"
    using assms by auto
  have t: "take (nat (int (length (take (nat msgLen) buf)))) buf = take (nat msgLen) buf" for buf :: "byte list"
    by (simp add: min_def)
  show ?thesis unfolding decrypt_loop.simps Let_def n' t by simp
qed

lemma meets_decrypt_loop:
  assumes "at_work i hi c q hq d w" "length c - h_off hi < n" "0 \<le> msgLen"
  shows "meets (decrypt_loop n blk iv pos msgLen i q) (\<lambda>_. wrote i q hq
     (length (take (nat msgLen) (drop (h_off hi) c)))
     (overwrite d (h_off hq) (xor_stream blk iv pos (take (nat msgLen) (drop (h_off hi) c)))) w) w"
  using assms
proof (induction n arbitrary: w hi hq d pos msgLen)
  case (Suc n)
  show ?case unfolding decrypt_loop_Suc [OF Suc.prems(3)]
  proof (rule meets_turn [OF Suc.prems(1)], goal_cases)
    case (1 buf w1)
    let ?b = "take (nat msgLen) buf" and ?r = "drop (h_off hi + length buf) c"
    let ?f = "xor_stream blk iv pos ?b" and ?m = "msgLen - int (length (take (nat msgLen) buf))"
    have len: "h_off hi + length buf \<le> length c" using 1(2) by (simp add: at_work_def)
    have cut: "drop (h_off hi) c = buf @ ?r"
      using 1(4) by (metis append_take_drop_id drop_drop add.commute)
    have m: "nat ?m = nat msgLen - length ?b" "0 \<le> ?m" using Suc.prems(3) by auto
    have rest: "?b @ take (nat ?m) ?r = take (nat msgLen) (drop (h_off hi) c)"
      unfolding cut m(1) by (cases "nat msgLen \<le> length buf") simp_all
    have "h_off hq \<le> length d" using Suc.prems(1) by (simp add: at_work_def)
    then have eq: "overwrite (overwrite d (h_off hq) ?f) (h_off hq + length ?f)
        (xor_stream blk iv (pos + length ?b) (take (nat ?m) ?r))
        = overwrite d (h_off hq) (xor_stream blk iv pos (take (nat msgLen) (drop (h_off hi) c)))"
      unfolding rest [symmetric] xor_stream_append by (rule overwrite_append)
    have fuel: "length c - h_off (hi\<lparr>h_off := h_off hi + length buf\<rparr>) < n"
      using Suc.prems(2) 1(3) len by (cases buf) auto
    have sum: "length ?f + length (take (nat ?m) ?r) = length (take (nat msgLen) (drop (h_off hi) c))"
      unfolding rest [symmetric] by simp
    have "meets (decrypt_loop n blk iv (pos + length ?b) ?m i q)
      (\<lambda>_. wrote i q (hq\<lparr>h_off := h_off hq + length ?f\<rparr>) (length (take (nat ?m) ?r))
        (overwrite d (h_off hq) (xor_stream blk iv pos (take (nat msgLen) (drop (h_off hi) c)))) w1) w1"
      using Suc.IH [OF 1(2) fuel m(2), of "pos + length ?b"] unfolding eq [symmetric] by simp
    then show ?case
      unfolding prod.case if_False
      by (elim meets_mono) (drule wrote_trans [OF 1(1)], simp only: sum)
  next
    case (2 w1)
    have "h_off hq \<le> length d" using Suc.prems(1) by (simp add: at_work_def)
    then show ?case using 2 by (auto intro!: meets_ret simp: overwrite_Nil)
  qed
qed simp

section \<open>Encrypting and decrypting a file\<close>

text \<open>A key, and a file to encrypt, for concrete runs.\<close>

definition a_key :: encrypter where
  "a_key = \<lparr>enc_key = replicate 32 (CHR ''k'')\<rparr>"

definition a_file :: string where
  "a_file = ''/t/f''"

lemma a_file_split: "a_file = ''/t'' @ slash # ''f''" "plain_name ''f''" "resolve a_file = [''t'', ''f'']"
  "resolve (a_file @ enc_suffix) = [''t'', ''f.aes'']"
  by (simp_all add: a_file_def plain_name_def resolve_def enc_suffix_def)

lemma a_key_length: "length (enc_key a_key) = 32"
  by (simp add: a_key_def)

lemma same_Encrypt [keeps]: "same surroundings (Encrypt aes e p)"
  unfolding Encrypt_def Let_def generateIV_def openOutputFile_def encryptFile_def by (intro keeps) simp_all

lemma same_Decrypt [keeps]: "same surroundings (Decrypt aes e p)"
  unfolding Decrypt_def Let_def readIVAndMessageLength_def openOutputFile_def decryptFile_def
  by (intro keeps) simp_all

lemma os_Remove_Inl: "os_Remove p w = (Inl e, w') \<Longrightarrow> w_fs w' = w_fs w"
  by (auto simp: os_Remove_def sysE_def sys_def Let_def fail_def split: option.splits sum.splits node.splits if_splits)

lemma plain_name_append: "plain_name n \<Longrightarrow> slash \<notin> set e \<Longrightarrow> 2 \<le> length e \<Longrightarrow> plain_name (n @ e)"
proof -
  assume "plain_name n" "slash \<notin> set e" "2 \<le> length e"
  moreover from this have "length (n @ e) > 2" by (cases n) (auto simp: plain_name_def)
  then have "n @ e \<noteq> ''.''" "n @ e \<noteq> ''..''" by (auto simp del: length_append)
  ultimately show ?thesis by (auto simp: plain_name_def)
qed

lemma plain_enc [simp]: "plain_name n \<Longrightarrow> plain_name (n @ enc_suffix)"
  by (rule plain_name_append) (simp_all add: enc_suffix_def)

lemma IsEncrypted_suffix [simp]: "IsEncrypted (p @ enc_suffix)"
  by (simp add: IsEncrypted_def enc_suffix_def Ext_append [where e = "''aes''", simplified])

definition cipher_of :: "(byte list \<Rightarrow> block_fn) \<Rightarrow> encrypter \<Rightarrow> block_fn" where
  "cipher_of aes e = aes (map (\<lambda>c. of_nat (of_char c)) (enc_key e))"

lemma createCipher_ok: "length (enc_key e) = 32 \<Longrightarrow> createCipher aes e = Inr (cipher_of aes e)"
  by (simp add: createCipher_def cipher_of_def)

lemma read_fuel_at: "at_work i hi c q hq d w \<Longrightarrow> read_fuel i w = Suc (length c)"
  by (auto simp: read_fuel_def at_work_def)

lemma meets_encryptFile:
  assumes "at_work i hi c q hq d w" "h_off hi = 0" "h_off hq = 0"
  shows "meets (encryptFile i q blk iv) (\<lambda>_ w'. \<exists>t.
     fs_get (w_fs w') = (fs_get (w_fs w))(h_path hq \<mapsto> File (overwrite d 0 (xor_stream blk iv 0 c @ iv)) t)) w"
proof -
  let ?x = "xor_stream blk iv 0 c"
  have fuel: "length c - h_off hi < Suc (length c)" by simp
  have "meets (bnd (encrypt_loop (Suc (length c)) blk iv 0 i q) (\<lambda>_. wrapE ''could not append iv'' (file_Write q iv)))
    (\<lambda>_ w'. \<exists>t. fs_get (w_fs w') = (fs_get (w_fs w))(h_path hq \<mapsto> File (overwrite d 0 (?x @ iv)) t)) w"
  proof (rule meets_bnd [OF meets_encrypt_loop [OF assms(1) fuel]])
    show "same w_fault (encrypt_loop (Suc (length c)) blk iv 0 i q)" by (intro keeps)
    fix u w1
    assume "wrote i q hq (length c - h_off hi) (overwrite d (h_off hq) (xor_stream blk iv 0 (drop (h_off hi) c))) w w1"
    then obtain t hi' where W: "fs_get (w_fs w1) = (fs_get (w_fs w))(h_path hq \<mapsto> File (overwrite d 0 ?x) t)"
      "w_fds w1 = (w_fds w)(i := hi', q \<mapsto> hq\<lparr>h_off := length c\<rparr>)"
      using assms(2,3) by (auto simp: wrote_def)
    have q: "w_fds w1 q = Some (hq\<lparr>h_off := length c\<rparr>)" "h_wr (hq\<lparr>h_off := length c\<rparr>)"
      "fs_get (w_fs w1) (h_path (hq\<lparr>h_off := length c\<rparr>)) = Some (File (overwrite d 0 ?x) t)"
      "h_path (hq\<lparr>h_off := length c\<rparr>) \<noteq> []"
      using W assms(1) by (auto simp: at_work_def)
    have eq: "overwrite (overwrite d 0 ?x) (length c) iv = overwrite d 0 (?x @ iv)"
      using overwrite_append [of 0 d ?x iv] by simp
    show "meets (wrapE ''could not append iv'' (file_Write q iv))
      (\<lambda>_ w'. \<exists>t. fs_get (w_fs w') = (fs_get (w_fs w))(h_path hq \<mapsto> File (overwrite d 0 (?x @ iv)) t)) w1"
      by (rule meets_wrapE, rule meets_mono [OF meets_Write [OF q]]) (auto simp: W(1) eq)
  qed
  then show ?thesis
    unfolding encryptFile_def
    by (intro meets_bnd [OF meets_asks [where Q = "\<lambda>n w'. n = Suc (length c) \<and> w' = w"]])
      (auto simp: read_fuel_at [OF assms(1)] intro!: keeps)
qed

lemma meets_decryptFile:
  assumes "at_work i hi c q hq d w" "h_off hi = 0" "h_off hq = 0" "0 \<le> msgLen"
  shows "meets (decryptFile i q blk iv msgLen) (\<lambda>_ w'. \<exists>t.
     fs_get (w_fs w') = (fs_get (w_fs w))(h_path hq \<mapsto>
       File (overwrite d 0 (xor_stream blk iv 0 (take (nat msgLen) c))) t)) w"
proof -
  have "meets (decrypt_loop (Suc (length c)) blk iv 0 msgLen i q)
    (\<lambda>_ w'. \<exists>t. fs_get (w_fs w') = (fs_get (w_fs w))(h_path hq \<mapsto>
       File (overwrite d 0 (xor_stream blk iv 0 (take (nat msgLen) c))) t)) w"
    using assms(2,3) meets_decrypt_loop [OF assms(1) _ assms(4), of "Suc (length c)" blk iv 0]
    by (auto simp: wrote_def elim!: meets_mono)
  then show ?thesis
    unfolding decryptFile_def
    by (intro meets_bnd [OF meets_asks [where Q = "\<lambda>n w'. n = Suc (length c) \<and> w' = w"]])
      (auto simp: read_fuel_at [OF assms(1)] intro!: keeps)
qed

text \<open>Removing the input: its failure is only logged.\<close>

lemma meets_drop_input:
  assumes "parents_ok (w_fs w) (resolve p)" "fs_get (w_fs w) (resolve p) = Some (File c t)"
    and "\<And>w'. fs_get (w_fs w') = (fs_get (w_fs w))(resolve p := None) \<Longrightarrow> Q w'"
    and "\<And>w'. fs_get (w_fs w') = fs_get (w_fs w) \<Longrightarrow> \<not> quiet w \<Longrightarrow> Q w'"
  shows "meets (bnd (attempt (os_Remove p)) (\<lambda>_. ret x)) (\<lambda>y w'. y = x \<and> Q w') w"
proof (rule meets_bnd [where R = "\<lambda>_. Q"])
  show "meets (attempt (os_Remove p)) (\<lambda>_. Q) w"
  proof (rule meets_attempt)
    show "meets (os_Remove p) (\<lambda>_. Q) w"
      by (rule meets_mono [OF meets_Remove_file [OF assms(1,2)]]) (use assms(3) in blast)
    show "Q w'" if "os_Remove p w = (Inl e, w')" "\<not> quiet w" for e w'
      using os_Remove_Inl [OF that(1)] assms(4) that(2) by simp
  qed
qed (auto intro: keeps meets_ret)

lemma sibling:
  assumes "p = d @ slash # n" "plain_name n"
  shows "resolve (p @ enc_suffix) = resolve d @ [n @ enc_suffix]" "resolve p = resolve d @ [n]"
    "resolve (p @ enc_suffix) \<noteq> resolve p"
    "parents_ok f (resolve (p @ enc_suffix)) = parents_ok f (resolve p)"
proof -
  show *: "resolve (p @ enc_suffix) = resolve d @ [n @ enc_suffix]" "resolve p = resolve d @ [n]"
    using assms plain_enc [OF assms(2)] by simp_all
  show "resolve (p @ enc_suffix) \<noteq> resolve p" unfolding * by (simp add: enc_suffix_def)
  show "parents_ok f (resolve (p @ enc_suffix)) = parents_ok f (resolve p)"
    unfolding * by (simp add: parents_ok_snoc)
qed

text \<open>
  A successful \<open>Encrypt\<close> has written the cipher text and the vector over the beginning of the
  output file: what an older, longer output file held behind them is still there.
\<close>

lemma meets_Encrypt:
  fixes w :: "('x, 'm) world_scheme"
  assumes p: "p = d @ slash # n" "plain_name n" and par: "parents_ok (w_fs w) (resolve p)"
    and src: "fs_get (w_fs w) (resolve p) = Some (File c t)"
    and out: "\<not> is_dir (fs_get (w_fs w) (resolve (p @ enc_suffix)))"
    and key: "length (enc_key e) = 32"
  shows "meets (Encrypt aes e p) (\<lambda>y w'. y = p @ enc_suffix \<and> (\<exists>iv s v.
     length iv = aes_BlockSize \<and> (v = None \<or> v = Some (File c t) \<and> \<not> quiet w) \<and>
     fs_get (w_fs w') = (fs_get (w_fs w))(resolve (p @ enc_suffix) \<mapsto>
       File (overwrite (opened False (fs_get (w_fs w) (resolve (p @ enc_suffix)))) 0
         (xor_stream (cipher_of aes e) iv 0 c @ iv)) s, resolve p := v))) w"
    (is "meets _ (\<lambda>y w'. y = ?out \<and> ?Q w') w")
proof -
  note sib = sibling [OF p] and k = createCipher_ok [OF key]
  have parout: "parents_ok (w_fs w) (resolve ?out)" using par sib by simp
  have outne: "resolve ?out \<noteq> []" using sib by simp
  show ?thesis
    unfolding Encrypt_def Let_def k liftR_simps bnd_ret
  proof (rule meets_bnd [OF meets_Open [OF par src]], intro keeps, rule meets_deferred, goal_cases)
    case (1 i w1)
    then have w1: "w_fs w1 = w_fs w" "i = w_nfd w" "w_nfd w1 = Suc i" "quiet w1 = quiet w"
      "w_fds w1 i = Some \<lparr>h_path = resolve p, h_off = 0, h_rd = True, h_wr = False\<rparr>" by auto
    show ?case unfolding generateIV_def
    proof (rule meets_bnd [OF meets_conj [OF meets_rand meets_rand]], intro keeps, goal_cases)
      case (1 iv w2)
      then have w2: "w_fs w2 = w_fs w" "w_nfd w2 = Suc i" "length iv = aes_BlockSize"
        "w_fds w2 i = w_fds w1 i" "quiet w2 = quiet w" using w1 by auto
      have open2: "parents_ok (w_fs w2) (resolve ?out)" "\<not> is_dir (fs_get (w_fs w2) (resolve ?out))"
        using w2 parout out by simp_all
      let ?old = "opened False (fs_get (w_fs w) (resolve ?out))"
      show ?case unfolding openOutputFile_def
      proof (rule meets_bnd [OF meets_open_write [OF open2]], intro keeps, rule meets_deferred, goal_cases)
        case (1 q w3)
        then obtain s where w3: "q = Suc i"
          "fs_get (w_fs w3) = (fs_get (w_fs w))(resolve ?out \<mapsto> File ?old s)"
          "w_fds w3 q = Some \<lparr>h_path = resolve ?out, h_off = 0, h_rd = True, h_wr = True\<rparr>"
          "w_fds w3 i = w_fds w1 i" "quiet w3 = quiet w"
          using w2 by auto
        let ?hi = "\<lparr>h_path = resolve p, h_off = 0, h_rd = True, h_wr = False\<rparr>"
        let ?hq = "\<lparr>h_path = resolve ?out, h_off = 0, h_rd = True, h_wr = True\<rparr>"
        have at: "at_work i ?hi c q ?hq ?old w3"
          using w3 w1(5) src sib outne by (auto simp: at_work_def)
        show ?case
        proof (rule meets_bnd [OF meets_encryptFile [OF at]], goal_cases)
          case 3
          show ?case unfolding encryptFile_def by (intro keeps)
        next
          case (4 u w4)
          let ?new = "overwrite ?old 0 (xor_stream (cipher_of aes e) iv 0 c @ iv)"
          from 4 obtain r where w4: "fs_get (w_fs w4) = (fs_get (w_fs w))(resolve ?out \<mapsto> File ?new r)"
            using w3(2) by auto
          have in4: "fs_get (w_fs w4) (resolve p) = Some (File c t)" using w4 src sib(3) by auto
          have par4: "parents_ok (w_fs w4) (resolve p)"
            using par out by (auto simp: w4 parents_ok_iff)
          have quiet: "quiet w4 = quiet w" using 4(2) w3(5) by simp
          have left: "fs_get (w_fs w4) = (fs_get (w_fs w4))(resolve p \<mapsto> File c t)"
            using in4 by (simp add: fun_upd_idem)
          have fin: "?Q w'" if "fs_get (w_fs w') = (fs_get (w_fs w4))(resolve p := v)"
            "v = None \<or> v = Some (File c t) \<and> \<not> quiet w" for w' v
            by (rule exI [of _ iv], rule exI [of _ r], rule exI [of _ v]) (use that w2(3) w4 in simp)
          show ?case
          proof (rule meets_drop_input [OF par4 in4], goal_cases)
            case (1 w5)
            show ?case unfolding fs_fields by (rule fin [OF 1]) simp
          next
            case (2 w5)
            then have "fs_get (w_fs w5) = (fs_get (w_fs w4))(resolve p \<mapsto> File c t)" using left by simp
            then show ?case unfolding fs_fields by (rule fin) (use 2(2) quiet in simp)
          qed
        qed simp_all
      qed
    qed
  qed
qed

lemma meets_readIV:
  assumes "w_fds w i = Some h" "h_rd h" "fs_get (w_fs w) (h_path h) = Some (File c t)" "aes_BlockSize \<le> length c"
  shows "meets (readIVAndMessageLength i) (\<lambda>(iv, n) w'. iv = drop (length c - aes_BlockSize) c \<and>
     n = int (length c - aes_BlockSize) \<and> w_fs w' = w_fs w \<and> w_nfd w' = w_nfd w \<and> w_fds w' = w_fds w) w"
  unfolding readIVAndMessageLength_def Let_def
proof (rule meets_bnd [OF meets_Size [OF assms(1,3)]], intro keeps, goal_cases)
  case (1 n w1)
  then have h: "w_fds w1 i = Some h" "fs_get (w_fs w1) (h_path h) = Some (File c t)" using assms by simp_all
  have off: "0 \<le> n - int aes_BlockSize" "nat (n - int aes_BlockSize) + aes_BlockSize \<le> length c"
    using 1(1) assms(4) by simp_all
  have eq: "nat (n - int aes_BlockSize) = length c - aes_BlockSize" "n - int aes_BlockSize = int (length c - aes_BlockSize)"
    using 1(1) assms(4) by (simp_all add: of_nat_diff nat_diff_distrib)
  show ?case
  proof (rule meets_bnd [OF meets_ReadAt [OF h(1) assms(2) h(2) off]], intro keeps, goal_cases)
    case (1 iv w2)
    then show ?case using \<open>n = _ \<and> _\<close> eq assms(4) by (auto intro!: meets_ret)
  qed
qed

text \<open>
  A successful \<open>Decrypt\<close> has written the plain text over the beginning of the output file, the
  input name without the suffix.
\<close>

lemma meets_Decrypt:
  fixes w :: "('x, 'm) world_scheme"
  assumes p: "p = d @ slash # n" "plain_name n" and par: "parents_ok (w_fs w) (resolve p)"
    and src: "fs_get (w_fs w) (resolve (p @ enc_suffix)) = Some (File c t)"
    and out: "\<not> is_dir (fs_get (w_fs w) (resolve p))"
    and key: "length (enc_key e) = 32" and len: "aes_BlockSize \<le> length c"
  shows "meets (Decrypt aes e (p @ enc_suffix)) (\<lambda>y w'. y = p \<and> (\<exists>s v.
     (v = None \<or> v = Some (File c t) \<and> \<not> quiet w) \<and>
     fs_get (w_fs w') = (fs_get (w_fs w))(resolve p \<mapsto>
       File (overwrite (opened False (fs_get (w_fs w) (resolve p))) 0
         (xor_stream (cipher_of aes e) (drop (length c - aes_BlockSize) c) 0 (take (length c - aes_BlockSize) c))) s,
       resolve (p @ enc_suffix) := v))) w"
    (is "meets _ (\<lambda>y w'. y = p \<and> ?Q w') w")
proof -
  let ?in = "p @ enc_suffix" and ?iv = "drop (length c - aes_BlockSize) c"
  note sib = sibling [OF p] and k = createCipher_ok [OF key]
  have parin: "parents_ok (w_fs w) (resolve ?in)" using par sib by simp
  have pne: "resolve p \<noteq> []" using sib by simp
  have trim: "strings_TrimSuffix ?in enc_suffix = p" by simp
  have not_not_enc: "\<not> \<not> IsEncrypted ?in" by simp
  show ?thesis
    unfolding Decrypt_def Let_def k liftR_simps bnd_ret trim if_not_P [OF not_not_enc]
  proof (rule meets_bnd [OF meets_Open [OF parin src]], intro keeps, rule meets_deferred, goal_cases)
    case (1 i w1)
    let ?hi = "\<lparr>h_path = resolve ?in, h_off = 0, h_rd = True, h_wr = False\<rparr>"
    have w1: "w_fs w1 = w_fs w" "i = w_nfd w" "w_nfd w1 = Suc i" "quiet w1 = quiet w" "w_fds w1 i = Some ?hi"
      using 1 by auto
    have src1: "fs_get (w_fs w1) (h_path ?hi) = Some (File c t)" using w1 src by simp
    show ?case
    proof (rule meets_bnd [OF meets_readIV [OF w1(5) _ src1 len]], simp, goal_cases)
      case 1
      show ?case unfolding readIVAndMessageLength_def Let_def by (intro keeps)
    next
      case (2 x w2)
      then have x: "x = (?iv, int (length c - aes_BlockSize))"
        and w2: "w_fs w2 = w_fs w" "w_nfd w2 = Suc i" "w_fds w2 i = w_fds w1 i" "quiet w2 = quiet w"
        using w1 by auto
      have open2: "parents_ok (w_fs w2) (resolve p)" "\<not> is_dir (fs_get (w_fs w2) (resolve p))"
        using w2 par out by simp_all
      let ?old = "opened False (fs_get (w_fs w) (resolve p))"
      show ?case unfolding openOutputFile_def x prod.case
      proof (rule meets_bnd [OF meets_open_write [OF open2]], intro keeps, goal_cases)
        case (1 q w3)
        then obtain s where w3: "q = Suc i"
          "fs_get (w_fs w3) = (fs_get (w_fs w))(resolve p \<mapsto> File ?old s)"
          "w_fds w3 q = Some \<lparr>h_path = resolve p, h_off = 0, h_rd = True, h_wr = True\<rparr>"
          "w_fds w3 i = w_fds w1 i" "quiet w3 = quiet w"
          using w2 by auto
        let ?hq = "\<lparr>h_path = resolve p, h_off = 0, h_rd = True, h_wr = True\<rparr>"
        have at: "at_work i ?hi c q ?hq ?old w3"
          using w3 w1(5) src sib(3) pne by (auto simp: at_work_def)
        let ?new = "overwrite ?old 0 (xor_stream (cipher_of aes e) ?iv 0 (take (length c - aes_BlockSize) c))"
        show ?case
        proof (rule meets_bnd [OF meets_decryptFile [OF at]], goal_cases)
          case 4
          show ?case unfolding decryptFile_def by (intro keeps)
        next
          case (5 u w4)
          from 5 obtain r where w4: "fs_get (w_fs w4) = (fs_get (w_fs w))(resolve p \<mapsto> File ?new r)"
            using w3(2) by auto
          have in4: "fs_get (w_fs w4) (resolve ?in) = Some (File c t)" using w4 src sib(3) by auto
          have par4: "parents_ok (w_fs w4) (resolve ?in)"
            using parin out by (auto simp: w4 parents_ok_iff)
          have quiet: "quiet w4 = quiet w" using 5(2) w3(5) by simp
          have left: "fs_get (w_fs w4) = (fs_get (w_fs w4))(resolve ?in \<mapsto> File c t)"
            using in4 by (simp add: fun_upd_idem)
          have fin: "?Q w'" if "fs_get (w_fs w') = (fs_get (w_fs w4))(resolve ?in := v)"
            "v = None \<or> v = Some (File c t) \<and> \<not> quiet w" for w' v
            by (rule exI [of _ r], rule exI [of _ v]) (use that w4 in simp)
          show ?case
          proof (rule meets_drop_input [OF par4 in4], goal_cases)
            case (1 w5)
            show ?case unfolding fs_fields by (rule fin [OF 1]) simp
          next
            case (2 w5)
            then have "fs_get (w_fs w5) = (fs_get (w_fs w4))(resolve ?in \<mapsto> File c t)" using left by simp
            then show ?case unfolding fs_fields by (rule fin) (use 2(2) quiet in simp)
          qed
        qed simp_all
      qed
    qed
  qed
qed

section \<open>Properties\<close>

lemma overwrite_same_length: "length bs = length c \<Longrightarrow> overwrite c 0 bs = bs"
  by (simp add: overwrite_start)

text \<open>The two runs in sequence, from a world without the output file.\<close>

lemma meets_roundtrip:
  fixes w :: "('x, 'm) world_scheme"
  assumes p: "p = d @ slash # n" "plain_name n" and par: "parents_ok (w_fs w) (resolve p)"
    and src: "fs_get (w_fs w) (resolve p) = Some (File c t)"
    and out: "fs_get (w_fs w) (resolve (p @ enc_suffix)) = None"
    and key: "length (enc_key e) = 32"
  shows "meets (bnd (Encrypt aes e p) (Decrypt aes e)) (\<lambda>y w'. y = p \<and>
     file_at (w_fs w') (resolve p) = Some c \<and>
     (\<forall>q. q \<noteq> resolve p \<and> q \<noteq> resolve (p @ enc_suffix) \<longrightarrow> fs_get (w_fs w') q = fs_get (w_fs w) q)) w"
proof -
  note sib = sibling [OF p]
  have nodir: "\<not> is_dir (fs_get (w_fs w) (resolve (p @ enc_suffix)))" using out by simp
  show ?thesis
  proof (rule meets_bnd [OF meets_Encrypt [OF p par src nodir key, of aes]], intro keeps, goal_cases)
    case (1 y w1)
    then obtain iv s v where y: "y = p @ enc_suffix" and iv: "length iv = aes_BlockSize"
      and v: "v = None \<or> v = Some (File c t)"
      and fs1: "fs_get (w_fs w1) = (fs_get (w_fs w))(resolve (p @ enc_suffix) \<mapsto>
         File (xor_stream (cipher_of aes e) iv 0 c @ iv) s, resolve p := v)"
      using out by (auto simp: opened_def overwrite_def)
    let ?x = "xor_stream (cipher_of aes e) iv 0 c @ iv"
    have src1: "fs_get (w_fs w1) (resolve (p @ enc_suffix)) = Some (File ?x s)"
      and out1: "\<not> is_dir (fs_get (w_fs w1) (resolve p))"
      using fs1 sib(3) v by auto
    have par1: "parents_ok (w_fs w1) (resolve p)"
      by (rule parents_ok_cong [OF par])
        (use fs1 par src out in \<open>auto simp: parents_ok_iff\<close>)
    have len: "aes_BlockSize \<le> length ?x" using iv by simp
    have old: "opened False v = [] \<or> opened False v = c" using v by (auto simp: opened_def)
    have "meets (Decrypt aes e (p @ enc_suffix)) (\<lambda>y w'. y = p \<and> file_at (w_fs w') (resolve p) = Some c \<and>
     (\<forall>q. q \<noteq> resolve p \<and> q \<noteq> resolve (p @ enc_suffix) \<longrightarrow> fs_get (w_fs w') q = fs_get (w_fs w) q)) w1"
    proof (rule meets_mono [OF meets_Decrypt [OF p par1 src1 out1 key len]], goal_cases)
      case (1 y w2)
      have "overwrite (opened False v) 0 c = c" using old by (auto simp: overwrite_def)
      then show ?case using 1 iv sib(3) by (auto simp: file_at_def fs1)
    qed
    then show ?case by (simp add: y)
  qed
qed

text \<open>C3: decrypting an encrypted file gives the file back under its old name, whatever the block
  function, the vector drawn, the file's length and the sizes of the reads; both calls succeed when
  no system call fails, and under every plan of failures they restore the content if they
  succeed. No other node changes.\<close>

theorem Encrypt_Decrypt:
  assumes "p = d @ slash # n" "plain_name n" "parents_ok (w_fs w) (resolve p)"
    and "fs_get (w_fs w) (resolve p) = Some (File c t)"
    and "fs_get (w_fs w) (resolve (p @ enc_suffix)) = None"
    and "length (enc_key e) = 32"
  shows "(quiet w \<longrightarrow> (\<exists>w1 w2. Encrypt aes e p w = (Inr (p @ enc_suffix), w1) \<and>
           Decrypt aes e (p @ enc_suffix) w1 = (Inr p, w2))) \<and>
         (\<forall>o' w1 r w2. Encrypt aes e p w = (Inr o', w1) \<longrightarrow> Decrypt aes e o' w1 = (Inr r, w2) \<longrightarrow>
           r = p \<and> file_at (w_fs w2) (resolve p) = Some c \<and>
           (\<forall>q. q \<noteq> resolve p \<and> q \<noteq> resolve (p @ enc_suffix) \<longrightarrow> fs_get (w_fs w2) q = fs_get (w_fs w) q))"
proof -
  have nodir: "\<not> is_dir (fs_get (w_fs w) (resolve (p @ enc_suffix)))" using assms(5) by simp
  note E = meets_Encrypt [OF assms(1-4) nodir assms(6), of aes]
  note R = meets_roundtrip [OF assms, of aes]
  have "\<exists>w1 w2. Encrypt aes e p w = (Inr (p @ enc_suffix), w1) \<and> Decrypt aes e (p @ enc_suffix) w1 = (Inr p, w2)"
    if "quiet w"
    using meets_quiet [OF R that] meets_Inr [OF E] by (auto simp: bnd_eq_Inr)
  moreover have "r = p \<and> file_at (w_fs w2) (resolve p) = Some c \<and>
     (\<forall>q. q \<noteq> resolve p \<and> q \<noteq> resolve (p @ enc_suffix) \<longrightarrow> fs_get (w_fs w2) q = fs_get (w_fs w) q)"
    if "Encrypt aes e p w = (Inr o', w1)" "Decrypt aes e o' w1 = (Inr r, w2)" for o' w1 r w2
    using meets_Inr [OF R, of r w2] that by (auto simp: bnd_eq_Inr)
  ultimately show ?thesis by blast
qed

theorem Encrypt_Decrypt_witness:
  "\<exists>w1 w2 :: unit world.
     Encrypt (\<lambda>k b. b) a_key a_file (calm [([''t''], Dir 0), ([''t'', ''f''], File [1, 2, 3] 0)] ()) = (Inr (a_file @ enc_suffix), w1) \<and>
     Decrypt (\<lambda>k b. b) a_key (a_file @ enc_suffix) w1 = (Inr a_file, w2) \<and>
     file_at (w_fs w2) [''t'', ''f''] = Some [1, 2, 3]"
proof -
  let ?w = "calm [([''t''], Dir 0), ([''t'', ''f''], File [1, 2, 3] 0)] ()"
  have "parents_ok (w_fs ?w) (resolve a_file)"
    "fs_get (w_fs ?w) (resolve a_file) = Some (File [1, 2, 3] 0)"
    "fs_get (w_fs ?w) (resolve (a_file @ enc_suffix)) = None"
    by (simp_all add: a_file_split(3,4) parents_ok_def fs_get_def)
  from Encrypt_Decrypt [OF a_file_split(1,2) this a_key_length, of "\<lambda>k b. b"]
  show ?thesis by (fastforce simp: a_file_split(3,4))
qed

text \<open>C21: the output file is opened without \<open>O_TRUNC\<close>. Encrypting onto an older output that is
  longer leaves its tail behind the new vector, and decrypting the result then reports success
  and delivers a file of the wrong length, also when nothing fails.\<close>

theorem Encrypt_stale_tail:
  assumes "p = d @ slash # n" "plain_name n" "parents_ok (w_fs w) (resolve p)"
    and "fs_get (w_fs w) (resolve p) = Some (File c t)"
    and "fs_get (w_fs w) (resolve (p @ enc_suffix)) = Some (File old t')"
    and "length c + aes_BlockSize < length old"
    and "length (enc_key e) = 32" "quiet w"
  shows "\<exists>w1 w2 c'. Encrypt aes e p w = (Inr (p @ enc_suffix), w1) \<and>
     Decrypt aes e (p @ enc_suffix) w1 = (Inr p, w2) \<and>
     file_at (w_fs w2) (resolve p) = Some c' \<and> length c' = length old - aes_BlockSize \<and> c' \<noteq> c"
proof -
  note sib = sibling [OF assms(1,2)]
  have nodir: "\<not> is_dir (fs_get (w_fs w) (resolve (p @ enc_suffix)))" using assms(5) by simp
  from meets_quiet [OF meets_Encrypt [OF assms(1-4) nodir assms(7), of aes] assms(8)] obtain w1 iv s where
    E: "Encrypt aes e p w = (Inr (p @ enc_suffix), w1)" and iv: "length iv = aes_BlockSize"
    and fs1: "fs_get (w_fs w1) = (fs_get (w_fs w))(resolve (p @ enc_suffix) \<mapsto>
       File (overwrite old 0 (xor_stream (cipher_of aes e) iv 0 c @ iv)) s, resolve p := None)"
    using assms(5,8) by (auto simp: opened_def)
  let ?x = "overwrite old 0 (xor_stream (cipher_of aes e) iv 0 c @ iv)"
  have len: "length ?x = length old" using assms(6) iv by (simp add: overwrite_def)
  then have bs: "aes_BlockSize \<le> length ?x" using assms(6) by simp
  have src1: "fs_get (w_fs w1) (resolve (p @ enc_suffix)) = Some (File ?x s)" using fs1 sib(3) by simp
  have out1: "\<not> is_dir (fs_get (w_fs w1) (resolve p))" using fs1 by simp
  have par1: "parents_ok (w_fs w1) (resolve p)"
    by (rule parents_ok_cong [OF assms(3)]) (use fs1 assms(3,4,5) in \<open>auto simp: parents_ok_iff\<close>)
  have "surroundings w1 = surroundings w" using E by (rule sameD [OF same_Encrypt])
  then have "quiet w1" using assms(8) quiet_surroundings by blast
  from meets_quiet [OF meets_Decrypt [OF assms(1,2) par1 src1 out1 assms(7) bs, of aes] this]
  obtain w2 r where D: "Decrypt aes e (p @ enc_suffix) w1 = (Inr p, w2)"
    and fs2: "file_at (w_fs w2) (resolve p) =
      Some (xor_stream (cipher_of aes e) (drop (length ?x - aes_BlockSize) ?x) 0 (take (length ?x - aes_BlockSize) ?x))"
    using sib(3) fs1 by (auto simp: file_at_def opened_def overwrite_def)
  let ?y = "xor_stream (cipher_of aes e) (drop (length ?x - aes_BlockSize) ?x) 0 (take (length ?x - aes_BlockSize) ?x)"
  have ly: "length ?y = length old - aes_BlockSize" using len by simp
  moreover have "length old - aes_BlockSize \<noteq> length c" using assms(6) by linarith
  ultimately have "?y \<noteq> c" by metis
  with E D fs2 ly show ?thesis by blast
qed

theorem Encrypt_stale_tail_witness:
  "\<exists>(w1 :: unit world) w2 c'.
     Encrypt (\<lambda>k b. b) a_key a_file
       (calm [([''t''], Dir 0), ([''t'', ''f''], File [1, 2, 3] 0), ([''t'', ''f.aes''], File (replicate 30 7) 0)] ())
       = (Inr (a_file @ enc_suffix), w1) \<and>
     Decrypt (\<lambda>k b. b) a_key (a_file @ enc_suffix) w1 = (Inr a_file, w2) \<and>
     file_at (w_fs w2) [''t'', ''f''] = Some c' \<and> length c' = 14"
proof -
  let ?w = "calm [([''t''], Dir 0), ([''t'', ''f''], File [1, 2, 3] 0), ([''t'', ''f.aes''], File (replicate 30 7) 0)] ()"
  have h: "parents_ok (w_fs ?w) (resolve a_file)"
    "fs_get (w_fs ?w) (resolve a_file) = Some (File [1, 2, 3] 0)"
    "fs_get (w_fs ?w) (resolve (a_file @ enc_suffix)) = Some (File (replicate 30 7) 0)"
    "length [1 :: byte, 2, 3] + aes_BlockSize < length (replicate 30 (7 :: byte))"
    by (simp_all add: a_file_split(3,4) parents_ok_def fs_get_def aes_BlockSize_def)
  from Encrypt_stale_tail [OF a_file_split(1,2) h a_key_length, of "\<lambda>k b. b"]
  show ?thesis by (fastforce simp: a_file_split(3,4) aes_BlockSize_def)
qed

text \<open>A key is accepted exactly if it has 32 bytes, all of them ASCII, and the cipher is then
  created without an error.\<close>

theorem Encrypter_New_correct:
  "case Encrypter_New key of
     Inl x \<Rightarrow> \<not> (length key = 32 \<and> list_all (\<lambda>c. (of_char c :: nat) \<le> 127) key)
   | Inr e \<Rightarrow> length key = 32 \<and> list_all (\<lambda>c. (of_char c :: nat) \<le> 127) key \<and> enc_key e = key \<and>
       createCipher aes e = Inr (cipher_of aes e)"
  by (auto simp: Encrypter_New_def isASCII_def createCipher_ok split: sum.split)

lemma Decrypt_plain: "\<not> IsEncrypted f \<Longrightarrow> Decrypt aes e f w = (Inl (ErrText ''input is not encrypted''), w)"
  by (simp add: Decrypt_def fail_run)

end
