(* ===== verification/Compress.thy ===== *)
theory Compress
  imports Utils
begin

text \<open>
  \<open>cmd/internal/compress/compress.go\<close>.  The archiver library (\<open>mholt/archiver\<close>) is a parameter:
  two calls that may change the file system and fail in any way.
\<close>

record 'w archiver =
  archiver_Archive :: "string list \<Rightarrow> string \<Rightarrow> ('w, unit) go"
  archiver_Unarchive :: "string \<Rightarrow> string \<Rightarrow> ('w, unit) go"

record compressor =
  comp_extension :: string

definition Compressor_New :: "string \<Rightarrow> err + compressor" where
  "Compressor_New m =
     (if m = ''tar'' then Inr \<lparr>comp_extension = ''.tar''\<rparr>
      else if m = ''targz'' then Inr \<lparr>comp_extension = ''.tar.gz''\<rparr>
      else if m = ''tarlz4'' then Inr \<lparr>comp_extension = ''.tar.lz4''\<rparr>
      else Inl (ErrText (''unsupported compression method: '' @ m)))"

definition Compressor_Compress :: "'w archiver \<Rightarrow> compressor \<Rightarrow> string \<Rightarrow> ('w, string) go" where
  "Compressor_Compress ar c backupFilePath =
     (let filename = backupFilePath @ comp_extension c in
      bnd (archiver_Archive ar [BackupDir] filename) (\<lambda>_. ret filename))"

definition Compressor_Decompress :: "'w archiver \<Rightarrow> compressor \<Rightarrow> string \<Rightarrow> ('w, unit) go" where
  "Compressor_Decompress ar c backupFilePath = archiver_Unarchive ar backupFilePath (filepath_Dir RestoreDir)"

definition Compressor_Extension :: "compressor \<Rightarrow> string" where
  "Compressor_Extension c = comp_extension c"

lemma Dir_RestoreDir: "filepath_Dir RestoreDir = DownloadDir"
  by (simp add: filepath_Dir_def dir_defs path_Clean_def rooted_def)

text \<open>An archive always lands in the download directory, beside the files it was fetched to.\<close>

lemma Decompress_target: "Compressor_Decompress ar c f = archiver_Unarchive ar f DownloadDir"
  by (simp add: Compressor_Decompress_def Dir_RestoreDir)

lemma Compressor_New_exts:
  "Compressor_New m = Inr c \<longleftrightarrow>
     (m, Compressor_Extension c) \<in> {(''tar'', ''.tar''), (''targz'', ''.tar.gz''), (''tarlz4'', ''.tar.lz4'')}"
  by (cases c) (auto simp: Compressor_New_def Compressor_Extension_def)

end
