(* ===== verification/Database.thy ===== *)
theory Database
  imports Utils
begin

text \<open>
  \<open>cmd/internal/database/contract.go\<close>: what the sidecar asks of a database, the contract of
  \<open>Check\<close>, and \<open>cmd/internal/database/localfs\<close>, the database that is a directory.
\<close>

record 'w database =
  db_Check :: "('w, bool) go"
  db_Recover :: "('w, unit) go"
  db_Upgrade :: "('w, unit) go"
  db_Probe :: "('w, unit) go"
  db_Backup :: "('w, unit) go"

text \<open>\<open>string(bytes)\<close>.\<close>

definition bytes_string :: "byte list \<Rightarrow> string" where
  "bytes_string bs = map (\<lambda>b. char_of (unat b)) bs"

section \<open>The contract of Check\<close>

text \<open>A \<open>Check\<close> that succeeds has found the data directory, changed no file, and reports that a
  restore is required exactly if the directory is empty.\<close>

locale restore_check =
  fixes check :: "(('x, 'm) world_scheme, bool) go" and datadir :: string
  assumes check_correct: "check w = (Inr b, w') \<Longrightarrow>
    w_fs w' = w_fs w \<and> is_dir (fs_get (w_fs w) (resolve datadir)) \<and>
    (b \<longleftrightarrow> fs_names (w_fs w) (resolve datadir) = [])"
begin

lemma check_fs: "check w = (Inr b, w') \<Longrightarrow> w_fs w' = w_fs w"
  using check_correct by blast

text \<open>A restore is required exactly if nothing lies below the directory.\<close>

lemma check_nothing_below:
  assumes "check w = (Inr b, w')" "tidy (w_fs w)"
  shows "b \<longleftrightarrow> (\<forall>q. strict_prefix (resolve datadir) q \<longrightarrow> fs_get (w_fs w) q = None)"
proof -
  have b: "b \<longleftrightarrow> fs_names (w_fs w) (resolve datadir) = []" using check_correct [OF assms(1)] by blast
  show ?thesis
  proof
    assume b: "b"
    show "\<forall>q. strict_prefix (resolve datadir) q \<longrightarrow> fs_get (w_fs w) q = None"
    proof (intro allI impI)
      fix q assume "strict_prefix (resolve datadir) q"
      moreover have "fs_names (w_fs w) (resolve datadir) = []"
        using b check_correct [OF assms(1)] by blast
      ultimately show "fs_get (w_fs w) q = None"
        using tidy_child [OF assms(2), of q "resolve datadir"] by (cases "fs_get (w_fs w) q") auto
    qed
  next
    assume none: "\<forall>q. strict_prefix (resolve datadir) q \<longrightarrow> fs_get (w_fs w) q = None"
    then have "fs_get (w_fs w) (resolve datadir @ [n]) = None" for n by simp
    then have "set (fs_names (w_fs w) (resolve datadir)) = {}" by (simp add: set_fs_names)
    then show "b" using b by simp
  qed
qed

text \<open>Entries in the directory, and the database is taken for an existing one.\<close>

lemma check_data: "check w = (Inr b, w') \<Longrightarrow> fs_get (w_fs w) (resolve datadir @ [n]) \<noteq> None \<Longrightarrow> \<not> b"
  using check_correct [of w b w'] set_fs_names [of "w_fs w" "resolve datadir"] by auto

text \<open>After the directory was emptied a restore is required.\<close>

lemma check_after_RemoveContents:
  assumes "RemoveContents datadir w = (Inr u, w1)" "check w1 = (Inr b, w2)"
    "rooted datadir" "tidy (w_fs w)"
  shows "b"
proof -
  have "fs_get (w_fs w1) (resolve datadir @ [n]) = None" for n
    using RemoveContents_InrD [OF assms(1,3,4), of "resolve datadir @ [n]"] by simp
  then have "set (fs_names (w_fs w1) (resolve datadir)) = {}" by (simp add: set_fs_names)
  then show ?thesis using check_correct [OF assms(2)] by simp
qed

end

section \<open>LocalFS\<close>

definition LocalFS_Check :: "string \<Rightarrow> (('x, 'm) world_scheme, bool) go" where
  "LocalFS_Check datadir = bnd (IsEmpty datadir) (\<lambda>empty. if empty then ret True else ret False)"

definition LocalFS_Backup :: "string \<Rightarrow> (('x, 'm) world_scheme, unit) go" where
  "LocalFS_Backup datadir =
     bnd (wrapE ''could not clean backup directory'' (os_RemoveAll BackupDir)) (\<lambda>_.
     bnd (wrapE ''could not create backup directory'' (os_MkdirAll BackupDir)) (\<lambda>_.
     wrapE ''could not copy contents'' (CopyFS BackupDir datadir)))"

definition LocalFS_Recover :: "string \<Rightarrow> (('x, 'm) world_scheme, unit) go" where
  "LocalFS_Recover datadir =
     bnd (wrapE ''could not cleanup datadir'' (RemoveContents datadir)) (\<lambda>_.
     wrapE ''could not copy contents'' (CopyFS datadir RestoreDir))"

definition LocalFS_Probe :: "('w, unit) go" where
  "LocalFS_Probe = ret ()"

definition LocalFS_Upgrade :: "('w, unit) go" where
  "LocalFS_Upgrade = ret ()"

definition localfs :: "string \<Rightarrow> ('x, 'm) world_scheme database" where
  "localfs datadir = \<lparr>db_Check = LocalFS_Check datadir, db_Recover = LocalFS_Recover datadir,
     db_Upgrade = LocalFS_Upgrade, db_Probe = LocalFS_Probe, db_Backup = LocalFS_Backup datadir\<rparr>"

lemma Check_by_IsEmpty:
  assumes "bnd (IsEmpty d) (\<lambda>empty. if empty then ret True else ret False) w = (Inr b, w')"
  shows "w_fs w' = w_fs w \<and> is_dir (fs_get (w_fs w) (resolve d)) \<and> (b \<longleftrightarrow> fs_names (w_fs w) (resolve d) = [])"
proof -
  from assms have "IsEmpty d w = (Inr b, w')"
    by (auto simp: bnd_eq_Inr ret_def split: if_splits)
  from IsEmpty_InrD [OF this] show ?thesis by blast
qed

interpretation localfs_check: restore_check "LocalFS_Check d" d for d
  by unfold_locales (unfold LocalFS_Check_def, rule Check_by_IsEmpty)

section \<open>Failed recoveries\<close>

text \<open>Nothing lies below the data directory: the state in which a restore is required.\<close>

definition nothing_below :: "string \<Rightarrow> ('x, 'm) world_scheme \<Rightarrow> bool" where
  "nothing_below d w \<longleftrightarrow> (\<forall>q. strict_prefix (resolve d) q \<longrightarrow> absent q w)"

lemma keeps_nothing_below:
  assumes "\<And>q. strict_prefix (resolve d) q \<Longrightarrow> keeps (absent q) m"
  shows "keeps (nothing_below d) m"
  using assms unfolding keeps_def nothing_below_def by blast

text \<open>After the next start, which makes the directory if it is missing, \<open>Check\<close> asks for a restore.\<close>

lemma next_Check:
  assumes "nothing_below d w" "os_MkdirAll d w = (Inr u, w1)"
    and "bnd (IsEmpty d) (\<lambda>empty. if empty then ret True else ret False) w1 = (Inr b, w2)"
  shows "b"
proof -
  have "keeps (nothing_below d) (os_MkdirAll d :: (('a, 'b) world_scheme, unit) go)"
    by (rule keeps_nothing_below, rule keeps_absent_MkdirAll) (auto simp: strict_prefix_def dest: prefix_order.antisym)
  then have "nothing_below d w1" using assms(1,2) by (metis keepsD)
  then have "fs_get (w_fs w1) (resolve d @ [n]) = None" for n by (simp add: nothing_below_def absent_def)
  then have "set (fs_names (w_fs w1) (resolve d)) = {}" by (simp add: set_fs_names)
  then show ?thesis using Check_by_IsEmpty [OF assms(3)] by simp
qed

end
