(* ===== verification/Backup.thy ===== *)
theory Backup
  imports Metrics Encryption Compress Database
begin

text \<open>
  \<open>cmd/internal/backup/backup.go\<close>: taking a backup.  The semaphore of the backuper, with its one
  place, is a variable of the world.  The cron library is a parameter of \<open>Start\<close>: the runs it
  makes until the context is done.
\<close>

record 'x b_world = "'x m_world" +
  b_sem_taken :: bool

record 'w backuper =
  bk_schedule :: string
  bk_db :: "'w database"
  bk_bp :: "'w provider"
  bk_comp :: compressor
  bk_encrypter :: "encrypter option"

definition Backuper_New ::
  "string \<Rightarrow> 'w database \<Rightarrow> 'w provider \<Rightarrow> compressor \<Rightarrow> encrypter option \<Rightarrow> 'w backuper" where
  "Backuper_New schedule db bp cmp enc =
     \<lparr>bk_schedule = schedule, bk_db = db, bk_bp = bp, bk_comp = cmp, bk_encrypter = enc\<rparr>"

definition TryAcquire :: "(('x, 'm) b_world_scheme, bool) go" where
  "TryAcquire = (\<lambda>w. if b_sem_taken w then (Inr False, w) else (Inr True, w\<lparr>b_sem_taken := True\<rparr>))"

definition Release :: "('x, 'm) b_world_scheme \<Rightarrow> ('x, 'm) b_world_scheme" where
  "Release w = w\<lparr>b_sem_taken := False\<rparr>"

text \<open>\<open>if err != nil { b.metrics.CountError(op); return fmt.Errorf(...) }\<close>\<close>

definition counted :: "string \<Rightarrow> string \<Rightarrow> (('x, 'm) b_world_scheme, 'a) go \<Rightarrow> (('x, 'm) b_world_scheme, 'a) go" where
  "counted op msg m = bnd (attempt m) (\<lambda>r. case r of
     Inr x \<Rightarrow> ret x
   | Inl e \<Rightarrow> bnd (CountError op) (\<lambda>_. fail (ErrWrap msg e)))"

text \<open>From the archive on: what the code does between \<open>GetNextBackupName\<close> and the upload.\<close>

definition make_archive ::
  "('x, 'm) b_world_scheme archiver \<Rightarrow> (byte list \<Rightarrow> block_fn) \<Rightarrow> ('x, 'm) b_world_scheme backuper \<Rightarrow> string \<Rightarrow>
   (('x, 'm) b_world_scheme, string) go" where
  "make_archive ar aes b backupArchiveName =
     (let backupFilePath = path_Join [BackupDir, backupArchiveName] in
      bnd (counted ''delete_prior'' ''could not delete priorly uploaded backup''
            (os_RemoveAll (backupFilePath @ Compressor_Extension (bk_comp b)))) (\<lambda>_.
      bnd (counted ''compress'' ''unable to compress backup'' (Compressor_Compress ar (bk_comp b) backupFilePath)) (\<lambda>filename.
      case bk_encrypter b of
        None \<Rightarrow> ret filename
      | Some e \<Rightarrow> counted ''encrypt'' ''error encrypting backup'' (Encrypt aes e filename))))"

text \<open>What is done while the semaphore is held.\<close>

definition backup_stages ::
  "('x, 'm) b_world_scheme archiver \<Rightarrow> (byte list \<Rightarrow> block_fn) \<Rightarrow> ('x, 'm) b_world_scheme backuper \<Rightarrow>
   (('x, 'm) b_world_scheme, unit) go" where
  "backup_stages ar aes b =
     bnd (counted ''create'' ''database backup failed'' (db_Backup (bk_db b))) (\<lambda>_.
     bnd (bp_GetNextBackupName (bk_bp b)) (\<lambda>backupArchiveName.
     bnd (make_archive ar aes b backupArchiveName) (\<lambda>filename.
     bnd (counted ''open'' ''error opening backup file'' (os_Open filename)) (\<lambda>fd.
     bnd (counted ''upload'' ''error uploading backup'' (bp_UploadBackup (bk_bp b) (file_reader fd))) (\<lambda>_.
     bnd (CountBackup filename) (\<lambda>_.
     bnd (attempt (bp_CleanupBackups (bk_bp b))) (\<lambda>r. case r of
       Inl _ \<Rightarrow> CountError ''cleanup''
     | Inr _ \<Rightarrow> ret ())))))))"

definition CreateBackup ::
  "('x, 'm) b_world_scheme archiver \<Rightarrow> (byte list \<Rightarrow> block_fn) \<Rightarrow> ('x, 'm) b_world_scheme backuper \<Rightarrow>
   (('x, 'm) b_world_scheme, unit) go" where
  "CreateBackup ar aes b =
     bnd TryAcquire (\<lambda>ok. if \<not> ok then fail ErrBackupAlreadyInProgress
       else deferred Release (backup_stages ar aes b))"

lemma CreateBackup_busy: "b_sem_taken w \<Longrightarrow> CreateBackup ar aes b w = (Inl ErrBackupAlreadyInProgress, w)"
  by (simp add: CreateBackup_def TryAcquire_def run)

lemma CreateBackup_free: "\<not> b_sem_taken w \<Longrightarrow>
    CreateBackup ar aes b w = deferred Release (backup_stages ar aes b) (w\<lparr>b_sem_taken := True\<rparr>)"
  by (simp add: CreateBackup_def TryAcquire_def bnd_run)

text \<open>Every run of the schedule logs the error of its backup and goes on.\<close>

fun scheduled_runs :: "nat \<Rightarrow> ('w, unit) go \<Rightarrow> ('w, unit) go" where
  "scheduled_runs 0 backup = ret ()"
| "scheduled_runs (Suc n) backup = bnd (attempt backup) (\<lambda>_. scheduled_runs n backup)"

definition Backuper_Start ::
  "(string \<Rightarrow> err + nat) \<Rightarrow> ('x, 'm) b_world_scheme archiver \<Rightarrow> (byte list \<Rightarrow> block_fn) \<Rightarrow> ('x, 'm) b_world_scheme backuper \<Rightarrow>
   (('x, 'm) b_world_scheme, unit) go" where
  "Backuper_Start cron ar aes b =
     bnd (liftR (cron (bk_schedule b))) (\<lambda>n. scheduled_runs n (CreateBackup ar aes b))"

section \<open>The metrics of a backup\<close>

definition counters :: "('x, 'm) b_world_scheme \<Rightarrow> nat \<times> int \<times> (string \<Rightarrow> nat)" where
  "counters w = (m_totalBackups w, m_backupSuccess w, m_totalErrors w)"

text \<open>The parts leave the metrics to the backuper, and \<open>GetNextBackupName\<close>, which has no error to
  return, fails by a panic only.\<close>

definition quiet_parts :: "('x, 'm) b_world_scheme archiver \<Rightarrow> ('x, 'm) b_world_scheme backuper \<Rightarrow> bool" where
  "quiet_parts ar b \<longleftrightarrow> same counters (db_Backup (bk_db b)) \<and> same counters (bp_GetNextBackupName (bk_bp b)) \<and>
     (\<forall>ds f. same counters (archiver_Archive ar ds f)) \<and>
     (\<forall>rd. same counters rd \<longrightarrow> same counters (bp_UploadBackup (bk_bp b) rd)) \<and>
     same counters (bp_CleanupBackups (bk_bp b)) \<and>
     (\<forall>w e w'. bp_GetNextBackupName (bk_bp b) w = (Inl e, w') \<longrightarrow> unwinds e)"

definition one_error :: "string \<Rightarrow> nat \<times> int \<times> (string \<Rightarrow> nat) \<Rightarrow> nat \<times> int \<times> (string \<Rightarrow> nat)" where
  "one_error op c = (case c of (t, s, e) \<Rightarrow> (t, 0, e(op := Suc (e op))))"

lemma same_counters_os [keeps]: "same surroundings m \<Longrightarrow> same counters m"
  for m :: "(('x, 'm) b_world_scheme, 'a) go"
proof (erule same_comp)
  fix w w' :: "('x, 'm) b_world_scheme"
  show "surroundings w = surroundings w' \<Longrightarrow> counters w = counters w'"
    by (cases w, cases w') (simp add: surroundings_def counters_def)
qed

lemma CountError_counters: "CountError op w = (Inr (), w') \<Longrightarrow> counters w' = one_error op (counters w)"
  for w w' :: "('x, 'm) b_world_scheme"
  by (auto simp: CountError_run counters_def one_error_def)

lemma counted_Inr: "counted op msg m w = (Inr x, w') \<longleftrightarrow> m w = (Inr x, w')"
  for w w' :: "('x, 'm) b_world_scheme"
  by (auto simp: counted_def run CountError_run split: prod.splits sum.splits if_splits)

lemma counted_Inl:
  fixes w w' :: "('x, 'm) b_world_scheme"
  assumes "counted op msg m w = (Inl e, w')" "same counters m" "\<not> unwinds e"
  shows "\<exists>x. e = ErrWrap msg x \<and> counters w' = one_error op (counters w)"
proof -
  obtain r v where m: "m w = (r, v)" by fastforce
  have v: "counters v = counters w" using assms(2) m by (simp add: same_run)
  from assms(1,3) m obtain x where "e = ErrWrap msg x" "CountError op v = (Inr (), w')"
    by (cases r) (auto simp: counted_def bnd_run attempt_run ret_run fail_run CountError_run split: if_splits)
  then show ?thesis using CountError_counters v by metis
qed

text \<open>The labels of the errors, with the text each is reported with.\<close>

definition backup_errors :: "(string \<times> string) list" where
  "backup_errors = [(''create'', ''database backup failed''),
     (''delete_prior'', ''could not delete priorly uploaded backup''),
     (''compress'', ''unable to compress backup''), (''encrypt'', ''error encrypting backup''),
     (''open'', ''error opening backup file''), (''upload'', ''error uploading backup'')]"

text \<open>A backup that was begun with counters \<open>c\<close> failed with \<open>e\<close> and leaves the counters \<open>c'\<close>: the
  counters are those of one more error, under the label of the stage that the error names.\<close>

definition failed_at :: "nat \<times> int \<times> (string \<Rightarrow> nat) \<Rightarrow> err \<Rightarrow> nat \<times> int \<times> (string \<Rightarrow> nat) \<Rightarrow> bool" where
  "failed_at c e c' \<longleftrightarrow> (\<exists>(op, msg)\<in>set backup_errors. \<exists>x. e = ErrWrap msg x \<and> c' = one_error op c)"

text \<open>A backup that was begun with counters \<open>c\<close> succeeded: it is counted, and a cleanup that fails
  counts as an error of its own.\<close>

definition counted_once :: "nat \<times> int \<times> (string \<Rightarrow> nat) \<Rightarrow> nat \<times> int \<times> (string \<Rightarrow> nat) \<Rightarrow> bool" where
  "counted_once c c' \<longleftrightarrow> (case c of (t, s, es) \<Rightarrow>
     c' = (Suc t, 1, es) \<or> c' = one_error ''cleanup'' (Suc t, 1, es))"

lemma wp_counted:
  fixes w :: "('x, 'm) b_world_scheme"
  assumes "same counters m" "(op, msg) \<in> set backup_errors" "counters w = c"
    and next': "\<And>x w'. counters w' = c \<Longrightarrow> Q x w'"
  shows "wp (counted op msg m) Q (\<lambda>e w'. unwinds e \<or> failed_at c e (counters w')) w"
proof -
  obtain r w' where r: "counted op msg m w = (r, w')" by fastforce
  show ?thesis
  proof (cases r)
    case (Inl e)
    then show ?thesis
      using r assms(1-3) counted_Inl [of op msg m w e w'] by (auto simp: wp_def failed_at_def)
  next
    case (Inr x)
    then have "m w = (Inr x, w')" using r counted_Inr [of op msg m w x w'] by blast
    then have "counters w' = c" using assms(1,3) by (metis same_run)
    then show ?thesis using Inr r next' by (simp add: wp_def)
  qed
qed

lemma same_counters_archive:
  "quiet_parts ar b \<Longrightarrow> same counters (Compressor_Compress ar (bk_comp b) f)"
  unfolding Compressor_Compress_def Let_def
  by (rule same_bnd [OF _ same_ret]) (simp add: quiet_parts_def)

lemma wp_make_archive:
  fixes w :: "('x, 'm) b_world_scheme"
  assumes "quiet_parts ar b" "counters w = c" and next': "\<And>x w'. counters w' = c \<Longrightarrow> Q x w'"
  shows "wp (make_archive ar aes b n) Q (\<lambda>e w'. unwinds e \<or> failed_at c e (counters w')) w"
  unfolding make_archive_def Let_def wp_bnd
proof (rule wp_counted, intro keeps, simp add: backup_errors_def, rule assms(2),
    rule wp_counted, rule same_counters_archive [OF assms(1)], simp add: backup_errors_def, assumption)
  fix x and w2 :: "('x, 'm) b_world_scheme"
  assume c: "counters w2 = c"
  show "wp (case bk_encrypter b of None \<Rightarrow> ret x | Some e \<Rightarrow> counted ''encrypt'' ''error encrypting backup'' (Encrypt aes e x)) Q
     (\<lambda>e w'. unwinds e \<or> failed_at c e (counters w')) w2"
  proof (cases "bk_encrypter b")
    case None
    then show ?thesis using next' c by (simp add: wp_ret)
  next
    case (Some e)
    have "wp (counted ''encrypt'' ''error encrypting backup'' (Encrypt aes e x)) Q
      (\<lambda>e w'. unwinds e \<or> failed_at c e (counters w')) w2"
      by (rule wp_counted) (intro keeps, simp_all add: backup_errors_def c next')
    then show ?thesis by (simp add: Some)
  qed
qed

lemma wp_same:
  assumes "same g m" "g w = c" "\<And>x w'. g w' = c \<Longrightarrow> Q x w'" "\<And>e w'. m w = (Inl e, w') \<Longrightarrow> g w' = c \<Longrightarrow> E e w'"
  shows "wp m Q E w"
proof -
  obtain r w' where r: "m w = (r, w')" by fastforce
  then have "g w' = c" using assms(1,2) by (metis same_run)
  then show ?thesis using r assms(3,4) by (cases r) (auto simp: wp_def)
qed

lemma counters_Release [simp]: "counters (Release w) = counters w"
  by (simp add: counters_def Release_def)

lemma CountBackup_counters:
  "CountBackup f w = (Inr u, w') \<Longrightarrow> (case counters w of (t, s, es) \<Rightarrow> counters w' = (Suc t, 1, es))"
  for w w' :: "('x, 'm) b_world_scheme"
  using CountBackup_Inr [of f w u w'] by (auto simp: metrics_of_def counters_def)

lemma CountBackup_Inl: "CountBackup f w = (Inl e, w') \<Longrightarrow> unwinds e"
  by (auto simp: CountBackup_def run fail_def split: prod.splits sum.splits if_splits)

lemma wp_CleanupBackups:
  fixes w :: "('x, 'm) b_world_scheme"
  assumes "same counters (bp_CleanupBackups p)" "counters w = (Suc t, 1, es)"
  shows "wp (bnd (attempt (bp_CleanupBackups p)) (\<lambda>r. case r of Inl _ \<Rightarrow> CountError ''cleanup'' | Inr _ \<Rightarrow> ret ()))
    (\<lambda>_ w'. counted_once (t, s, es) (counters w')) (\<lambda>e w'. unwinds e) w"
  unfolding wp_bnd
proof (rule wp_same [OF same_attempt [OF assms(1)] assms(2)])
  fix r and w' :: "('x, 'm) b_world_scheme"
  assume c: "counters w' = (Suc t, 1, es)"
  then show "wp (case r of Inl _ \<Rightarrow> CountError ''cleanup'' | Inr _ \<Rightarrow> ret ())
    (\<lambda>_ w'. counted_once (t, s, es) (counters w')) (\<lambda>e w'. unwinds e) w'"
    using CountError_counters [OF CountError_run [of "''cleanup''" w']]
    by (cases r) (simp_all add: wp_def CountError_run ret_run counted_once_def)
qed (simp add: attempt_eq_Inl)

lemma wp_CountBackup:
  fixes w :: "('x, 'm) b_world_scheme"
  assumes "counters w = (t, s, es)" "\<And>x w'. counters w' = (Suc t, 1, es) \<Longrightarrow> Q x w'" "\<And>e w'. unwinds e \<Longrightarrow> E e w'"
  shows "wp (CountBackup f) Q E w"
proof -
  obtain r w' where r: "CountBackup f w = (r, w')" by fastforce
  show ?thesis using r assms CountBackup_Inl [of f w _ w'] CountBackup_counters [of f w _ w']
    by (cases r) (auto simp: wp_def)
qed

lemma wp_CreateBackup:
  fixes w :: "('x, 'm) b_world_scheme"
  assumes q: "quiet_parts ar b" and free: "\<not> b_sem_taken w" and c: "counters w = c"
  shows "wp (CreateBackup ar aes b)
    (\<lambda>_ w'. \<not> b_sem_taken w' \<and> counted_once c (counters w'))
    (\<lambda>e w'. \<not> b_sem_taken w' \<and> (unwinds e \<or> failed_at c e (counters w'))) w"
proof -
  obtain t s es where tse: "c = (t, s, es)" by (cases c)
  let ?E = "\<lambda>e w'. unwinds e \<or> failed_at c e (counters w')"
  let ?w = "w\<lparr>b_sem_taken := True\<rparr>"
  note parts = q [unfolded quiet_parts_def]
  have c1: "counters ?w = c" using c by (simp add: counters_def)
  have "wp (backup_stages ar aes b) (\<lambda>_ w'. counted_once c (counters w')) ?E ?w"
    unfolding backup_stages_def wp_bnd [of "counted _ _ _"] wp_bnd [of "bp_GetNextBackupName _"]
      wp_bnd [of "make_archive _ _ _ _"] wp_bnd [of "CountBackup _"]
  proof (rule wp_counted [OF _ _ c1], goal_cases)
    case (3 x w1)
    show ?case
    proof (rule wp_same [where g = counters and c = c], goal_cases)
      case (3 n w2)
      show ?case
      proof (rule wp_make_archive [OF q 3], rule wp_counted, goal_cases)
        case (4 f w3 fd w4)
        show ?case
        proof (rule wp_counted [OF _ _ 4(2)], goal_cases)
          case (3 u w5)
          show ?case
            by (rule wp_CountBackup [OF 3 [unfolded tse]], rule wp_mono [OF wp_CleanupBackups [of _ _ t es s]])
              (use parts in \<open>auto simp: tse\<close>)
        next
          case 1
          have "same counters (file_reader fd :: (('x, 'm) b_world_scheme, byte list \<times> err option) go)" by (intro keeps)
          then show ?case using parts by blast
        qed (simp add: backup_errors_def)
      qed (intro keeps, simp_all add: backup_errors_def)
    qed (use parts 3 in \<open>blast\<close>)+
  qed (use parts in \<open>simp_all add: backup_errors_def\<close>)
  then have "wp (deferred Release (backup_stages ar aes b)) (\<lambda>_ w'. \<not> b_sem_taken w' \<and> counted_once c (counters w'))
    (\<lambda>e w'. \<not> b_sem_taken w' \<and> (unwinds e \<or> failed_at c e (counters w'))) ?w"
    unfolding wp_deferred by (rule wp_mono) (simp_all add: Release_def counters_def)
  then show ?thesis unfolding wp_def CreateBackup_free [OF free] .
qed

section \<open>Concurrent callers\<close>

text \<open>
  Backups are asked for by the schedule and by clients, each in a goroutine of its own.  Here the
  calls are interleaved at the stages of \<open>CreateBackup\<close>: a call is at the stage it does next, with
  the values it carries, and one step of the system does one stage of one call or adds a call.
\<close>

datatype call =
    Asking                       \<comment> \<open>before \<open>TryAcquire\<close>\<close>
  | AtBackup | AtName | AtRemove string | AtCompress string | AtEncrypt string | AtOpen string
  | AtUpload string nat | AtCount string | AtCleanup
  | Returned "err + unit"

fun holds :: "call \<Rightarrow> bool" where
  "holds Asking = False"
| "holds (Returned _) = False"
| "holds _ = True"

text \<open>After a stage that succeeds the call goes on, after an error it returns, by the deferred
  release.\<close>

definition goes_on :: "(('x, 'm) b_world_scheme, 'a) go \<Rightarrow> ('a \<Rightarrow> call) \<Rightarrow> ('x, 'm) b_world_scheme \<Rightarrow>
    call \<times> ('x, 'm) b_world_scheme" where
  "goes_on m k w = (case m w of (r, w') \<Rightarrow> (case r of Inl e \<Rightarrow> (Returned (Inl e), Release w') | Inr x \<Rightarrow> (k x, w')))"

fun do_stage ::
  "('x, 'm) b_world_scheme archiver \<Rightarrow> (byte list \<Rightarrow> block_fn) \<Rightarrow> ('x, 'm) b_world_scheme backuper \<Rightarrow> call \<Rightarrow>
   ('x, 'm) b_world_scheme \<Rightarrow> call \<times> ('x, 'm) b_world_scheme" where
  "do_stage ar aes b Asking w = (case TryAcquire w of
     (Inr True, w') \<Rightarrow> (AtBackup, w')
   | (_, w') \<Rightarrow> (Returned (Inl ErrBackupAlreadyInProgress), w'))"
| "do_stage ar aes b AtBackup w = goes_on (counted ''create'' ''database backup failed'' (db_Backup (bk_db b))) (\<lambda>_. AtName) w"
| "do_stage ar aes b AtName w = goes_on (bp_GetNextBackupName (bk_bp b)) (\<lambda>n. AtRemove (path_Join [BackupDir, n])) w"
| "do_stage ar aes b (AtRemove p) w = goes_on (counted ''delete_prior'' ''could not delete priorly uploaded backup''
     (os_RemoveAll (p @ Compressor_Extension (bk_comp b)))) (\<lambda>_. AtCompress p) w"
| "do_stage ar aes b (AtCompress p) w = goes_on (counted ''compress'' ''unable to compress backup''
     (Compressor_Compress ar (bk_comp b) p)) (\<lambda>f. if bk_encrypter b = None then AtOpen f else AtEncrypt f) w"
| "do_stage ar aes b (AtEncrypt f) w = (case bk_encrypter b of None \<Rightarrow> (AtOpen f, w)
   | Some e \<Rightarrow> goes_on (counted ''encrypt'' ''error encrypting backup'' (Encrypt aes e f)) AtOpen w)"
| "do_stage ar aes b (AtOpen f) w = goes_on (counted ''open'' ''error opening backup file'' (os_Open f)) (AtUpload f) w"
| "do_stage ar aes b (AtUpload f fd) w = goes_on (counted ''upload'' ''error uploading backup''
     (bp_UploadBackup (bk_bp b) (file_reader fd))) (\<lambda>_. AtCount f) w"
| "do_stage ar aes b (AtCount f) w = goes_on (CountBackup f) (\<lambda>_. AtCleanup) w"
| "do_stage ar aes b AtCleanup w = (case
     bnd (attempt (bp_CleanupBackups (bk_bp b))) (\<lambda>r. case r of Inl _ \<Rightarrow> CountError ''cleanup'' | Inr _ \<Rightarrow> ret ()) w
     of (r, w') \<Rightarrow> (Returned r, Release w'))"
| "do_stage ar aes b (Returned r) w = (Returned r, w)"

inductive backups_step ::
  "('x, 'm) b_world_scheme archiver \<Rightarrow> (byte list \<Rightarrow> block_fn) \<Rightarrow> ('x, 'm) b_world_scheme backuper \<Rightarrow>
   ('x, 'm) b_world_scheme \<times> call list \<Rightarrow> ('x, 'm) b_world_scheme \<times> call list \<Rightarrow> bool"
  for ar :: "('x, 'm) b_world_scheme archiver" and aes :: "byte list \<Rightarrow> block_fn" and b :: "('x, 'm) b_world_scheme backuper"
where
  asked: "backups_step ar aes b (w, cs) (w, cs @ [Asking])"
| staged: "i < length cs \<Longrightarrow> do_stage ar aes b (cs ! i) w = (c, w') \<Longrightarrow> backups_step ar aes b (w, cs) (w', cs[i := c])"

inductive_cases backups_stepE: "backups_step ar aes b (w, cs) (w', cs')"

inductive backups_run for ar aes b where
  begun: "backups_run ar aes b w (w, [])"
| stepped: "backups_run ar aes b w s \<Longrightarrow> backups_step ar aes b s s' \<Longrightarrow> backups_run ar aes b w s'"

text \<open>What a call that holds the semaphore has still to do.\<close>

function rest_of ::
  "('x, 'm) b_world_scheme archiver \<Rightarrow> (byte list \<Rightarrow> block_fn) \<Rightarrow> ('x, 'm) b_world_scheme backuper \<Rightarrow> call \<Rightarrow>
   (('x, 'm) b_world_scheme, unit) go" where
  "rest_of ar aes b AtCleanup = bnd (attempt (bp_CleanupBackups (bk_bp b)))
     (\<lambda>r. case r of Inl _ \<Rightarrow> CountError ''cleanup'' | Inr _ \<Rightarrow> ret ())"
| "rest_of ar aes b (AtCount f) = bnd (CountBackup f) (\<lambda>_. rest_of ar aes b AtCleanup)"
| "rest_of ar aes b (AtUpload f fd) = bnd (counted ''upload'' ''error uploading backup''
     (bp_UploadBackup (bk_bp b) (file_reader fd))) (\<lambda>_. rest_of ar aes b (AtCount f))"
| "rest_of ar aes b (AtOpen f) = bnd (counted ''open'' ''error opening backup file'' (os_Open f)) (\<lambda>fd. rest_of ar aes b (AtUpload f fd))"
| "rest_of ar aes b (AtEncrypt f) = (case bk_encrypter b of None \<Rightarrow> rest_of ar aes b (AtOpen f)
   | Some e \<Rightarrow> bnd (counted ''encrypt'' ''error encrypting backup'' (Encrypt aes e f)) (\<lambda>f. rest_of ar aes b (AtOpen f)))"
| "rest_of ar aes b (AtCompress p) = bnd (counted ''compress'' ''unable to compress backup''
     (Compressor_Compress ar (bk_comp b) p)) (\<lambda>f. rest_of ar aes b (AtEncrypt f))"
| "rest_of ar aes b (AtRemove p) = bnd (counted ''delete_prior'' ''could not delete priorly uploaded backup''
     (os_RemoveAll (p @ Compressor_Extension (bk_comp b)))) (\<lambda>_. rest_of ar aes b (AtCompress p))"
| "rest_of ar aes b AtName = bnd (bp_GetNextBackupName (bk_bp b)) (\<lambda>n. rest_of ar aes b (AtRemove (path_Join [BackupDir, n])))"
| "rest_of ar aes b AtBackup = bnd (counted ''create'' ''database backup failed'' (db_Backup (bk_db b))) (\<lambda>_. rest_of ar aes b AtName)"
| "rest_of ar aes b Asking = ret ()"
| "rest_of ar aes b (Returned r) = ret ()"
  by pat_completeness auto

fun stages_left :: "call \<Rightarrow> nat" where
  "stages_left AtBackup = 8" | "stages_left AtName = 7" | "stages_left (AtRemove p) = 6"
| "stages_left (AtCompress p) = 5" | "stages_left (AtEncrypt p) = 4" | "stages_left (AtOpen p) = 3"
| "stages_left (AtUpload p fd) = 2" | "stages_left (AtCount p) = 1" | "stages_left _ = 0"

termination rest_of
  by (relation "measure (\<lambda>(ar, aes, b, c). stages_left c)") auto


lemma rest_of_all: "rest_of ar aes b AtBackup = backup_stages ar aes b"
  unfolding backup_stages_def make_archive_def Let_def bnd_assoc
  by (cases "bk_encrypter b") simp_all

text \<open>A stage does what the rest of the call begins with.\<close>

definition goes_to where
  "goes_to m c w c' w' \<longleftrightarrow> (if holds c' then m c w = m c' w'
    else \<exists>r v. c' = Returned r \<and> m c w = (r, v) \<and> w' = Release v)"

lemma goes_on_rest:
  assumes "goes_on g k w = (c', w')" "\<And>x. holds (k x)" "m c = bnd g (\<lambda>x. m (k x))"
  shows "goes_to m c w c' w'"
  using assms by (auto simp: goes_to_def goes_on_def bnd_run split: prod.splits sum.splits)

lemma stage_rest:
  assumes "holds c" "do_stage ar aes b c w = (c', w')"
  shows "goes_to (rest_of ar aes b) c w c' w'"
proof (cases c)
  case (AtEncrypt f)
  show ?thesis
  proof (cases "bk_encrypter b")
    case None
    then show ?thesis using assms AtEncrypt by (auto simp: goes_to_def)
  next
    case (Some e)
    then show ?thesis using assms(2) AtEncrypt by (intro goes_on_rest) auto
  qed
next
  case (AtCompress p)
  have "rest_of ar aes b (AtEncrypt f) = rest_of ar aes b (if bk_encrypter b = None then AtOpen f else AtEncrypt f)" for f
    by simp
  then show ?thesis using assms(2) AtCompress
    by (intro goes_on_rest) (auto simp del: rest_of.simps(4,5))
next
  case AtCleanup
  then show ?thesis using assms(2) by (auto simp: goes_to_def split: prod.splits)
qed (use assms in \<open>auto intro: goes_on_rest\<close>)

text \<open>The specification: whole backups, one after the other.\<close>

inductive backed_up for ar aes b where
  none: "backed_up ar aes b w w"
| one: "backed_up ar aes b w v \<Longrightarrow> CreateBackup ar aes b v = (r, v') \<Longrightarrow> backed_up ar aes b w v'"

text \<open>A result that some call of that sequence returned.\<close>

definition returned where
  "returned ar aes b w r \<longleftrightarrow> r = Inl ErrBackupAlreadyInProgress \<or>
     (\<exists>v. backed_up ar aes b w v \<and> \<not> b_sem_taken v \<and> fst (CreateBackup ar aes b v) = r)"

text \<open>The parts do not touch the semaphore.\<close>

definition leaves_sem :: "('x, 'm) b_world_scheme archiver \<Rightarrow> ('x, 'm) b_world_scheme backuper \<Rightarrow> bool" where
  "leaves_sem ar b \<longleftrightarrow> same b_sem_taken (db_Backup (bk_db b)) \<and> same b_sem_taken (bp_GetNextBackupName (bk_bp b)) \<and>
     (\<forall>ds f. same b_sem_taken (archiver_Archive ar ds f)) \<and>
     (\<forall>rd. same b_sem_taken rd \<longrightarrow> same b_sem_taken (bp_UploadBackup (bk_bp b) rd)) \<and>
     same b_sem_taken (bp_CleanupBackups (bk_bp b))"

lemma same_sem_os [keeps]: "same surroundings m \<Longrightarrow> same b_sem_taken m"
  for m :: "(('x, 'm) b_world_scheme, 'a) go"
proof (erule same_comp)
  fix w w' :: "('x, 'm) b_world_scheme"
  show "surroundings w = surroundings w' \<Longrightarrow> b_sem_taken w = b_sem_taken w'"
    by (cases w, cases w') (simp add: surroundings_def)
qed

lemma same_sem_CountError [keeps]: "same b_sem_taken (CountError op :: (('x, 'm) b_world_scheme, unit) go)"
  unfolding CountError_def by (rule same_bnd; rule same_upd) simp_all

lemma same_sem_CountBackup: "same b_sem_taken (CountBackup f :: (('x, 'm) b_world_scheme, unit) go)"
  unfolding CountBackup_def
  by (intro same_bnd same_attempt same_upd same_sum same_fail same_sem_os same_surroundings_os) simp_all

lemma same_sem_counted: "same b_sem_taken m \<Longrightarrow> same b_sem_taken (counted op msg m)"
  unfolding counted_def
  by (intro same_bnd same_attempt same_sum same_ret same_fail same_sem_CountError)

lemma goes_on_sem:
  assumes "goes_on m k w = (c', w')" "same b_sem_taken m" "b_sem_taken w" "\<And>x. holds (k x)"
  shows "b_sem_taken w' = holds c'"
proof -
  obtain r v where r: "m w = (r, v)" by fastforce
  then have "b_sem_taken v" using assms(2,3) by (metis same_run)
  then show ?thesis using assms(1,4) r by (cases r) (auto simp: goes_on_def Release_def)
qed

text \<open>A call that holds the semaphore keeps it until it returns.\<close>

lemma stage_sem:
  assumes "holds c" "do_stage ar aes b c w = (c', w')" "leaves_sem ar b" "b_sem_taken w"
  shows "b_sem_taken w' = holds c'"
proof -
  note parts = assms(3) [unfolded leaves_sem_def]
  note frames = same_sem_counted same_sem_CountBackup
  have os: "same b_sem_taken (os_RemoveAll p :: (('a, 'b) b_world_scheme, unit) go)"
    "same b_sem_taken (os_Open p :: (('a, 'b) b_world_scheme, nat) go)"
    "same b_sem_taken (Encrypt aes e p :: (('a, 'b) b_world_scheme, string) go)"
    "same b_sem_taken (file_reader fd :: (('a, 'b) b_world_scheme, byte list \<times> err option) go)" for p fd e
    by (intro keeps)+
  have arch: "same b_sem_taken (Compressor_Compress ar (bk_comp b) p)" for p
    unfolding Compressor_Compress_def Let_def using parts by (auto intro: same_bnd same_ret)
  have up: "same b_sem_taken (bp_UploadBackup (bk_bp b) (file_reader fd))" for fd using parts os(4) by blast
  show ?thesis
  proof (cases c)
    case AtBackup
    show ?thesis by (rule goes_on_sem [OF assms(2) [unfolded AtBackup do_stage.simps] _ assms(4)]) (use parts frames in auto)
  next
    case AtName
    show ?thesis by (rule goes_on_sem [OF assms(2) [unfolded AtName do_stage.simps] _ assms(4)]) (use parts in auto)
  next
    case (AtRemove p)
    show ?thesis by (rule goes_on_sem [OF assms(2) [unfolded AtRemove do_stage.simps] _ assms(4)]) (simp_all add: frames os)
  next
    case (AtCompress p)
    show ?thesis by (rule goes_on_sem [OF assms(2) [unfolded AtCompress do_stage.simps] _ assms(4)]) (simp_all add: frames arch)
  next
    case (AtOpen p)
    show ?thesis by (rule goes_on_sem [OF assms(2) [unfolded AtOpen do_stage.simps] _ assms(4)]) (simp_all add: frames os)
  next
    case (AtUpload p fd)
    show ?thesis by (rule goes_on_sem [OF assms(2) [unfolded AtUpload do_stage.simps] _ assms(4)]) (simp_all add: frames up)
  next
    case (AtCount p)
    show ?thesis by (rule goes_on_sem [OF assms(2) [unfolded AtCount do_stage.simps] _ assms(4)]) (simp_all add: frames)
  next
    case (AtEncrypt f)
    show ?thesis
    proof (cases "bk_encrypter b")
      case None
      then show ?thesis using assms AtEncrypt by auto
    next
      case (Some e)
      then have "goes_on (counted ''encrypt'' ''error encrypting backup'' (Encrypt aes e f)) AtOpen w = (c', w')"
        using assms(2) AtEncrypt by simp
      then show ?thesis by (rule goes_on_sem [OF _ _ assms(4)]) (simp_all add: frames os)
    qed
  next
    case AtCleanup
    then show ?thesis using assms(2) by (auto simp: Release_def split: prod.splits)
  qed (use assms in auto)
qed

text \<open>The states of the system: nobody holds the semaphore and what was done is a sequence of whole
  backups, or one call holds it and is on the way of the next one.\<close>

definition sequential where
  "sequential ar aes b w0 s \<longleftrightarrow> (case s of (w, cs) \<Rightarrow>
     (\<forall>r. Returned r \<in> set cs \<longrightarrow> returned ar aes b w0 r) \<and>
     ((\<forall>c\<in>set cs. \<not> holds c) \<and> \<not> b_sem_taken w \<and> backed_up ar aes b w0 w \<or>
      (\<exists>i<length cs. holds (cs ! i) \<and> (\<forall>j<length cs. j \<noteq> i \<longrightarrow> \<not> holds (cs ! j)) \<and> b_sem_taken w \<and>
        (\<exists>v. backed_up ar aes b w0 v \<and> \<not> b_sem_taken v \<and>
          CreateBackup ar aes b v = deferred Release (rest_of ar aes b (cs ! i)) w))))"

lemma set_update_cases: "x \<in> set (xs[i := y]) \<Longrightarrow> x = y \<or> x \<in> set xs"
  using set_update_subset_insert by fastforce

lemma idle_stage:
  assumes "do_stage ar aes b c w = (c', w')" "\<not> holds c" "b_sem_taken w \<or> c \<noteq> Asking"
  shows "w' = w \<and> \<not> holds c' \<and> (c' = c \<or> c' = Returned (Inl ErrBackupAlreadyInProgress))"
  using assms by (cases c) (auto simp: TryAcquire_def)

lemma sequential_asked: "sequential ar aes b w0 (w, cs) \<Longrightarrow> sequential ar aes b w0 (w, cs @ [Asking])"
  unfolding sequential_def prod.case
proof (elim conjE disjE exE, goal_cases)
  case (2 i v)
  then show ?case by (intro conjI disjI2 exI [of _ i] exI [of _ v]) (auto simp: nth_append)
qed auto

lemma sequential_idle:
  assumes "sequential ar aes b w0 (w, cs)" "i < length cs" "do_stage ar aes b (cs ! i) w = (c, w')"
    and "\<not> holds (cs ! i)" "b_sem_taken w \<or> cs ! i \<noteq> Asking"
  shows "sequential ar aes b w0 (w', cs[i := c])"
proof -
  note c = idle_stage [OF assms(3-5)]
  have ret: "returned ar aes b w0 r" if "Returned r \<in> set (cs[i := c])" for r
  proof -
    have old: "\<forall>r. Returned r \<in> set cs \<longrightarrow> returned ar aes b w0 r" using assms(1) by (simp add: sequential_def)
    have "cs ! i \<in> set cs" using assms(2) by simp
    with set_update_cases [OF that] c have "Returned r \<in> set cs \<or> r = Inl ErrBackupAlreadyInProgress" by auto
    with old show ?thesis by (auto simp: returned_def)
  qed
  from assms(1) show ?thesis unfolding sequential_def prod.case
  proof (elim conjE disjE exE, goal_cases)
    case 1
    then show ?case using c ret set_update_cases [of _ cs i c] by (intro conjI disjI1) auto
  next
    case (2 k v)
    then have "k \<noteq> i" using assms(4) by auto
    with 2 c ret assms(2) show ?case
      by (intro conjI disjI2 exI [of _ k] exI [of _ v]) (auto simp: nth_list_update)
  qed
qed

lemma sequential_taken:
  assumes "sequential ar aes b w0 (w, cs)" "i < length cs" "cs ! i = Asking" "\<not> b_sem_taken w"
    and "do_stage ar aes b (cs ! i) w = (c, w')"
  shows "sequential ar aes b w0 (w', cs[i := c])"
proof -
  have c: "c = AtBackup" "w' = w\<lparr>b_sem_taken := True\<rparr>" using assms(3-5) by (auto simp: TryAcquire_def)
  have idle: "\<forall>c\<in>set cs. \<not> holds c" "backed_up ar aes b w0 w"
    and ret: "\<forall>r. Returned r \<in> set cs \<longrightarrow> returned ar aes b w0 r"
    using assms(1,4) by (auto simp: sequential_def)
  have "CreateBackup ar aes b w = deferred Release (rest_of ar aes b AtBackup) w'"
    unfolding rest_of_all c(2) by (rule CreateBackup_free [OF assms(4)])
  moreover have "returned ar aes b w0 r" if "Returned r \<in> set (cs[i := c])" for r
    using set_update_cases [OF that] c(1) ret by auto
  ultimately show ?thesis unfolding sequential_def prod.case using idle assms(2,4) c
    by (intro conjI disjI2 exI [of _ i] exI [of _ w]) (auto simp: nth_list_update)
qed

lemma sequential_holder:
  assumes "leaves_sem ar b" "sequential ar aes b w0 (w, cs)" "i < length cs" "holds (cs ! i)"
    and "do_stage ar aes b (cs ! i) w = (c, w')"
  shows "sequential ar aes b w0 (w', cs[i := c])"
proof -
  from assms(2-4) obtain v where alone: "\<forall>j<length cs. j \<noteq> i \<longrightarrow> \<not> holds (cs ! j)" and sem: "b_sem_taken w"
    and v: "backed_up ar aes b w0 v" "\<not> b_sem_taken v" "CreateBackup ar aes b v = deferred Release (rest_of ar aes b (cs ! i)) w"
    and ret: "\<forall>r. Returned r \<in> set cs \<longrightarrow> returned ar aes b w0 r"
    unfolding sequential_def prod.case by (metis nth_mem)
  note S = stage_rest [OF assms(4,5)] stage_sem [OF assms(4,5,1) sem]
  show ?thesis
  proof (cases "holds c")
    case True
    have "returned ar aes b w0 r" if "Returned r \<in> set (cs[i := c])" for r
      using set_update_cases [OF that] True ret by auto
    moreover have "CreateBackup ar aes b v = deferred Release (rest_of ar aes b c) w'"
      unfolding v(3) using S(1) True by (simp add: goes_to_def deferred_def)
    ultimately show ?thesis unfolding sequential_def prod.case using v(1,2) True S(2) alone assms(3)
      by (intro conjI disjI2 exI [of _ i] exI [of _ v]) (auto simp: nth_list_update)
  next
    case False
    then obtain r u where c: "c = Returned r" "rest_of ar aes b (cs ! i) w = (r, u)" "w' = Release u"
      using S(1) by (auto simp: goes_to_def)
    then have run: "CreateBackup ar aes b v = (r, w')" unfolding v(3) by (simp add: deferred_run)
    then have "returned ar aes b w0 r" unfolding returned_def using v by (metis fst_conv)
    then have "returned ar aes b w0 r'" if "Returned r' \<in> set (cs[i := c])" for r'
      using set_update_cases [OF that] c(1) ret by auto
    moreover have "\<not> holds x" if "x \<in> set (cs[i := c])" for x
      using that alone False assms(3) by (cases "x = c") (auto simp: in_set_conv_nth nth_list_update split: if_splits)
    moreover have "backed_up ar aes b w0 w'" using v(1) run by (rule backed_up.one)
    ultimately show ?thesis unfolding sequential_def prod.case using S(2) False by auto
  qed
qed

lemma backups_run_sequential:
  assumes "backups_run ar aes b w0 s" "leaves_sem ar b" "\<not> b_sem_taken w0"
  shows "sequential ar aes b w0 s"
  using assms
proof (induction rule: backups_run.induct)
  case (begun w)
  then show ?case by (auto simp: sequential_def intro: backed_up.none)
next
  case (stepped w s s')
  then have I: "sequential ar aes b w s" by blast
  from stepped.hyps(2) show ?case
  proof cases
    case (asked v cs)
    then show ?thesis using I sequential_asked by blast
  next
    case (staged i cs v c v')
    then show ?thesis using I sequential_idle sequential_taken sequential_holder [OF stepped.prems(1)] by metis
  qed
qed

section \<open>Properties\<close>

text \<open>C4: every backup is accounted for once. If one is in progress the call is refused and nothing
  changes. Otherwise the semaphore is free again at the end, also after an error or a panic; a
  backup that fails is one error, under the label of the stage its error message names, with the
  gauge at 0; a backup that succeeds is one backup with the gauge at 1, unless its cleanup failed,
  which is one error more and no error of the call.\<close>

theorem CreateBackup_accounted:
  fixes w :: "('x, 'm) b_world_scheme"
  assumes "quiet_parts ar b"
  shows "case CreateBackup ar aes b w of
      (Inr _, w') \<Rightarrow> \<not> b_sem_taken w \<and> \<not> b_sem_taken w' \<and> counted_once (counters w) (counters w')
    | (Inl e, w') \<Rightarrow> if b_sem_taken w then e = ErrBackupAlreadyInProgress \<and> w' = w
        else \<not> b_sem_taken w' \<and> (unwinds e \<or> failed_at (counters w) e (counters w'))"
proof (cases "b_sem_taken w")
  case True
  then show ?thesis by (simp add: CreateBackup_busy)
next
  case False
  then show ?thesis using wp_CreateBackup [OF assms False refl, of aes]
    by (simp add: wp_def split: prod.splits sum.splits)
qed

text \<open>C5: backups never overlap. However calls of \<open>CreateBackup\<close> are interleaved, at most one holds
  the semaphore; the world that is left when none holds it is that of whole backups made one after
  the other; and every call returned what one of these backups returned, or was refused.\<close>

theorem backups_sequential:
  fixes w0 :: "('x, 'm) b_world_scheme"
  assumes "backups_run ar aes b w0 (w, cs)" "leaves_sem ar b" "\<not> b_sem_taken w0"
  shows "length (filter holds cs) \<le> 1 \<and> (b_sem_taken w \<longleftrightarrow> filter holds cs \<noteq> []) \<and>
     (filter holds cs = [] \<longrightarrow> backed_up ar aes b w0 w) \<and>
     (\<forall>r. Returned r \<in> set cs \<longrightarrow> r = Inl ErrBackupAlreadyInProgress \<or>
        (\<exists>v. backed_up ar aes b w0 v \<and> \<not> b_sem_taken v \<and> fst (CreateBackup ar aes b v) = r))"
proof -
  note I = backups_run_sequential [OF assms, unfolded sequential_def prod.case]
  have one: "filter holds cs = [cs ! i]" if "i < length cs" "holds (cs ! i)" "\<forall>j<length cs. j \<noteq> i \<longrightarrow> \<not> holds (cs ! j)" for i
  proof -
    have "filter holds (take i cs) = []" "filter holds (drop (Suc i) cs) = []"
      using that by (auto simp: filter_empty_conv in_set_conv_nth)
    then show ?thesis using id_take_nth_drop [OF that(1)] that(2)
      by (metis append.left_neutral append_Nil2 filter.simps(2) filter_append)
  qed
  from I show ?thesis unfolding returned_def
  proof (elim conjE disjE exE, goal_cases)
    case 1
    then have "filter holds cs = []" by (simp add: filter_empty_conv)
    with 1 show ?case by simp
  next
    case (2 i v)
    with one [of i] show ?case by simp
  qed
qed

text \<open>A backuper with the parts of a test: nothing to dump, a directory archived as one byte, a
  provider that takes everything.\<close>

definition a_backuper :: "unit b_world backuper" where
  "a_backuper = Backuper_New ''* * * * *''
     \<lparr>db_Check = ret False, db_Recover = ret (), db_Upgrade = ret (), db_Probe = ret (), db_Backup = ret ()\<rparr>
     \<lparr>bp_EnsureBackupBucket = ret (), bp_ListBackups = fail ErrEOF, bp_CleanupBackups = ret (),
       bp_GetNextBackupName = ret ''0'', bp_DownloadBackup = (\<lambda>_ _. ret ()),
       bp_UploadBackup = (\<lambda>rd. bnd rd (\<lambda>_. ret ()))\<rparr>
     \<lparr>comp_extension = ''.tar''\<rparr> None"

definition an_archiver :: "('x, 'm) world_scheme archiver" where
  "an_archiver = \<lparr>archiver_Archive = (\<lambda>_ f. os_WriteFile f [7]), archiver_Unarchive = (\<lambda>_ _. ret ())\<rparr>"

definition a_backup_world :: "unit b_world" where
  "a_backup_world = m_world.extend (lp_world.extend (world.extend
     (calm [([''backup''], Dir 0), ([''backup'', ''upload''], Dir 0), ([''backup'', ''upload'', ''files''], Dir 0)] ())
       \<lparr>lp_nextBackupCount = 0, lp_currentBackupName = []\<rparr>)
     \<lparr>m_totalBackups = 0, m_backupSuccess = 0, m_backupSize = 0, m_totalErrors = (\<lambda>_. 0), m_routes = []\<rparr>)
     \<lparr>b_sem_taken = False\<rparr>"

lemma a_backuper_parts: "quiet_parts an_archiver a_backuper" "leaves_sem an_archiver a_backuper"
proof -
  have w: "same counters (os_WriteFile f bs :: (unit b_world, unit) go)"
    "same b_sem_taken (os_WriteFile f bs :: (unit b_world, unit) go)" for f bs by (intro keeps)+
  show "quiet_parts an_archiver a_backuper" "leaves_sem an_archiver a_backuper"
    using w by (simp_all add: quiet_parts_def leaves_sem_def an_archiver_def a_backuper_def Backuper_New_def ret_run same_ret same_bnd)
qed

theorem CreateBackup_accounted_witness:
  "\<exists>w'. CreateBackup an_archiver (\<lambda>_ b. b) a_backuper a_backup_world = (Inr (), w') \<and> m_totalBackups w' = 1"
proof -
  have "\<not> isl (fst (CreateBackup an_archiver (\<lambda>_ b. b) a_backuper a_backup_world))" by code_simp
  then obtain w' where w': "CreateBackup an_archiver (\<lambda>_ b. b) a_backuper a_backup_world = (Inr (), w')"
    using ran_ok by fastforce
  have "counters a_backup_world = (0, 0, \<lambda>_. 0)"
    by (simp add: counters_def a_backup_world_def m_world.defs lp_world.defs world.defs)
  then show ?thesis
    using CreateBackup_accounted [OF a_backuper_parts(1), where w = a_backup_world and aes = "\<lambda>_ b. b"] w'
    by (auto simp: counted_once_def counters_def one_error_def)
qed

theorem backups_sequential_witness:
  "\<exists>w cs. backups_run an_archiver (\<lambda>_ b. b) a_backuper a_backup_world (w, cs) \<and>
     length cs = 2 \<and> filter holds cs = [AtName] \<and> Returned (Inl ErrBackupAlreadyInProgress) \<in> set cs \<and> b_sem_taken w"
proof -
  let ?run = "backups_run an_archiver (\<lambda>_ b. b) a_backuper a_backup_world"
  let ?w = "a_backup_world" let ?v = "a_backup_world\<lparr>b_sem_taken := True\<rparr>"
  have free: "\<not> b_sem_taken ?w" by (simp add: a_backup_world_def m_world.defs)
  have stage: "do_stage an_archiver (\<lambda>_ b. b) a_backuper Asking ?w = (AtBackup, ?v)"
    "do_stage an_archiver (\<lambda>_ b. b) a_backuper Asking ?v = (Returned (Inl ErrBackupAlreadyInProgress), ?v)"
    "do_stage an_archiver (\<lambda>_ b. b) a_backuper AtBackup ?v = (AtName, ?v)"
    using free by (simp_all add: TryAcquire_def goes_on_def counted_def a_backuper_def Backuper_New_def run)
  have "?run (?w, [])" by (rule begun)
  then have "?run (?w, [Asking])" using stepped asked by fastforce
  then have "?run (?w, [Asking, Asking])" using stepped asked by fastforce
  then have "?run (?v, [AtBackup, Asking])"
    by (rule stepped) (use staged [of 0 "[Asking, Asking]"] stage(1) in fastforce)
  then have "?run (?v, [AtBackup, Returned (Inl ErrBackupAlreadyInProgress)])"
    by (rule stepped) (use staged [of 1 "[AtBackup, Asking]"] stage(2) in fastforce)
  then have r: "?run (?v, [AtName, Returned (Inl ErrBackupAlreadyInProgress)])"
    by (rule stepped) (use staged [of 0 "[AtBackup, Returned (Inl ErrBackupAlreadyInProgress)]"] stage(3) in fastforce)
  note backups_sequential [OF r a_backuper_parts(2) free]
  then show ?thesis using r by (intro exI [of _ ?v] exI [of _ "[AtName, Returned (Inl ErrBackupAlreadyInProgress)]"]) simp
qed

end
