(* ===== verification/ProbeWait.thy ===== *)
theory ProbeWait
  imports Utils
begin

text \<open>
  \<open>cmd/internal/probe\<close> and \<open>cmd/internal/wait\<close>: the two loops that wait for the database and for
  the initializer.  Each turn of their \<open>select\<close> takes the next event: the context is done, or the
  interval has passed.  When both are ready Go picks either, so any sequence of events is possible.
  A run that has used up its events is still waiting (\<open>Diverges\<close>).
\<close>

datatype event = Stop | Timer

datatype sidecar_status = CHECKING | RESTORING | DONE | UPGRADING

fun probe_Start :: "event list \<Rightarrow> ('w, unit) go \<Rightarrow> ('w, unit) go" where
  "probe_Start [] probe = fail Diverges"
| "probe_Start (Stop # es) probe = fail (ErrText ''received stop signal, stop probing'')"
| "probe_Start (Timer # es) probe =
     bnd (attempt probe) (\<lambda>r. case r of
       Inr _ \<Rightarrow> ret ()
     | Inl e \<Rightarrow> probe_Start es probe)"

text \<open>The answer of the initializer's \<open>Status\<close> call; the result tells whether the loop ended with
  \<open>DONE\<close> (the code returns nil in both cases).\<close>

fun wait_loop :: "event list \<Rightarrow> ('w, sidecar_status \<times> string) go \<Rightarrow> ('w, unit) go" where
  "wait_loop [] status = fail Diverges"
| "wait_loop (Stop # es) status = ret ()"
| "wait_loop (Timer # es) status =
     bnd (attempt status) (\<lambda>r. case r of
       Inl e \<Rightarrow> wait_loop es status
     | Inr (st, msg) \<Rightarrow> if st = DONE then ret () else wait_loop es status)"

definition wait_Start :: "event list \<Rightarrow> ('w, unit) go \<Rightarrow> ('w, sidecar_status \<times> string) go \<Rightarrow> ('w, unit) go" where
  "wait_Start es client_New status = bnd client_New (\<lambda>_. wait_loop es status)"

lemma keeps_probe_Start [keeps]: "keeps I probe \<Longrightarrow> keeps I (probe_Start es probe)"
  by (induction es probe rule: probe_Start.induct) (auto intro!: keeps)

lemma same_probe_Start [keeps]: "same g probe \<Longrightarrow> same g (probe_Start es probe)"
  by (induction es probe rule: probe_Start.induct) (auto intro!: keeps)

section \<open>How the loops end\<close>

text \<open>The world after a number of polls.\<close>

fun after_polls :: "('w, 'a) go \<Rightarrow> nat \<Rightarrow> 'w \<Rightarrow> 'w" where
  "after_polls m 0 w = w"
| "after_polls m (Suc k) w = after_polls m k (snd (m w))"

text \<open>The first \<open>k\<close> events are intervals, and no poll after them has panicked or had a good answer.\<close>

definition polled :: "('a \<Rightarrow> bool) \<Rightarrow> ('w, 'a) go \<Rightarrow> event list \<Rightarrow> nat \<Rightarrow> 'w \<Rightarrow> bool" where
  "polled good m es k w \<longleftrightarrow> k \<le> length es \<and> take k es = replicate k Timer \<and>
     (\<forall>j < k. case fst (m (after_polls m j w)) of Inl x \<Rightarrow> \<not> unwinds x | Inr a \<Rightarrow> \<not> good a)"

lemma polled_0 [simp]: "polled good m es 0 w"
  by (simp add: polled_def)

lemma polled_Suc:
  assumes "polled good m es k (snd (m w))" "case fst (m w) of Inl x \<Rightarrow> \<not> unwinds x | Inr a \<Rightarrow> \<not> good a"
  shows "polled good m (Timer # es) (Suc k) w"
  using assms by (auto simp: polled_def less_Suc_eq_0_disj)

text \<open>How a loop of polls ends: it is still waiting, it was stopped, or the last poll decides.\<close>

definition polls_end :: "('a \<Rightarrow> bool) \<Rightarrow> ('w, 'a) go \<Rightarrow> event list \<Rightarrow> (err + unit) \<Rightarrow> nat \<Rightarrow> 'w \<Rightarrow> err + unit \<Rightarrow> 'w \<Rightarrow> bool" where
  "polls_end good m es stopped k w r w' \<longleftrightarrow> polled good m es k w \<and>
     (let v = after_polls m k w in
      k = length es \<and> r = Inl Diverges \<and> w' = v \<or>
      k < length es \<and> es ! k = Stop \<and> r = stopped \<and> w' = v \<or>
      k < length es \<and> es ! k = Timer \<and> w' = snd (m v) \<and>
        (case fst (m v) of Inl x \<Rightarrow> unwinds x \<and> r = Inl x | Inr a \<Rightarrow> good a \<and> r = Inr ()))"

lemma polls_end_Suc:
  "polls_end good m es stopped k (snd (m w)) r w' \<Longrightarrow> (case fst (m w) of Inl x \<Rightarrow> \<not> unwinds x | Inr a \<Rightarrow> \<not> good a) \<Longrightarrow>
   polls_end good m (Timer # es) stopped (Suc k) w r w'"
  using polled_Suc [of good m es k w] by (auto simp: polls_end_def Let_def)

lemma probe_Start_run:
  "probe_Start es m w = (r, w') \<Longrightarrow>
   \<exists>k. polls_end (\<lambda>_. True) m es (Inl (ErrText ''received stop signal, stop probing'')) k w r w'"
proof (induction es m arbitrary: w rule: probe_Start.induct)
  case (3 es m)
  obtain q v where q: "m w = (q, v)" by fastforce
  show ?case
  proof (cases "\<exists>x. q = Inl x \<and> \<not> unwinds x")
    case True
    then have "probe_Start es m v = (r, w')" using "3.prems" q by (auto simp: bnd_run attempt_run)
    then obtain k where "polls_end (\<lambda>_. True) m es (Inl (ErrText ''received stop signal, stop probing'')) k v r w'"
      using "3.IH" True by blast
    then show ?thesis using q True by (intro exI [of _ "Suc k"] polls_end_Suc) auto
  next
    case False
    then show ?thesis using "3.prems" q
      by (cases q) (auto simp: bnd_run attempt_run ret_run polls_end_def intro!: exI [of _ 0])
  qed
qed (auto simp: fail_run polls_end_def intro!: exI [of _ 0])

lemma wait_loop_run:
  "wait_loop es m w = (r, w') \<Longrightarrow> \<exists>k. polls_end (\<lambda>a. fst a = DONE) m es (Inr ()) k w r w'"
proof (induction es m arbitrary: w rule: wait_loop.induct)
  case (3 es m)
  obtain q v where q: "m w = (q, v)" by fastforce
  show ?case
  proof (cases "case q of Inl x \<Rightarrow> \<not> unwinds x | Inr a \<Rightarrow> fst a \<noteq> DONE")
    case True
    then have "wait_loop es m v = (r, w')"
      using "3.prems" q by (cases q) (auto simp: bnd_run attempt_run split: prod.splits)
    from "3.IH"(1) [OF this] obtain k where "polls_end (\<lambda>a. fst a = DONE) m es (Inr ()) k v r w'" by blast
    then show ?thesis using q True by (intro exI [of _ "Suc k"] polls_end_Suc) auto
  next
    case False
    then show ?thesis using "3.prems" q
      by (cases q) (auto simp: bnd_run attempt_run ret_run polls_end_def intro!: exI [of _ 0])
  qed
qed (auto simp: fail_run ret_run polls_end_def intro!: exI [of _ 0])

end
