(* ===== verification/Initializer.thy ===== *)
theory Initializer
  imports Backup ProbeWait
begin

text \<open>
  \<open>cmd/internal/initializer/initializer.go\<close>: what the sidecar does before the database may start.
  The status that the initializer and its service share is a pair of variables of
  the world.  Parameters: the listener of the network, and the parts the initializer was made with.
\<close>

record 'x i_world = "'x b_world" +
  i_status :: sidecar_status
  i_message :: string

record 'w initializer =
  in_addr :: string
  in_db :: "'w database"
  in_bp :: "'w provider"
  in_comp :: compressor
  in_dbDataDir :: string
  in_encrypter :: "encrypter option"

section \<open>The status\<close>

definition set_status :: "sidecar_status \<Rightarrow> (('x, 'm) i_world_scheme, unit) go" where
  "set_status s = upd (\<lambda>w. w\<lparr>i_status := s\<rparr>)"

definition set_message :: "string \<Rightarrow> (('x, 'm) i_world_scheme, unit) go" where
  "set_message s = upd (\<lambda>w. w\<lparr>i_message := s\<rparr>)"

definition Initializer_New ::
  "string \<Rightarrow> ('x, 'm) i_world_scheme database \<Rightarrow> ('x, 'm) i_world_scheme provider \<Rightarrow> compressor \<Rightarrow> string \<Rightarrow>
   encrypter option \<Rightarrow> (('x, 'm) i_world_scheme, ('x, 'm) i_world_scheme initializer) go" where
  "Initializer_New addr db bp cmp dbDataDir enc =
     bnd (set_status CHECKING) (\<lambda>_.
     bnd (set_message ''starting initializer server'') (\<lambda>_.
     ret \<lparr>in_addr = addr, in_db = db, in_bp = bp, in_comp = cmp, in_dbDataDir = dbDataDir, in_encrypter = enc\<rparr>))"

section \<open>Restoring a backup\<close>

text \<open>The path that a version is downloaded to: the last element of its name.\<close>

definition download_path :: "version \<Rightarrow> string" where
  "download_path v =
     (let downloadFileName = bv_name v in
      path_Join [DownloadDir,
        if strings_Contains downloadFileName ''/'' then filepath_Base downloadFileName else downloadFileName])"

text \<open>From the open output file to the file that is unpacked.\<close>

definition fetch_backup ::
  "(byte list \<Rightarrow> block_fn) \<Rightarrow> ('x, 'm) i_world_scheme initializer \<Rightarrow> version \<Rightarrow> nat \<Rightarrow> (('x, 'm) i_world_scheme, string) go" where
  "fetch_backup aes i v outputFile =
     (let backupFilePath = download_path v in
      bnd (wrapE ''unable to download backup'' (bp_DownloadBackup (in_bp i) v (file_Write outputFile))) (\<lambda>_.
      case in_encrypter i of
        None \<Rightarrow> ret backupFilePath
      | Some e \<Rightarrow> if IsEncrypted backupFilePath
                 then wrapE ''unable to decrypt backup'' (Decrypt aes e backupFilePath)
                 else ret backupFilePath))"

definition Restore ::
  "('x, 'm) i_world_scheme archiver \<Rightarrow> (byte list \<Rightarrow> block_fn) \<Rightarrow> ('x, 'm) i_world_scheme initializer \<Rightarrow> version \<Rightarrow>
   (('x, 'm) i_world_scheme, unit) go" where
  "Restore ar aes i v =
     bnd (set_status RESTORING) (\<lambda>_.
     bnd (set_message ''prepare restore'') (\<lambda>_.
     bnd (wrapE ''could not clean restore directory'' (os_RemoveAll RestoreDir)) (\<lambda>_.
     bnd (wrapE ''could not create restore directory'' (os_MkdirAll RestoreDir)) (\<lambda>_.
     bnd (set_message ''downloading backup'') (\<lambda>_.
     bnd (wrapE ''could not delete priorly downloaded file'' (os_RemoveAll (download_path v))) (\<lambda>_.
     bnd (wrapE ''could not open file for writing'' (os_Create (download_path v))) (\<lambda>outputFile.
     deferred (file_Close outputFile)
      (bnd (fetch_backup aes i v outputFile) (\<lambda>backupFilePath.
       bnd (set_message ''uncompressing backup'') (\<lambda>_.
       bnd (wrapE ''unable to uncompress backup'' (Compressor_Decompress ar (in_comp i) backupFilePath)) (\<lambda>_.
       bnd (set_message ''restoring backup'') (\<lambda>_.
       wrapE ''restoring database was not successful'' (db_Recover (in_db i))))))))))))))"

section \<open>Initialising\<close>

text \<open>What is done once the database has said that it needs a backup.\<close>

definition restore_latest ::
  "('x, 'm) i_world_scheme archiver \<Rightarrow> (byte list \<Rightarrow> block_fn) \<Rightarrow> ('x, 'm) i_world_scheme initializer \<Rightarrow>
   (('x, 'm) i_world_scheme, unit) go" where
  "restore_latest ar aes i =
     bnd (wrapE ''unable retrieve backup versions'' (bp_ListBackups (in_bp i))) (\<lambda>versions.
     bnd (liftR (bvs_Latest versions)) (\<lambda>latestBackup. case latestBackup of
       None \<Rightarrow> ret ()
     | Some v \<Rightarrow>
         if in_encrypter i = None \<and> IsEncrypted (bv_name v)
         then fail (ErrText ''latest backup is encrypted, but no encryption/decryption is configured'')
         else wrapE ''unable to restore database'' (Restore ar aes i v)))"

definition initialize ::
  "('x, 'm) i_world_scheme archiver \<Rightarrow> (byte list \<Rightarrow> block_fn) \<Rightarrow> ('x, 'm) i_world_scheme initializer \<Rightarrow>
   (('x, 'm) i_world_scheme, unit) go" where
  "initialize ar aes i =
     bnd (wrapE ''unable to ensure database data directory'' (os_MkdirAll (in_dbDataDir i))) (\<lambda>_.
     bnd (set_message ''ensuring backup bucket'') (\<lambda>_.
     bnd (wrapE ''unable to ensure backup bucket'' (bp_EnsureBackupBucket (in_bp i))) (\<lambda>_.
     bnd (wrapE ''unable to ensure default download directory'' (os_MkdirAll DownloadDir)) (\<lambda>_.
     bnd (set_status CHECKING) (\<lambda>_.
     bnd (set_message ''checking database'') (\<lambda>_.
     bnd (wrapE ''unable to check data of database'' (db_Check (in_db i))) (\<lambda>needsBackup.
     if \<not> needsBackup then ret () else restore_latest ar aes i)))))))"

text \<open>\<open>Start\<close>, without the goroutines that serve the calls of clients.\<close>

definition Initializer_Start ::
  "(string \<Rightarrow> (('x, 'm) i_world_scheme, unit) go) \<Rightarrow> ('x, 'm) i_world_scheme archiver \<Rightarrow> (byte list \<Rightarrow> block_fn) \<Rightarrow>
   ('x, 'm) i_world_scheme initializer \<Rightarrow> (('x, 'm) i_world_scheme, unit) go" where
  "Initializer_Start net_Listen ar aes i =
     bnd (net_Listen (in_addr i)) (\<lambda>_.
     bnd (initialize ar aes i) (\<lambda>_.
     bnd (set_status UPGRADING) (\<lambda>_.
     bnd (set_message ''start upgrading database'') (\<lambda>_.
     bnd (db_Upgrade (in_db i)) (\<lambda>_.
     bnd (set_status DONE) (\<lambda>_.
     set_message ''done''))))))"

section \<open>Who sets the status\<close>

text \<open>The parts leave the status to the initializer.\<close>

definition leaves_status ::
  "(string \<Rightarrow> (('x, 'm) i_world_scheme, unit) go) \<Rightarrow> ('x, 'm) i_world_scheme archiver \<Rightarrow>
   ('x, 'm) i_world_scheme initializer \<Rightarrow> bool" where
  "leaves_status net_Listen ar i \<longleftrightarrow> (\<forall>a. same i_status (net_Listen a)) \<and>
     same i_status (db_Check (in_db i)) \<and> same i_status (db_Recover (in_db i)) \<and> same i_status (db_Upgrade (in_db i)) \<and>
     same i_status (bp_EnsureBackupBucket (in_bp i)) \<and> same i_status (bp_ListBackups (in_bp i)) \<and>
     (\<forall>v wr. (\<forall>bs. same i_status (wr bs)) \<longrightarrow> same i_status (bp_DownloadBackup (in_bp i) v wr)) \<and>
     (\<forall>f d. same i_status (archiver_Unarchive ar f d))"

lemma same_status_os [keeps]: "same surroundings m \<Longrightarrow> same i_status m"
  for m :: "(('x, 'm) i_world_scheme, 'a) go"
proof (erule same_comp)
  fix w w' :: "('x, 'm) i_world_scheme"
  show "surroundings w = surroundings w' \<Longrightarrow> i_status w = i_status w'"
    by (cases w, cases w') (simp add: surroundings_def)
qed

lemma same_status_message [keeps]: "same i_status (set_message s)"
  unfolding set_message_def by (rule same_upd) simp

lemma status_Close [simp]: "i_status (file_Close fd w) = i_status w"
  by (simp add: file_Close_def)

text \<open>Two computations that agree from the worlds in \<open>P\<close>, which they do not leave.\<close>

definition agree :: "('w \<Rightarrow> bool) \<Rightarrow> ('w, 'a) go \<Rightarrow> ('w, 'a) go \<Rightarrow> bool" where
  "agree P m n \<longleftrightarrow> (\<forall>w. P w \<longrightarrow> m w = n w \<and> P (snd (m w)))"

named_theorems agree "computations that agree"

lemma agree_run: "agree P m n \<Longrightarrow> P w \<Longrightarrow> m w = n w"
  by (simp add: agree_def)

lemma agree_after: "agree P m n \<Longrightarrow> P w \<Longrightarrow> P (snd (n w))"
  unfolding agree_def by metis

lemma agree_keeps: "agree P m m \<longleftrightarrow> keeps P m"
  by (simp add: agree_def keeps_def)

lemma agree_same: "same g m \<Longrightarrow> agree (\<lambda>w. Q (g w)) m m"
  by (simp add: agree_def same_def)

lemma agree_bnd [agree]:
  assumes "agree P m n" "\<And>x. agree P (k x) (h x)"
  shows "agree P (bnd m k) (bnd n h)"
  unfolding agree_def
proof (intro allI impI)
  fix w assume P: "P w"
  obtain r v where m: "m w = (r, v)" by fastforce
  have n: "n w = (r, v)" and v: "P v" using assms(1) P m by (auto simp: agree_def)
  show "bnd m k w = bnd n h w \<and> P (snd (bnd m k w))"
    using m n v assms(2) by (cases r) (simp_all add: bnd_run agree_def, metis)
qed

lemma agree_wrapE [agree]: "agree P m n \<Longrightarrow> agree P (wrapE s m) (wrapE s n)"
  by (auto simp: agree_def wrapE_run split_beta split: sum.splits)

lemma agree_deferred [agree]: "agree P m n \<Longrightarrow> (\<And>w. P w \<Longrightarrow> P (d w)) \<Longrightarrow> agree P (deferred d m) (deferred d n)"
  by (auto simp: agree_def deferred_run split_beta)

lemma agree_if [agree]: "agree P m n \<Longrightarrow> agree P m' n' \<Longrightarrow> agree P (if b then m else m') (if b then n else n')"
  by simp

lemma agree_option [agree]: "agree P m n \<Longrightarrow> (\<And>x. agree P (k x) (h x)) \<Longrightarrow>
    agree P (case r of None \<Rightarrow> m | Some x \<Rightarrow> k x) (case r of None \<Rightarrow> n | Some x \<Rightarrow> h x)"
  by (cases r) simp_all

lemma agree_refl [agree]: "agree P (ret x) (ret x)" "agree P (fail e) (fail e)" "agree P (liftR r) (liftR r)"
  by (simp_all only: agree_keeps keeps_ret keeps_fail keeps_liftR)

text \<open>A computation that must not be run outside \<open>P\<close>.\<close>

definition guarded :: "('w \<Rightarrow> bool) \<Rightarrow> ('w, 'a) go \<Rightarrow> ('w, 'a) go" where
  "guarded P m = (\<lambda>w. if P w then m w else (Inl (Panic ''guard''), w))"

lemma agree_guarded: "keeps P m \<Longrightarrow> agree P (guarded P m) m"
  by (simp add: agree_def guarded_def keeps_def)

definition not_done :: "('x, 'm) i_world_scheme \<Rightarrow> bool" where
  "not_done w \<longleftrightarrow> i_status w \<noteq> DONE"

definition watched :: "('x, 'm) i_world_scheme database \<Rightarrow> ('x, 'm) i_world_scheme database" where
  "watched db = db\<lparr>db_Check := guarded not_done (db_Check db), db_Recover := guarded not_done (db_Recover db),
     db_Upgrade := guarded not_done (db_Upgrade db)\<rparr>"

lemma keeps_not_done: "same i_status m \<Longrightarrow> keeps not_done m"
  by (simp add: keeps_def same_def not_done_def)

lemma agree_status: "same i_status m \<Longrightarrow> agree not_done m m"
  by (simp add: agree_keeps keeps_not_done)

lemma agree_set_status [agree]: "s \<noteq> DONE \<Longrightarrow> agree not_done (set_status s) (set_status s)"
  unfolding agree_keeps set_status_def by (rule keeps_upd) (simp add: not_done_def)

lemma agree_set_message [agree]: "agree not_done (set_message s) (set_message s)"
  by (intro agree_status keeps)

text \<open>Up to the last two steps of \<open>Start\<close> the watched database is as good as the database.\<close>

lemma same_status_fetch: "leaves_status net_Listen ar i \<Longrightarrow> same i_status (fetch_backup aes i v fd)"
proof -
  assume L: "leaves_status net_Listen ar i"
  have "same i_status (file_Write fd bs :: (('a, 'b) i_world_scheme, unit) go)" for bs by (intro keeps)
  then have 1: "same i_status (bp_DownloadBackup (in_bp i) v (file_Write fd))"
    using L by (auto simp: leaves_status_def)
  show ?thesis unfolding fetch_backup_def Let_def
    by (intro same_bnd same_wrapE 1 same_option same_if same_ret same_status_os same_Decrypt)
qed

lemma agree_Restore:
  assumes "leaves_status net_Listen ar i"
  shows "agree not_done (Restore ar aes (i\<lparr>in_db := watched (in_db i)\<rparr>) v) (Restore ar aes i v)"
proof -
  have f: "fetch_backup aes (i\<lparr>in_db := watched (in_db i)\<rparr>) v fd = fetch_backup aes i v fd" for fd
    by (simp add: fetch_backup_def)
  have os: "agree not_done (os_RemoveAll p :: (('a, 'b) i_world_scheme, unit) go) (os_RemoveAll p)"
    "agree not_done (os_MkdirAll p :: (('a, 'b) i_world_scheme, unit) go) (os_MkdirAll p)"
    "agree not_done (os_Create p :: (('a, 'b) i_world_scheme, nat) go) (os_Create p)" for p
    by (intro agree_status keeps)+
  have un: "agree not_done (Compressor_Decompress ar (in_comp i) p) (Compressor_Decompress ar (in_comp i) p)" for p
    using assms unfolding Compressor_Decompress_def leaves_status_def by (blast intro: agree_status)
  have rec: "agree not_done (db_Recover (watched (in_db i))) (db_Recover (in_db i))"
    using assms unfolding watched_def leaves_status_def by (auto intro: agree_guarded keeps_not_done)
  show ?thesis unfolding Restore_def
    by (simp add: f, intro agree os un rec agree_status same_status_fetch [OF assms]) (auto simp: not_done_def)
qed

lemma agree_initialize:
  assumes "leaves_status net_Listen ar i"
  shows "agree not_done (initialize ar aes (i\<lparr>in_db := watched (in_db i)\<rparr>)) (initialize ar aes i)"
proof -
  have os: "agree not_done (os_MkdirAll p :: (('a, 'b) i_world_scheme, unit) go) (os_MkdirAll p)" for p
    by (intro agree_status keeps)
  have bp: "agree not_done (bp_EnsureBackupBucket (in_bp i)) (bp_EnsureBackupBucket (in_bp i))"
    "agree not_done (bp_ListBackups (in_bp i)) (bp_ListBackups (in_bp i))"
    using assms unfolding leaves_status_def by (auto intro: agree_status)
  have chk: "agree not_done (db_Check (watched (in_db i))) (db_Check (in_db i))"
    using assms unfolding watched_def leaves_status_def by (auto intro: agree_guarded keeps_not_done)
  have other: "in_bp (i\<lparr>in_db := d\<rparr>) = in_bp i" "in_db (i\<lparr>in_db := d\<rparr>) = d" "in_dbDataDir (i\<lparr>in_db := d\<rparr>) = in_dbDataDir i"
    "in_encrypter (i\<lparr>in_db := d\<rparr>) = in_encrypter i" for d by simp_all
  show ?thesis unfolding initialize_def restore_latest_def other
    by (intro agree os bp chk agree_Restore [OF assms]) simp
qed

text \<open>C7: the status says \<open>DONE\<close> exactly when \<open>Start\<close> has succeeded, and as long as the database is
  checked, recovered or upgraded it does not: a database that must not be touched while the status
  is \<open>DONE\<close> makes no difference. So no client of \<open>Status\<close> lets the database start too early.\<close>

theorem Start_done:
  fixes w :: "('x, 'm) i_world_scheme"
  assumes "leaves_status net_Listen ar i" "i_status w \<noteq> DONE"
  shows "Initializer_Start net_Listen ar aes (i\<lparr>in_db := watched (in_db i)\<rparr>) w = Initializer_Start net_Listen ar aes i w \<and>
    (i_status (snd (Initializer_Start net_Listen ar aes i w)) = DONE \<longleftrightarrow> \<not> isl (fst (Initializer_Start net_Listen ar aes i w)))"
proof -
  let ?fin = "\<lambda>_ :: unit. bnd (set_status DONE) (\<lambda>_. set_message ''done'')"
  let ?pre = "\<lambda>i :: ('x, 'm) i_world_scheme initializer. bnd (net_Listen (in_addr i)) (\<lambda>_. bnd (initialize ar aes i) (\<lambda>_.
     bnd (set_status UPGRADING) (\<lambda>_. bnd (set_message ''start upgrading database'') (\<lambda>_. db_Upgrade (in_db i)))))"
  have split: "Initializer_Start net_Listen ar aes j = bnd (?pre j) ?fin" for j
    by (simp add: Initializer_Start_def bnd_assoc)
  have other: "in_addr (i\<lparr>in_db := d\<rparr>) = in_addr i" "in_db (i\<lparr>in_db := d\<rparr>) = d" for d by simp_all
  have l: "agree not_done (net_Listen a) (net_Listen a)" for a
    using assms(1) unfolding leaves_status_def by (auto intro: agree_status)
  have u: "agree not_done (db_Upgrade (watched (in_db i))) (db_Upgrade (in_db i))"
    using assms(1) unfolding watched_def leaves_status_def by (auto intro: agree_guarded keeps_not_done)
  have a: "agree not_done (?pre (i\<lparr>in_db := watched (in_db i)\<rparr>)) (?pre i)" unfolding other
    by (intro agree l u agree_initialize [OF assms(1)]) simp
  have w: "not_done w" using assms(2) by (simp add: not_done_def)
  have eq: "?pre (i\<lparr>in_db := watched (in_db i)\<rparr>) w = ?pre i w" by (rule agree_run [OF a w])
  have "not_done (snd (?pre i w))" by (rule agree_after [OF a w])
  then obtain r v where r: "?pre i w = (r, v)" "not_done v" by (metis prod.collapse)
  show ?thesis unfolding split bnd_run [of _ ?fin] eq r(1) using r(2)
    by (cases r) (simp_all add: bnd_run set_status_def set_message_def upd_run not_done_def)
qed

section \<open>Existing data\<close>

text \<open>C8: data that are there are not overwritten: if the data directory has an entry, no run of
  \<open>initialize\<close>, successful or not, changes a node below it. The database takes part by the contract
  of \<open>Check\<close>, the provider by leaving the data directory alone when it prepares its bucket.  This holds for corrupt
  data as well, for which the help text of \<open>start\<close> promises a restore: \<open>Check\<close> only asks whether the directory is empty.\<close>

theorem initialize_keeps_data:
  fixes w :: "('x, 'm) i_world_scheme"
  defines "below d \<equiv> {q. strict_prefix (resolve d) q}"
  assumes "restore_check (db_Check (in_db i)) (in_dbDataDir i)" "\<And>S g. keeps (protected S g) (db_Check (in_db i))"
    and "\<And>g. keeps (protected (below (in_dbDataDir i)) g) (bp_EnsureBackupBucket (in_bp i))"
    and "\<not> strict_prefix (resolve (in_dbDataDir i)) (resolve DownloadDir)"
    and "\<And>fd h. w_fds w fd = Some h \<Longrightarrow> h_wr h \<Longrightarrow> h_path h \<notin> below (in_dbDataDir i)"
    and "fs_get (w_fs w) (resolve (in_dbDataDir i) @ [n]) \<noteq> None"
    and "strict_prefix (resolve (in_dbDataDir i)) q"
  shows "fs_get (w_fs (snd (initialize ar aes i w))) q = fs_get (w_fs w) q"
proof -
  let ?d = "in_dbDataDir i" let ?S = "below ?d" and ?g = "fs_get (w_fs w)"
  let ?chk = "wrapE ''unable to check data of database'' (db_Check (in_db i))"
  have pre: "\<not> prefix p (resolve ?d)" "\<not> prefix p (resolve DownloadDir)" if "p \<in> ?S" for p
    using that assms(5) unfolding below_def by (auto simp: strict_prefix_def prefix_order.dual_order.strict_iff_order
      dest: prefix_order.antisym prefix_order.trans)
  have k1: "keeps (protected ?S ?g) (os_MkdirAll ?d :: (('x, 'm) i_world_scheme, unit) go)"
    "keeps (protected ?S ?g) (os_MkdirAll DownloadDir :: (('x, 'm) i_world_scheme, unit) go)"
    by (rule keeps_protected_MkdirAll, use pre in blast)+
  have msg: "keeps (protected ?S ?g) (set_message s :: (('x, 'm) i_world_scheme, unit) go)"
    "keeps (protected ?S ?g) (set_status st :: (('x, 'm) i_world_scheme, unit) go)" for s st
    unfolding set_message_def set_status_def by (auto intro!: keeps_upd simp: protected_def)
  let ?rest = "\<lambda>_ :: unit. bnd ?chk (\<lambda>b. if \<not> b then ret () else restore_latest ar aes i)"
  let ?pre = "bnd (wrapE ''unable to ensure database data directory'' (os_MkdirAll ?d)) (\<lambda>_.
     bnd (set_message ''ensuring backup bucket'') (\<lambda>_.
     bnd (wrapE ''unable to ensure backup bucket'' (bp_EnsureBackupBucket (in_bp i))) (\<lambda>_.
     bnd (wrapE ''unable to ensure default download directory'' (os_MkdirAll DownloadDir)) (\<lambda>_.
     bnd (set_status CHECKING) (\<lambda>_. set_message ''checking database'')))))"
  have split: "initialize ar aes i = bnd ?pre ?rest" by (simp add: initialize_def bnd_assoc)
  have kp: "keeps (protected ?S ?g) ?pre" by (intro keeps_bnd keeps_wrapE k1 msg assms(4))
  have w: "protected ?S ?g w" using assms(6) by (auto simp: protected_def)
  obtain r v where r: "?pre w = (r, v)" by fastforce
  have v: "protected ?S ?g v" by (rule keepsD [OF kp r w])
  obtain c u where c: "?chk v = (c, u)" by fastforce
  have u: "protected ?S ?g u" by (rule keepsD [OF keeps_wrapE [OF assms(3)] c v])
  have no: "\<not> b" if "c = Inr b" for b
  proof -
    have run: "db_Check (in_db i) v = (Inr b, u)" using c that by (simp add: wrapE_eq_Inr)
    have "fs_get (w_fs v) (resolve ?d @ [n]) = ?g (resolve ?d @ [n])" using v by (auto simp: protected_def below_def)
    then show ?thesis using restore_check.check_data [OF assms(2) run, of n] assms(7) by simp
  qed
  have "snd (initialize ar aes i w) = v \<or> snd (initialize ar aes i w) = u"
    unfolding split bnd_run [of ?pre ?rest w] r prod.case using c no
    by (cases r; cases c) (simp_all add: bnd_run [of ?chk] ret_run)
  then show ?thesis using u v assms(8) by (auto simp: protected_def below_def)
qed

section \<open>A fresh start\<close>

text \<open>C9: an empty data directory is not left empty while there is a backup: if nothing lies below it
  and \<open>initialize\<close> succeeds, the listing showed no backup at all, or the latest one was restored, and
  it was not an encrypted one without a key.\<close>

theorem initialize_restores_latest:
  fixes w :: "('x, 'm) i_world_scheme"
  assumes "restore_check (db_Check (in_db i)) (in_dbDataDir i)" "nothing_below (in_dbDataDir i) w"
    and "keeps (nothing_below (in_dbDataDir i)) (bp_EnsureBackupBucket (in_bp i))"
    and "\<not> strict_prefix (resolve (in_dbDataDir i)) (resolve DownloadDir)"
    and "initialize ar aes i w = (Inr u, w')"
  shows "\<exists>w1 vs w2. bp_ListBackups (in_bp i) w1 = (Inr vs, w2) \<and>
    (bvs_Latest vs = Inr None \<and> w' = w2 \<or>
     (\<exists>v. bvs_Latest vs = Inr (Some v) \<and> Restore ar aes i v w2 = (Inr u, w') \<and>
       (IsEncrypted (bv_name v) \<longrightarrow> in_encrypter i \<noteq> None)))"
proof -
  let ?d = "in_dbDataDir i" let ?I = "nothing_below ?d"
  from assms(5) obtain w1 w2 w3 w4 w5 w6 b w7 where
    1: "os_MkdirAll ?d w = (Inr (), w1)" and 2: "set_message ''ensuring backup bucket'' w1 = (Inr (), w2)"
    and 3: "bp_EnsureBackupBucket (in_bp i) w2 = (Inr (), w3)" and 4: "os_MkdirAll DownloadDir w3 = (Inr (), w4)"
    and 5: "set_status CHECKING w4 = (Inr (), w5)" and 6: "set_message ''checking database'' w5 = (Inr (), w6)"
    and 7: "db_Check (in_db i) w6 = (Inr b, w7)"
    and rest: "(if \<not> b then ret () else restore_latest ar aes i) w7 = (Inr u, w')"
    unfolding initialize_def bnd_eq_Inr wrapE_eq_Inr by auto
  have mk: "keeps ?I (os_MkdirAll p :: (('x, 'm) i_world_scheme, unit) go)" if "\<not> strict_prefix (resolve ?d) (resolve p)" for p
    by (rule keeps_nothing_below, rule keeps_absent_MkdirAll) (use that in \<open>auto dest: prefix_order.less_le_trans\<close>)
  have st: "?I v' = ?I v" if "set_message s v = (r, v') \<or> set_status st v = (r, v')" for s st r and v v' :: "('x, 'm) i_world_scheme"
    using that by (auto simp: set_message_def set_status_def upd_run nothing_below_def absent_def)
  have "?I w1" using mk [of ?d] 1 assms(2) by (metis keepsD prefix_order.less_irrefl)
  then have "?I w2" using st 2 by blast
  then have "?I w3" using assms(3) 3 by (metis keepsD)
  then have "?I w4" using mk [OF assms(4)] 4 by (metis keepsD)
  then have "?I w6" using st 5 6 by blast
  then have "fs_get (w_fs w6) (resolve ?d @ [n]) = None" for n by (simp add: nothing_below_def absent_def)
  then have "set (fs_names (w_fs w6) (resolve ?d)) = {}" by (simp add: set_fs_names)
  then have "b" using restore_check.check_correct [OF assms(1) 7] by simp
  then have "restore_latest ar aes i w7 = (Inr u, w')" using rest by simp
  then obtain vs w8 l where 8: "bp_ListBackups (in_bp i) w7 = (Inr vs, w8)" and 9: "bvs_Latest vs = Inr l"
    and k: "(case l of None \<Rightarrow> ret () | Some v \<Rightarrow>
         if in_encrypter i = None \<and> IsEncrypted (bv_name v)
         then fail (ErrText ''latest backup is encrypted, but no encryption/decryption is configured'')
         else wrapE ''unable to restore database'' (Restore ar aes i v)) w8 = (Inr u, w')"
    unfolding restore_latest_def bnd_eq_Inr wrapE_eq_Inr liftR_eq_Inr by blast
  show ?thesis
  proof (cases l)
    case None
    then show ?thesis using 8 9 k by (intro exI [of _ w7] exI [of _ vs] exI [of _ w8]) (simp add: ret_run)
  next
    case (Some v)
    then show ?thesis using 8 9 k
      by (intro exI [of _ w7] exI [of _ vs] exI [of _ w8]) (auto simp: fail_run wrapE_eq_Inr split: if_splits)
  qed
qed

section \<open>A restore on request\<close>

lemma same_status_Restored:
  assumes "leaves_status net_Listen ar i"
  shows "same i_status (fetch_backup aes i v fd)" "same i_status (Compressor_Decompress ar (in_comp i) p)"
    "same i_status (db_Recover (in_db i))"
  using same_status_fetch [OF assms] assms by (auto simp: leaves_status_def Compressor_Decompress_def)

text \<open>Every way through \<open>Restore\<close> ends with the status it began with.\<close>

lemma Restore_status:
  fixes w :: "('x, 'm) i_world_scheme"
  assumes "leaves_status net_Listen ar i"
  shows "i_status (snd (Restore ar aes i v w)) = RESTORING"
proof -
  have os: "same i_status (os_RemoveAll p :: (('x, 'm) i_world_scheme, unit) go)"
    "same i_status (os_MkdirAll p :: (('x, 'm) i_world_scheme, unit) go)"
    "same i_status (os_Create p :: (('x, 'm) i_world_scheme, nat) go)" for p by (intro keeps)+
  let ?rest = "bnd (set_message ''prepare restore'') (\<lambda>_.
     bnd (wrapE ''could not clean restore directory'' (os_RemoveAll RestoreDir)) (\<lambda>_.
     bnd (wrapE ''could not create restore directory'' (os_MkdirAll RestoreDir)) (\<lambda>_.
     bnd (set_message ''downloading backup'') (\<lambda>_.
     bnd (wrapE ''could not delete priorly downloaded file'' (os_RemoveAll (download_path v))) (\<lambda>_.
     bnd (wrapE ''could not open file for writing'' (os_Create (download_path v))) (\<lambda>outputFile.
     deferred (file_Close outputFile)
      (bnd (fetch_backup aes i v outputFile) (\<lambda>backupFilePath.
       bnd (set_message ''uncompressing backup'') (\<lambda>_.
       bnd (wrapE ''unable to uncompress backup'' (Compressor_Decompress ar (in_comp i) backupFilePath)) (\<lambda>_.
       bnd (set_message ''restoring backup'') (\<lambda>_.
       wrapE ''restoring database was not successful'' (db_Recover (in_db i)))))))))))))"
  have "same i_status ?rest"
    by (intro same_bnd same_wrapE same_deferred same_status_message os same_status_Restored [OF assms] status_Close)
  then show ?thesis unfolding Restore_def bnd_run [of "set_status RESTORING"]
    by (simp add: set_status_def upd_run same_def)
qed

section \<open>An initializer at work\<close>

definition an_initializer :: "unit i_world initializer" where
  "an_initializer = \<lparr>in_addr = '':8000'', in_db = localfs ''/data'', in_bp = local_provider a_local (\<lambda>_. []),
     in_comp = \<lparr>comp_extension = ''.tar''\<rparr>, in_dbDataDir = ''/data'', in_encrypter = None\<rparr>"

definition an_init_world :: "fs \<Rightarrow> unit i_world" where
  "an_init_world f = b_world.extend (m_world.extend (lp_world.extend (world.extend (calm f ())
       \<lparr>lp_nextBackupCount = 0, lp_currentBackupName = []\<rparr>)
     \<lparr>m_totalBackups = 0, m_backupSuccess = 0, m_backupSize = 0, m_totalErrors = (\<lambda>_. 0), m_routes = []\<rparr>)
     \<lparr>b_sem_taken = False\<rparr>) \<lparr>i_status = CHECKING, i_message = []\<rparr>"

lemma an_init_world_simps [simp]:
  "w_fs (an_init_world f) = f" "i_status (an_init_world f) = CHECKING" "w_fds (an_init_world f) = Map.empty"
  by (simp_all add: an_init_world_def b_world.defs m_world.defs lp_world.defs world.defs calm_def)

lemma resolve_data: "resolve ''/data'' = [''data'']" "resolve ''/b'' = [''b'']"
  by (simp_all add: resolve_def)

text \<open>Disks with data, without data but with a backup, and with neither.\<close>

definition full_disk :: fs where
  "full_disk = [([''backup''], Dir 0), ([''b''], Dir 0), ([''data''], Dir 0), ([''data'', ''x''], File [1] 0)]"

definition lost_disk :: fs where
  "lost_disk = [([''backup''], Dir 0), ([''b''], Dir 0), ([''b'', ''0.tar''], File [5] 1), ([''data''], Dir 0)]"

definition new_disk :: fs where
  "new_disk = [([''backup''], Dir 0)]"

lemma an_initializer_leaves: "leaves_status (\<lambda>_. ret ()) an_archiver an_initializer"
proof -
  have os: "same i_status (os_Open p :: (unit i_world, nat) go)" "same i_status (IsEmpty p :: (unit i_world, bool) go)"
    "same i_status (RemoveContents p :: (unit i_world, unit) go)" "same i_status (CopyFS p p' :: (unit i_world, unit) go)"
    "same i_status (os_MkdirAll p :: (unit i_world, unit) go)" "same i_status (file_Readdirnames d k :: (unit i_world, string list) go)"
    "same i_status (os_Stat p :: (unit i_world, node) go)" "same i_status (file_reader d :: (unit i_world, byte list \<times> err option) go)"
    for p p' d k by (intro keeps)+
  have st: "same i_status (stat_all p ns :: (unit i_world, (string \<times> int) list) go)" for p ns
    by (induction ns) (auto intro!: same_bnd same_ret os)
  have cp: "same i_status (io_Copy wr (file_reader d))" if "\<forall>bs. same i_status (wr bs)" for wr :: "unit i_world writer" and d
    using that os(8) unfolding io_Copy_def by (auto intro!: same_bnd same_ret same_fail same_prod same_option)
  show ?thesis
    unfolding leaves_status_def an_initializer_def an_archiver_def localfs_def local_provider_def LocalFS_Check_def LocalFS_Recover_def
      LocalFS_Upgrade_def Local_EnsureBackupBucket_def Local_ListBackups_def Local_DownloadBackup_def Let_def
    by (auto intro!: same_bnd same_ret same_if same_wrapE same_deferred os st cp simp del: bnd_ret bnd_ret_unit ret_bnd)
qed

lemma an_initializer_check:
  "restore_check (db_Check (in_db an_initializer)) (in_dbDataDir an_initializer)"
  "keeps (protected S g) (db_Check (in_db an_initializer))"
  using localfs_check.restore_check_axioms [of "''/data''"]
  by (auto simp: an_initializer_def localfs_def LocalFS_Check_def intro!: keeps_bnd keeps_if keeps_ret keeps_IsEmpty)

theorem Start_done_witness:
  "i_status (snd (Initializer_Start (\<lambda>_. ret ()) an_archiver (\<lambda>_ b. b) an_initializer (an_init_world full_disk))) = DONE"
proof -
  have "\<not> isl (fst (Initializer_Start (\<lambda>_. ret ()) an_archiver (\<lambda>_ b. b) an_initializer (an_init_world full_disk)))"
    by code_simp
  then show ?thesis using Start_done [OF an_initializer_leaves, of "an_init_world full_disk" "\<lambda>_ b. b"] by simp
qed

theorem initialize_keeps_data_witness:
  "file_at (w_fs (snd (initialize an_archiver (\<lambda>_ b. b) an_initializer (an_init_world full_disk)))) [''data'', ''x''] = Some [1]"
proof -
  have d: "in_dbDataDir an_initializer = ''/data''" by (simp add: an_initializer_def)
  have "keeps (protected {q. strict_prefix (resolve ''/data'') q} g) (bp_EnsureBackupBucket (in_bp an_initializer))" for g
    unfolding an_initializer_def local_provider_def Local_EnsureBackupBucket_def
    by (auto simp: a_local_def resolve_data strict_prefix_def prefix_Cons intro!: keeps_wrapE keeps_protected_MkdirAll)
  then have "fs_get (w_fs (snd (initialize an_archiver (\<lambda>_ b. b) an_initializer (an_init_world full_disk)))) [''data'', ''x''] =
      fs_get (w_fs (an_init_world full_disk)) [''data'', ''x'']"
    by (intro initialize_keeps_data [where n = "''x''", OF an_initializer_check]) (auto simp: d resolve_data full_disk_def fs_get_def)
  then show ?thesis by (simp add: file_at_def full_disk_def fs_get_def)
qed

theorem initialize_restores_latest_witness:
  "\<exists>w'. initialize an_archiver (\<lambda>_ b. b) an_initializer (an_init_world lost_disk) = (Inr (), w') \<and>
    (\<exists>w1 vs w2. bp_ListBackups (in_bp an_initializer) w1 = (Inr vs, w2) \<and>
    (bvs_Latest vs = Inr None \<and> w' = w2 \<or>
     (\<exists>v. bvs_Latest vs = Inr (Some v) \<and> Restore an_archiver (\<lambda>_ b. b) an_initializer v w2 = (Inr (), w') \<and>
       (IsEncrypted (bv_name v) \<longrightarrow> in_encrypter an_initializer \<noteq> None))))"
proof -
  have d: "in_dbDataDir an_initializer = ''/data''" by (simp add: an_initializer_def)
  have "\<not> isl (fst (initialize an_archiver (\<lambda>_ b. b) an_initializer (an_init_world lost_disk)))" by code_simp
  then obtain w' where run: "initialize an_archiver (\<lambda>_ b. b) an_initializer (an_init_world lost_disk) = (Inr (), w')"
    using ran_ok by fastforce
  have empty: "nothing_below (in_dbDataDir an_initializer) (an_init_world lost_disk)"
    by (auto simp: d resolve_data nothing_below_def absent_def lost_disk_def fs_get_def strict_prefix_def prefix_Cons)
  have keep: "keeps (nothing_below (in_dbDataDir an_initializer)) (bp_EnsureBackupBucket (in_bp an_initializer))"
    unfolding an_initializer_def local_provider_def Local_EnsureBackupBucket_def
    by (auto simp: a_local_def resolve_data strict_prefix_def prefix_Cons
        intro!: keeps_wrapE keeps_nothing_below keeps_absent_MkdirAll)
  have away: "\<not> strict_prefix (resolve (in_dbDataDir an_initializer)) (resolve DownloadDir)"
    by (simp add: d resolve_data strict_prefix_def)
  show ?thesis
    by (rule exI [of _ w'], rule conjI, rule run)
      (rule initialize_restores_latest [OF an_initializer_check(1) empty keep away run])
qed

end
