(* ===== verification/RoundTrip.thy ===== *)
theory RoundTrip
  imports Initializer
begin

text \<open>
  A backup and its restore, through every part that the bytes pass: the archive in the upload
  directory, its encryption, the file of the local provider, the download and the decryption.  The
  archiver and the database are known by what they do to the file system only.
\<close>

section \<open>Rules of the calculus\<close>

lemma meets_upd: "Q () (f w) \<Longrightarrow> meets (upd f) Q w"
  by (simp add: meets_def wp_upd)

lemma meets_if: "(b \<Longrightarrow> meets m Q w) \<Longrightarrow> (\<not> b \<Longrightarrow> meets n Q w) \<Longrightarrow> meets (if b then m else n) Q w"
  by simp

lemma meets_counted: "meets m Q w \<Longrightarrow> meets (counted op msg m) Q w"
  for w :: "('x, 'm) b_world_scheme"
  by (auto simp: counted_def meets_def wp_def bnd_run attempt_run CountError_run ret_run fail_run
      split: prod.splits sum.splits)

lemma same_fault_counted [keeps]: "same w_fault m \<Longrightarrow> same w_fault (counted op msg m)"
  for m :: "(('x, 'm) b_world_scheme, 'a) go"
  unfolding counted_def CountError_def by (intro same_bnd same_attempt same_sum same_upd same_fail same_ret) simp_all

section \<open>What is stored\<close>

text \<open>The archive in a stored file.\<close>

definition decoded :: "(byte list \<Rightarrow> block_fn) \<Rightarrow> encrypter option \<Rightarrow> byte list \<Rightarrow> byte list" where
  "decoded aes eo x = (case eo of None \<Rightarrow> x
     | Some e \<Rightarrow> (let n = length x - aes_BlockSize in xor_stream (cipher_of aes e) (drop n x) 0 (take n x)))"

definition good_key :: "encrypter option \<Rightarrow> bool" where
  "good_key eo \<longleftrightarrow> (case eo of None \<Rightarrow> True | Some e \<Rightarrow> length (enc_key e) = 32)"

lemma overwrite_new: "overwrite (opened False None) 0 bs = bs"
  by (simp add: opened_def overwrite_def)

lemma decoded_encrypted:
  "length iv = aes_BlockSize \<Longrightarrow> decoded aes (Some e) (xor_stream (cipher_of aes e) iv 0 c @ iv) = c"
  by (simp add: decoded_def Let_def)

text \<open>The archiver library chooses the format by the extension of the file name, so it is relied on for the
  names with an extension of one of the compressors only.\<close>

definition archive_file :: "string \<Rightarrow> bool" where
  "archive_file p \<longleftrightarrow> (\<exists>meth cmp. Compressor_New meth = Inr cmp \<and> suffix (Compressor_Extension cmp) p)"

lemma no_slash_ext: "Compressor_New m = Inr cmp \<Longrightarrow> slash \<notin> set (Compressor_Extension cmp)"
  by (auto simp: Compressor_New_exts)

text \<open>The archiver packs the file system into a new file (\<open>pack\<close>), and leaves the rest alone.  It does not write
  over a file that exists.\<close>

definition archives :: "('x, 'm) b_world_scheme archiver \<Rightarrow> (fs \<Rightarrow> byte list) \<Rightarrow> bool" where
  "archives ar pack \<longleftrightarrow> (\<forall>f. same surroundings (archiver_Archive ar [BackupDir] f)) \<and>
     (\<forall>f w. archive_file f \<longrightarrow> parents_ok (w_fs w) (resolve f) \<longrightarrow> resolve f \<noteq> [] \<longrightarrow> fs_get (w_fs w) (resolve f) = None \<longrightarrow>
        meets (archiver_Archive ar [BackupDir] f)
          (\<lambda>_ w'. \<exists>t. fs_get (w_fs w') = (fs_get (w_fs w))(resolve f \<mapsto> File (pack (w_fs w)) t)) w)"

lemma archivesD:
  "archives ar pack \<Longrightarrow> archive_file f \<Longrightarrow> parents_ok (w_fs w) (resolve f) \<Longrightarrow> resolve f \<noteq> [] \<Longrightarrow> fs_get (w_fs w) (resolve f) = None \<Longrightarrow>
    meets (archiver_Archive ar [BackupDir] f)
      (\<lambda>_ w'. \<exists>t. fs_get (w_fs w') = (fs_get (w_fs w))(resolve f \<mapsto> File (pack (w_fs w)) t)) w"
  "archives ar pack \<Longrightarrow> same surroundings (archiver_Archive ar [BackupDir] f)"
  unfolding archives_def by blast+

text \<open>The directories in which a backup named \<open>i\<close> is made: the upload directory and the directory of the
  provider, apart from each other.\<close>

definition site :: "local_config \<Rightarrow> nat \<Rightarrow> fs \<Rightarrow> bool" where
  "site c i f \<longleftrightarrow> parents_ok f (slot c i) \<and> \<not> is_dir (fs_get f (slot c i)) \<and>
     parents_ok f (resolve BackupDir) \<and> is_dir (fs_get f (resolve BackupDir)) \<and> \<not> prefix (resolve BackupDir) (slot c i)"

text \<open>Nothing outside a directory has changed.\<close>

definition beside :: "string \<Rightarrow> fs \<Rightarrow> fs \<Rightarrow> bool" where
  "beside d f g \<longleftrightarrow> (\<forall>q. \<not> strict_prefix (resolve d) q \<longrightarrow> fs_get g q = fs_get f q)"

lemma site_beside:
  assumes "site c i f" "beside BackupDir f g"
  shows "site c i g"
proof -
  have s: "\<not> prefix (resolve BackupDir) (slot c i)" using assms(1) by (simp add: site_def)
  have *: "fs_get g q = fs_get f q" if "prefix q (slot c i)" for q
    using s that assms(2) unfolding beside_def by (meson prefix_order.dual_order.trans prefix_order.less_imp_le)
  have **: "fs_get g q = fs_get f q" if "prefix q (resolve BackupDir)" for q
    using that assms(2) unfolding beside_def by (meson prefix_order.leD)
  have "parents_ok g (slot c i)" "parents_ok g (resolve BackupDir)"
    using assms(1) * ** unfolding site_def by (blast intro: parents_ok_cong prefix_order.less_imp_le)+
  then show ?thesis using assms(1) * ** by (simp add: site_def)
qed

lemma beside_trans: "beside d f g \<Longrightarrow> beside d g h \<Longrightarrow> beside d f h"
  by (simp add: beside_def)

lemma beside_put:
  "beside d f g \<Longrightarrow> fs_get h = (fs_get g)(a := x, b := y) \<Longrightarrow> strict_prefix (resolve d) a \<Longrightarrow> strict_prefix (resolve d) b \<Longrightarrow>
   beside d f h"
  unfolding beside_def by (metis fun_upd_other)

text \<open>The name of an archive, and how its path reads.\<close>

definition archive_name :: "compressor \<Rightarrow> nat \<Rightarrow> string" where
  "archive_name cmp i = FormatInt (int i) @ Compressor_Extension cmp"

lemma archive_name_suffix: "suffix (Compressor_Extension cmp) (archive_name cmp i)"
  unfolding archive_name_def by (rule suffixI) (rule refl)

lemma archive_fileI: "Compressor_New meth = Inr cmp \<Longrightarrow> suffix (archive_name cmp i) p \<Longrightarrow> archive_file p"
  unfolding archive_file_def using archive_name_suffix suffix_order.trans by blast

lemma archive_path:
  assumes "slash \<notin> set (Compressor_Extension cmp)"
  obtains d where "path_Join [BackupDir, FormatInt (int i)] @ Compressor_Extension cmp = d @ slash # archive_name cmp i"
    "resolve d = resolve BackupDir" "plain_name (archive_name cmp i)"
proof -
  have n: "plain_name (FormatInt (int i))" using plain_digits [of "''''" i] by simp
  from Join_file [OF rooted_dirs(1) n] obtain d where "path_Join [BackupDir, FormatInt (int i)] = d @ slash # FormatInt (int i)"
    "resolve d = resolve BackupDir" by blast
  moreover have "plain_name (archive_name cmp i)" unfolding archive_name_def by (rule plain_digits [OF assms])
  ultimately show ?thesis using that by (simp add: archive_name_def)
qed

text \<open>The archive is made and, where there is a key, encrypted.\<close>

lemma meets_make_archive:
  fixes w :: "('x, 'm) b_world_scheme"
  assumes ar: "archives ar pack" and cmp: "Compressor_New meth = Inr (bk_comp b)"
    and key: "good_key (bk_encrypter b)" and site: "site c i (w_fs w)"
    and fresh: "fs_get (w_fs w) (resolve BackupDir @ [archive_name (bk_comp b) i @ enc_suffix]) = None"
  shows "meets (make_archive ar aes b (FormatInt (int i))) (\<lambda>y w'. beside BackupDir (w_fs w) (w_fs w') \<and>
    (\<exists>f x t. (\<forall>q. fs_get f q = (if prefix (resolve BackupDir @ [archive_name (bk_comp b) i]) q then None else fs_get (w_fs w) q)) \<and>
      decoded aes (bk_encrypter b) x = pack f \<and> (bk_encrypter b \<noteq> None \<longrightarrow> aes_BlockSize \<le> length x) \<and>
      parents_ok (w_fs w') (resolve y) \<and> fs_get (w_fs w') (resolve y) = Some (File x t) \<and>
      strict_prefix (resolve BackupDir) (resolve y))) w"
    (is "meets _ ?Q w")
proof -
  let ?e = "Compressor_Extension (bk_comp b)" and ?n = "archive_name (bk_comp b) i"
  obtain d where p: "path_Join [BackupDir, FormatInt (int i)] @ ?e = d @ slash # ?n"
    and d: "resolve d = resolve BackupDir" and n: "plain_name ?n" by (rule archive_path [OF no_slash_ext [OF cmp]])
  let ?p = "d @ slash # ?n"
  have rp: "resolve ?p = resolve BackupDir @ [?n]" using n d by simp
  have ne: "resolve ?p \<noteq> []" unfolding rp by blast
  have arch: "archive_file ?p" by (rule archive_fileI [OF cmp, of i], rule suffixI [of _ "d @ [slash]"]) simp
  have par: "parents_ok (w_fs w) (resolve ?p)" using site by (simp only: rp parents_ok_snoc site_def)
  note sib = sibling [where d = d, OF refl n]
  let ?f = "fs_drop (prefix (resolve ?p)) (w_fs w)"
  have f_out: "fs_get ?f q = fs_get (w_fs w) q" if "\<not> prefix (resolve ?p) q" for q
    using that by (simp only: fs_get_drop) simp
  have f_p: "fs_get ?f (resolve ?p) = None" unfolding rp by (simp add: fs_get_drop)
  have f_par: "parents_ok ?f (resolve ?p)"
    by (rule parents_ok_cong [OF par], rule f_out) (auto dest: prefix_order.leD)
  have below: "strict_prefix (resolve BackupDir) q" if "prefix (resolve ?p) q" for q
    using that unfolding rp by (meson strict_prefix_child prefix_order.less_le_trans)
  have f_beside: "beside BackupDir (w_fs w) ?f"
    unfolding beside_def using below f_out by blast
  have fo: "\<forall>q. fs_get ?f q = (if prefix (resolve BackupDir @ [?n]) q then None else fs_get (w_fs w) q)"
    unfolding rp fs_get_drop by auto
  have Q: "?Q y v" if "beside BackupDir (w_fs w) (w_fs v)" "decoded aes (bk_encrypter b) x = pack ?f"
    "bk_encrypter b \<noteq> None \<longrightarrow> aes_BlockSize \<le> length x" "parents_ok (w_fs v) (resolve y)"
    "fs_get (w_fs v) (resolve y) = Some (File x t)" "strict_prefix (resolve BackupDir) (resolve y)"
    for x t y and v :: "('x, 'm) b_world_scheme"
    using that fo by blast
  have eq: "(path_Join [BackupDir, FormatInt (int i)]) @ comp_extension (bk_comp b) = ?p"
    using p by (simp add: Compressor_Extension_def)
  have S1: "meets (counted ''delete_prior'' ''could not delete priorly uploaded backup'' (os_RemoveAll ?p))
    (\<lambda>_ w1. w_fs w1 = ?f) w"
    by (rule meets_counted, rule meets_mono [OF meets_RemoveAll [OF _ par]]) simp_all
  have S2: "meets (counted ''compress'' ''unable to compress backup'' (bnd (archiver_Archive ar [BackupDir] ?p) (\<lambda>_. ret ?p)))
    (\<lambda>y w2. y = ?p \<and> (\<exists>t. fs_get (w_fs w2) = (fs_get ?f)(resolve ?p \<mapsto> File (pack ?f) t))) w1" if w1: "w_fs w1 = ?f"
    for w1 :: "('x, 'm) b_world_scheme"
  proof -
    have "meets (archiver_Archive ar [BackupDir] ?p)
        (\<lambda>_ w'. \<exists>t. fs_get (w_fs w') = (fs_get (w_fs w1))(resolve ?p \<mapsto> File (pack (w_fs w1)) t)) w1"
      by (rule archivesD(1) [OF ar arch]) (simp_all only: w1 f_par f_p ne not_False_eq_True)
    moreover have "same w_fault (archiver_Archive ar [BackupDir] ?p)" by (rule same_fault [OF archivesD(2) [OF ar]])
    ultimately show ?thesis
      by (rule meets_counted [OF meets_bnd], intro meets_ret, simp only: w1 simp_thms)
  qed
  have S3: "meets (case bk_encrypter b of None \<Rightarrow> ret ?p
      | Some e \<Rightarrow> counted ''encrypt'' ''error encrypting backup'' (Encrypt aes e ?p)) ?Q w2"
    if w2: "fs_get (w_fs w2) = (fs_get ?f)(resolve ?p \<mapsto> File (pack ?f) t)" for t and w2 :: "('x, 'm) b_world_scheme"
  proof -
    have b2: "beside BackupDir (w_fs w) (w_fs w2)" using f_beside below unfolding beside_def w2 by auto
    have par2: "parents_ok (w_fs w2) (resolve ?p)"
      by (rule parents_ok_cong [OF f_par]) (auto simp: w2)
    show ?thesis
    proof (cases "bk_encrypter b")
      case None
      have "?Q ?p w2"
      proof (rule Q [OF b2])
        show "decoded aes (bk_encrypter b) (pack ?f) = pack ?f" by (simp only: None decoded_def option.case)
        show "bk_encrypter b \<noteq> None \<longrightarrow> aes_BlockSize \<le> length (pack ?f)" using None by blast
        show "fs_get (w_fs w2) (resolve ?p) = Some (File (pack ?f) t)" by (simp only: w2 fun_upd_same)
        show "strict_prefix (resolve BackupDir) (resolve ?p)" by (rule below) (rule prefix_order.order_refl)
      qed (rule par2)
      note q = this
      have "meets (ret ?p) ?Q w2" by (rule meets_ret, rule q)
      then show ?thesis by (simp only: None option.case)
    next
      case (Some e)
      have src: "fs_get (w_fs w2) (resolve ?p) = Some (File (pack ?f) t)" by (simp only: w2 fun_upd_same)
      have np: "\<not> prefix (resolve ?p) (resolve (?p @ enc_suffix))" unfolding sib(1,2) by (simp add: enc_suffix_def)
      have out: "fs_get (w_fs w2) (resolve (?p @ enc_suffix)) = None"
        using fresh d f_out [OF np] sib(3) unfolding w2 fun_upd_apply sib(1) by presburger
      then have nodir: "\<not> is_dir (fs_get (w_fs w2) (resolve (?p @ enc_suffix)))" by simp
      have k: "length (enc_key e) = 32" using key Some by (simp add: good_key_def)
      show ?thesis unfolding Some option.case
      proof (rule meets_counted, rule meets_mono [OF meets_Encrypt [OF refl n par2 src nodir k]], goal_cases)
        case (1 y w3)
        then obtain iv s v where y: "y = ?p @ enc_suffix" and iv: "length iv = aes_BlockSize"
          and fs3: "fs_get (w_fs w3) = (fs_get (w_fs w2))(resolve (?p @ enc_suffix) \<mapsto>
            File (xor_stream (cipher_of aes e) iv 0 (pack ?f) @ iv) s, resolve ?p := v)"
          unfolding out overwrite_new by blast
        have up': "strict_prefix (resolve BackupDir) (resolve (?p @ enc_suffix))" unfolding sib(1) d by (rule strict_prefix_child)
        have b3: "beside BackupDir (w_fs w) (w_fs w3)"
          by (rule beside_put [OF b2 fs3 up' below]) (rule prefix_order.order_refl)
        have np': "\<not> strict_prefix (resolve (?p @ enc_suffix)) (resolve ?p)" "\<not> strict_prefix (resolve ?p) (resolve (?p @ enc_suffix))"
          unfolding sib(1,2) by (auto simp: enc_suffix_def strict_prefix_def)
        have "parents_ok (w_fs w3) (resolve ?p)"
          by (rule parents_ok_cong [OF par2]) (use np' in \<open>auto simp: fs3\<close>)
        then have par3: "parents_ok (w_fs w3) (resolve y)" using y sib(4) by blast
        have dec: "decoded aes (bk_encrypter b) (xor_stream (cipher_of aes e) iv 0 (pack ?f) @ iv) = pack ?f"
          unfolding Some by (rule decoded_encrypted [OF iv])
        have at: "fs_get (w_fs w3) (resolve y) = Some (File (xor_stream (cipher_of aes e) iv 0 (pack ?f) @ iv) s)"
          unfolding y fs3 fun_upd_apply using sib(3) by presburger
        have up: "strict_prefix (resolve BackupDir) (resolve y)" using up' y by (simp only:)
        show ?case using Q [OF b3 dec _ par3 at up] iv unfolding Some by simp
      qed
    qed
  qed
  have sf: "same w_fault (counted ''compress'' ''unable to compress backup'' (bnd (archiver_Archive ar [BackupDir] ?p) (\<lambda>_. ret ?p)))"
    by (intro same_fault_counted same_bnd same_ret same_fault archivesD(2) [OF ar])
  show ?thesis
    unfolding make_archive_def Let_def p Compressor_Compress_def eq
  proof (rule meets_bnd [OF S1], (intro keeps)[1], rule meets_bnd [OF S2], assumption, rule sf)
    fix y and w2 :: "('x, 'm) b_world_scheme"
    assume "y = ?p \<and> (\<exists>t. fs_get (w_fs w2) = (fs_get ?f)(resolve ?p \<mapsto> File (pack ?f) t))"
    then obtain t where y: "y = ?p" and w2: "fs_get (w_fs w2) = (fs_get ?f)(resolve ?p \<mapsto> File (pack ?f) t)" by blast
    show "meets (case bk_encrypter b of None \<Rightarrow> ret y
      | Some e \<Rightarrow> counted ''encrypt'' ''error encrypting backup'' (Encrypt aes e y)) ?Q w2"
      unfolding y by (rule S3 [OF w2])
  qed
qed

lemma meets_fail: "\<not> quiet w \<Longrightarrow> meets (fail e) Q w"
  by (simp add: meets_def wp_fail)

lemma same_fault_upd_metrics:
  "same w_fault (upd (\<lambda>w. w\<lparr>m_totalBackups := f w\<rparr>) :: (('x, 'm) m_world_scheme, unit) go)"
  "same w_fault (upd (\<lambda>w. w\<lparr>m_backupSuccess := k w\<rparr>) :: (('x, 'm) m_world_scheme, unit) go)"
  "same w_fault (upd (\<lambda>w. w\<lparr>m_backupSize := k w\<rparr>) :: (('x, 'm) m_world_scheme, unit) go)"
  by (rule same_upd, simp)+

lemma meets_CountBackup:
  fixes w :: "('x, 'm) m_world_scheme"
  assumes "parents_ok (w_fs w) (resolve y)" "fs_get (w_fs w) (resolve y) = Some n"
  shows "meets (CountBackup y) (\<lambda>_ w'. w_fs w' = w_fs w) w"
proof -
  have st: "meets (attempt (os_Stat y)) (\<lambda>r w'. case r of Inl e \<Rightarrow> \<not> quiet w' | Inr m \<Rightarrow> w_fs w' = w_fs w) w"
  proof (rule meets_attempt)
    show "meets (os_Stat y) (\<lambda>x w'. case Inr x of Inl e \<Rightarrow> \<not> quiet w' | Inr m \<Rightarrow> w_fs w' = w_fs w) w"
      by (rule meets_mono [OF meets_Stat [OF assms]]) simp
    fix e w'
    assume r: "os_Stat y w = (Inl e, w')" and "\<not> quiet w"
    have "same surroundings (os_Stat y :: (('x, 'm) m_world_scheme, node) go)" by (intro keeps)
    then have "surroundings w' = surroundings w" using r by (rule sameD)
    then show "case Inl e of Inl e \<Rightarrow> \<not> quiet w' | Inr m \<Rightarrow> w_fs w' = w_fs w"
      using \<open>\<not> quiet w\<close> quiet_surroundings by fastforce
  qed
  show ?thesis unfolding CountBackup_def
  proof (rule meets_bnd [OF st], (intro same_attempt same_fault same_surroundings_os)[1], goal_cases)
    case (1 r w1)
    then show ?case
      by (cases r) (auto simp: meets_def wp_bnd wp_upd wp_fail quiet_def)
  qed
qed

text \<open>The file is opened, uploaded and counted.\<close>

lemma meets_ship:
  fixes w :: "('x, 'm) b_world_scheme"
  assumes c: "local_ready c" "lp_currentBackupName w = FormatInt (int i)" and site: "site c i (w_fs w)"
    and src: "parents_ok (w_fs w) (resolve y)" "fs_get (w_fs w) (resolve y) = Some (File x t)"
    and up: "strict_prefix (resolve BackupDir) (resolve y)"
  shows "meets (bnd (counted ''open'' ''error opening backup file'' (os_Open y)) (\<lambda>fd.
     bnd (counted ''upload'' ''error uploading backup'' (Local_UploadBackup c (file_reader fd))) (\<lambda>_. CountBackup y)))
     (\<lambda>_ w'. file_at (w_fs w') (slot c i) = Some x) w"
proof -
  have apart: "slot c i \<noteq> resolve y" using site up by (auto simp: site_def simp del: resolve_dirs)
  have apart': "\<not> strict_prefix (slot c i) (resolve y) \<or> is_dir (fs_get (w_fs w) (slot c i))"
    using src(1) by (auto simp: parents_ok_iff)
  have o: "meets (counted ''open'' ''error opening backup file'' (os_Open y)) (\<lambda>fd w1. (fd = w_nfd w \<and> w_fs w1 = w_fs w \<and>
    w_nfd w1 = Suc (w_nfd w) \<and> w_fds w1 = (w_fds w)(fd \<mapsto> \<lparr>h_path = resolve y, h_off = 0, h_rd = True, h_wr = False\<rparr>)) \<and>
    surroundings w1 = surroundings w) w"
    by (rule meets_counted, rule meets_frame [OF meets_Open [OF src]]) (intro keeps)
  show ?thesis
  proof (rule meets_bnd [OF o], (intro same_fault_counted same_fault same_surroundings_os)[1], goal_cases)
    case (1 fd w1)
    have name: "lp_currentBackupName w1 = FormatInt (int i)" using 1 c(2) surroundings_lp [of w1 w] by simp
    let ?Q = "\<lambda>_ w2. \<exists>s. fs_get (w_fs w2) = (fs_get (w_fs w))(slot c i \<mapsto> File x s)"
    have u: "meets (counted ''upload'' ''error uploading backup'' (Local_UploadBackup c (file_reader fd))) ?Q w1"
    proof (rule meets_counted, rule meets_Local_Upload [OF c(1) name], goal_cases)
      case (3 w2 t2)
      let ?hi = "\<lparr>h_path = resolve y, h_off = 0, h_rd = True, h_wr = False\<rparr>"
      let ?hq = "\<lparr>h_path = slot c i, h_off = 0, h_rd = True, h_wr = True\<rparr>"
      have i: "w_fds w2 fd = Some ?hi" "h_rd ?hi" "fs_get (w_fs w2) (h_path ?hi) = Some (File x t)"
        using 3 1 apart src by auto
      have q: "w_fds w2 (w_nfd w1) = Some ?hq" "h_wr ?hq" "fs_get (w_fs w2) (h_path ?hq) = Some (File [] t2)"
        "h_path ?hq \<noteq> []" "fd \<noteq> w_nfd w1" "h_off ?hq \<le> length ([] :: byte list)"
        using 3 1 by (auto simp: slot_def)
      show ?case
        by (rule meets_mono [OF meets_copy [OF i q]]) (use 3 1 in \<open>auto simp: overwrite_start\<close>)
    qed (use 1 site in \<open>auto simp: site_def simp del: resolve_dirs\<close>)
    have sf: "same w_fault (counted ''upload'' ''error uploading backup'' (Local_UploadBackup c (file_reader fd))
       :: (('x, 'm) b_world_scheme, unit) go)"
      unfolding Local_UploadBackup_def Let_def
      by (intro same_fault_counted same_bnd same_asks same_wrapE same_io_Copy same_fault same_surroundings_os)
    show ?case
    proof (rule meets_bnd [OF u sf])
      fix w2 :: "('x, 'm) b_world_scheme"
      assume "\<exists>s. fs_get (w_fs w2) = (fs_get (w_fs w))(slot c i \<mapsto> File x s)"
      then obtain s where fs: "fs_get (w_fs w2) = (fs_get (w_fs w))(slot c i \<mapsto> File x s)" by blast
      have par: "parents_ok (w_fs w2) (resolve y)"
        by (rule parents_ok_cong [OF src(1)]) (use apart' site in \<open>auto simp: fs site_def\<close>)
      have at: "fs_get (w_fs w2) (resolve y) = Some (File x t)" using fs src(2) apart by simp
      show "meets (CountBackup y) (\<lambda>_ w'. file_at (w_fs w') (slot c i) = Some x) w2"
        by (rule meets_mono [OF meets_CountBackup [OF par at]]) (simp add: fs file_at_def)
    qed
  qed
qed

lemma same_make_archive:
  fixes g :: "('x, 'm) b_world_scheme \<Rightarrow> 'g"
  assumes ar: "archives ar pack" and g: "\<And>w w'. surroundings w = surroundings w' \<Longrightarrow> g w = g w'"
    and e: "\<And>op w. g (snd (CountError op w)) = g w"
  shows "same g (make_archive ar aes b n)"
proof -
  have c: "same g (counted op msg m)" if "same surroundings m" for op msg and m :: "(('x, 'm) b_world_scheme, 'z) go"
  proof -
    have "same g m" by (rule same_comp [OF that]) (rule g)
    moreover have "same g (CountError op)" using e by (simp add: same_def)
    ultimately show ?thesis unfolding counted_def by (intro same_bnd same_attempt same_sum same_fail same_ret)
  qed
  show ?thesis
    unfolding make_archive_def Let_def Compressor_Compress_def
    by (intro same_bnd same_option same_ret c archivesD(2) [OF ar] same_surroundings_os same_Encrypt)
qed

text \<open>The bytes \<open>x\<close> are a stored backup of the file system \<open>g\<close>.\<close>

definition backup_of ::
  "(byte list \<Rightarrow> block_fn) \<Rightarrow> compressor \<Rightarrow> encrypter option \<Rightarrow> (fs \<Rightarrow> byte list) \<Rightarrow> nat \<Rightarrow> fs \<Rightarrow> byte list \<Rightarrow> bool" where
  "backup_of aes cmp eo pack i g x \<longleftrightarrow>
     (\<exists>f. (\<forall>q. fs_get f q = (if prefix (resolve BackupDir @ [archive_name cmp i]) q then None else fs_get g q)) \<and> decoded aes eo x = pack f) \<and>
     (eo \<noteq> None \<longrightarrow> aes_BlockSize \<le> length x)"

lemma attempt_ret: "attempt (ret x) = ret (Inr x)"
  by (auto simp: attempt_def ret_def)

lemma backup_stages_local:
  assumes "bk_bp b = local_provider c sws"
  shows "backup_stages ar aes b =
    bnd (counted ''create'' ''database backup failed'' (db_Backup (bk_db b))) (\<lambda>_.
    bnd (Local_GetNextBackupName c) (\<lambda>n.
    bnd (make_archive ar aes b n) (\<lambda>y.
    bnd (counted ''open'' ''error opening backup file'' (os_Open y)) (\<lambda>fd.
     bnd (counted ''upload'' ''error uploading backup'' (Local_UploadBackup c (file_reader fd))) (\<lambda>_. CountBackup y)))))"
  by (simp add: backup_stages_def assms local_provider_def Local_CleanupBackups_def attempt_ret)

lemma meets_CreateBackup:
  fixes w :: "('x, 'm) b_world_scheme"
  assumes ar: "archives ar pack" and cmp: "Compressor_New meth = Inr (bk_comp b)" and key: "good_key (bk_encrypter b)"
    and bp: "bk_bp b = local_provider c sws" and c: "local_ready c" "i < keep_of c" "lp_nextBackupCount w = of_nat i"
    and free: "\<not> b_sem_taken w"
    and db: "meets (db_Backup (bk_db b)) (\<lambda>_ v. dump (w_fs v)) (w\<lparr>b_sem_taken := True\<rparr>)" "same w_fault (db_Backup (bk_db b))"
      "same lp_nextBackupCount (db_Backup (bk_db b))"
    and dump: "\<And>g. dump g \<Longrightarrow> site c i g \<and> fs_get g (resolve BackupDir @ [archive_name (bk_comp b) i @ enc_suffix]) = None"
  shows "meets (CreateBackup ar aes b) (\<lambda>_ w'. \<exists>g x. dump g \<and> backup_of aes (bk_comp b) (bk_encrypter b) pack i g x \<and>
    file_at (w_fs w') (slot c i) = Some x) w"
    (is "meets _ ?Q w")
proof -
  have D: "meets (counted ''create'' ''database backup failed'' (db_Backup (bk_db b)))
      (\<lambda>_ v. dump (w_fs v) \<and> lp_nextBackupCount v = of_nat i) (w\<lparr>b_sem_taken := True\<rparr>)"
    by (rule meets_counted, rule meets_mono [OF meets_frame [OF db(1,3)]]) (simp add: c(3))
  have N: "meets (Local_GetNextBackupName c) (\<lambda>n v'. n = FormatInt (int i) \<and> w_fs v' = w_fs v \<and>
      lp_currentBackupName v' = FormatInt (int i)) v"
    if "lp_nextBackupCount v = of_nat i" for v :: "('x, 'm) b_world_scheme"
    using GetNextBackupName_run [OF c(1,2) that] by (simp add: meets_def wp_def)
  have sN: "same w_fault (Local_GetNextBackupName c :: (('x, 'm) b_world_scheme, string) go)"
    unfolding Local_GetNextBackupName_def by (intro same_bnd same_asks same_upd same_liftR same_ret) simp_all
  have sM: "same w_fault (make_archive ar aes b n)" for n
    by (rule same_make_archive [OF ar]) (simp_all add: surroundings_def CountError_run)
  have sC: "same lp_currentBackupName (make_archive ar aes b n)" for n
    by (rule same_make_archive [OF ar], use surroundings_lp in blast, simp add: CountError_run)
  have "meets (backup_stages ar aes b) ?Q (w\<lparr>b_sem_taken := True\<rparr>)"
    unfolding backup_stages_local [OF bp]
  proof (rule meets_bnd [OF D same_fault_counted [OF db(2)]])
    fix v :: "('x, 'm) b_world_scheme"
    assume v: "dump (w_fs v) \<and> lp_nextBackupCount v = of_nat i"
    show "meets (bnd (Local_GetNextBackupName c) (\<lambda>n. bnd (make_archive ar aes b n) (\<lambda>y.
      bnd (counted ''open'' ''error opening backup file'' (os_Open y)) (\<lambda>fd.
      bnd (counted ''upload'' ''error uploading backup'' (Local_UploadBackup c (file_reader fd))) (\<lambda>_. CountBackup y))))) ?Q v"
    proof (rule meets_bnd [OF N sN])
      show "lp_nextBackupCount v = of_nat i" using v by simp
      fix n and v1 :: "('x, 'm) b_world_scheme"
      assume n: "n = FormatInt (int i) \<and> w_fs v1 = w_fs v \<and> lp_currentBackupName v1 = FormatInt (int i)"
      have site: "site c i (w_fs v1)" "fs_get (w_fs v1) (resolve BackupDir @ [archive_name (bk_comp b) i @ enc_suffix]) = None"
        using dump v n by auto
      show "meets (bnd (make_archive ar aes b n) (\<lambda>y.
        bnd (counted ''open'' ''error opening backup file'' (os_Open y)) (\<lambda>fd.
        bnd (counted ''upload'' ''error uploading backup'' (Local_UploadBackup c (file_reader fd))) (\<lambda>_. CountBackup y)))) ?Q v1"
      proof (unfold conjunct1 [OF n], rule meets_bnd [OF meets_frame [OF meets_make_archive [OF ar cmp key site] sC] sM])
        fix y and v2 :: "('x, 'm) b_world_scheme"
        assume y: "(beside BackupDir (w_fs v1) (w_fs v2) \<and>
          (\<exists>f x t. (\<forall>q. fs_get f q = (if prefix (resolve BackupDir @ [archive_name (bk_comp b) i]) q then None else fs_get (w_fs v1) q)) \<and>
            decoded aes (bk_encrypter b) x = pack f \<and> (bk_encrypter b \<noteq> None \<longrightarrow> aes_BlockSize \<le> length x) \<and>
            parents_ok (w_fs v2) (resolve y) \<and> fs_get (w_fs v2) (resolve y) = Some (File x t) \<and>
            strict_prefix (resolve BackupDir) (resolve y))) \<and> lp_currentBackupName v2 = lp_currentBackupName v1"
        then obtain f x t where f: "\<forall>q. fs_get f q = (if prefix (resolve BackupDir @ [archive_name (bk_comp b) i]) q then None else fs_get (w_fs v1) q)"
          "decoded aes (bk_encrypter b) x = pack f" "bk_encrypter b \<noteq> None \<longrightarrow> aes_BlockSize \<le> length x"
          and src: "parents_ok (w_fs v2) (resolve y)" "fs_get (w_fs v2) (resolve y) = Some (File x t)"
            "strict_prefix (resolve BackupDir) (resolve y)" by blast
        have b: "backup_of aes (bk_comp b) (bk_encrypter b) pack i (w_fs v) x"
          unfolding backup_of_def using f n by (intro conjI exI [of _ f]) (simp_all del: resolve_dirs)
        have s2: "site c i (w_fs v2)" using site_beside [OF site(1)] y by blast
        have c2: "lp_currentBackupName v2 = FormatInt (int i)" using y n by simp
        show "meets (bnd (counted ''open'' ''error opening backup file'' (os_Open y)) (\<lambda>fd.
          bnd (counted ''upload'' ''error uploading backup'' (Local_UploadBackup c (file_reader fd))) (\<lambda>_. CountBackup y))) ?Q v2"
          by (rule meets_mono [OF meets_ship [OF c(1) c2 s2 src]]) (use b v in blast)
      qed
    qed
  qed
  then show ?thesis
    by (auto simp: meets_def wp_def CreateBackup_free [OF free] deferred_run Release_def quiet_def split: prod.splits sum.splits)
qed

section \<open>What is fetched\<close>

text \<open>The backup \<open>x\<close> lies in the file \<open>s\<close>, outside the download directory; \<open>out\<close>, if any, is the path
  that the plain archive will have, and what is there now.  At the site the restore directory is there and
  empty as well.\<close>

definition fetch_base :: "fpath \<Rightarrow> (fpath \<times> node option) option \<Rightarrow> byte list \<Rightarrow> fs \<Rightarrow> bool" where
  "fetch_base s out x f \<longleftrightarrow> parents_ok f (resolve DownloadDir) \<and> is_dir (fs_get f (resolve DownloadDir)) \<and>
     parents_ok f s \<and> file_at f s = Some x \<and> (\<forall>p nd. out = Some (p, nd) \<longrightarrow> fs_get f p = nd) \<and> \<not> prefix (resolve DownloadDir) s"

definition restore_empty :: "fs \<Rightarrow> bool" where
  "restore_empty f \<longleftrightarrow> is_dir (fs_get f (resolve RestoreDir)) \<and> (\<forall>q. strict_prefix (resolve RestoreDir) q \<longrightarrow> fs_get f q = None)"

lemma restore_empty_cong: "restore_empty f \<Longrightarrow> (\<And>q. prefix (resolve RestoreDir) q \<Longrightarrow> fs_get g q = fs_get f q) \<Longrightarrow> restore_empty g"
  by (simp add: restore_empty_def strict_prefix_def)

definition fetch_site :: "fpath \<Rightarrow> (fpath \<times> node option) option \<Rightarrow> byte list \<Rightarrow> fs \<Rightarrow> bool" where
  "fetch_site s out x f \<longleftrightarrow> fetch_base s out x f \<and> restore_empty f"

definition beyond :: "fpath \<Rightarrow> fs \<Rightarrow> fs \<Rightarrow> bool" where
  "beyond p f g \<longleftrightarrow> (\<forall>q. \<not> prefix p q \<longrightarrow> fs_get g q = fs_get f q)"

lemma beyond_trans: "beyond p f g \<Longrightarrow> beyond p g h \<Longrightarrow> beyond p f h"
  by (simp add: beyond_def)

lemma Download_Restore: "resolve RestoreDir = resolve DownloadDir @ [''files'']"
  by simp

text \<open>A change at a file of the download directory that is not the restore directory, nor one that is
  awaited, leaves the site intact.\<close>

lemma fetch_base_beyond:
  assumes "fetch_base s out x f" "beyond (resolve DownloadDir @ [n]) f g"
    and "\<And>p nd. out = Some (p, nd) \<Longrightarrow> \<exists>m. p = resolve DownloadDir @ [m] \<and> m \<noteq> n"
  shows "fetch_base s out x g"
proof -
  let ?D = "resolve DownloadDir" and ?p = "resolve DownloadDir @ [n]"
  have keep: "fs_get g q = fs_get f q" if "\<not> prefix ?p q" for q using that assms(2) by (simp only: beyond_def simp_thms)
  have long: "\<not> prefix ?p q" if "prefix q ?D" for q
    using that by (auto dest!: prefix_length_le simp del: resolve_dirs)
  have s: "\<not> prefix ?p q" if "prefix q s" for q
    using that assms(1) unfolding fetch_base_def by (meson append_prefixD prefix_order.trans)
  have o': "\<not> prefix ?p p" if "out = Some (p, nd)" for p nd
    using assms(3) [OF that] by (auto simp del: resolve_dirs)
  have "parents_ok g ?D" "parents_ok g s"
    using assms(1) keep long s unfolding fetch_base_def by (blast intro: parents_ok_cong prefix_order.less_imp_le)+
  then show ?thesis using assms(1) keep [OF long] keep [OF s] keep [OF o'] unfolding fetch_base_def file_at_def by simp
qed

lemma fetch_site_beyond:
  assumes "fetch_site s out x f" "beyond (resolve DownloadDir @ [n]) f g" "n \<noteq> ''files''"
    and "\<And>p nd. out = Some (p, nd) \<Longrightarrow> \<exists>m. p = resolve DownloadDir @ [m] \<and> m \<noteq> n"
  shows "fetch_site s out x g"
proof -
  have "\<not> prefix (resolve DownloadDir @ [n]) q" if "prefix (resolve RestoreDir) q" for q
    using that assms(3) unfolding Download_Restore by (auto simp: prefix_def)
  then have "restore_empty f \<Longrightarrow> restore_empty g"
    using assms(2) unfolding beyond_def by (blast intro: restore_empty_cong)
  then show ?thesis
    using assms(1) fetch_base_beyond [OF _ assms(2,4)] unfolding fetch_site_def by simp
qed

lemma no_slash: "slash \<notin> set n \<Longrightarrow> \<not> strings_Contains n ''/''"
  by (induction n) auto

lemma download_path_plain:
  assumes "plain_name (bv_name v)"
  obtains d where "download_path v = d @ slash # bv_name v" "resolve d = resolve DownloadDir"
proof -
  have "download_path v = path_Join [DownloadDir, bv_name v]"
    using assms no_slash by (simp add: download_path_def plain_name_def)
  with Join_file [OF rooted_dirs(4) assms] show ?thesis using that by metis
qed

text \<open>How the name of a stored backup, the key and the name of the plain archive belong together.\<close>

definition names_fit :: "encrypter option \<Rightarrow> string \<Rightarrow> string \<Rightarrow> bool" where
  "names_fit eo n m \<longleftrightarrow> n = m @ (case eo of None \<Rightarrow> '''' | Some _ \<Rightarrow> enc_suffix) \<and> plain_name m \<and> m \<noteq> ''files'' \<and> n \<noteq> ''files''"

lemma names_fit_plain: "names_fit eo n m \<Longrightarrow> plain_name n"
  by (auto simp: names_fit_def split: option.splits)

definition awaited :: "encrypter option \<Rightarrow> string \<Rightarrow> node option \<Rightarrow> (fpath \<times> node option) option" where
  "awaited eo m old = (case eo of None \<Rightarrow> None | Some _ \<Rightarrow> Some (resolve DownloadDir @ [m], old))"

text \<open>What the archiver is given: over an old plain archive the new one is written from the start.\<close>

definition handed :: "(byte list \<Rightarrow> block_fn) \<Rightarrow> encrypter option \<Rightarrow> node option \<Rightarrow> byte list \<Rightarrow> byte list" where
  "handed aes eo old x = (case eo of None \<Rightarrow> x | Some _ \<Rightarrow> overwrite (opened False old) 0 (decoded aes eo x))"

lemma handed_new: "handed aes eo None x = decoded aes eo x"
  by (cases eo) (simp_all add: handed_def decoded_def overwrite_new)

lemma awaited_apart: "names_fit eo n m \<Longrightarrow> awaited eo m old = Some (p, nd) \<Longrightarrow> \<exists>k. p = resolve DownloadDir @ [k] \<and> k \<noteq> n"
  by (auto simp: names_fit_def awaited_def enc_suffix_def simp del: resolve_dirs split: option.splits)

text \<open>Download and decryption: the path that is handed to the archiver holds the archive.\<close>

lemma meets_fetch_backup:
  fixes w :: "('x, 'm) i_world_scheme"
  assumes bp: "in_bp i = local_provider c sws" and root: "rooted (lc_LocalBackupPath c)"
    and fit: "names_fit (in_encrypter i) (bv_name v) m" and key: "good_key (in_encrypter i)"
    and len: "in_encrypter i \<noteq> None \<longrightarrow> aes_BlockSize \<le> length x" and old: "\<not> is_dir old"
    and site: "fetch_site (resolve (lc_LocalBackupPath c) @ [bv_name v]) (awaited (in_encrypter i) m old) x (w_fs w)"
    and fd: "w_fds w fd = Some h" "h_path h = resolve DownloadDir @ [bv_name v]" "h_off h = 0" "h_wr h" "fd < w_nfd w"
    and new: "fs_get (w_fs w) (resolve DownloadDir @ [bv_name v]) = Some (File [] t)"
  shows "meets (fetch_backup aes i v fd) (\<lambda>y w'. suffix m y \<and> parents_ok (w_fs w') (resolve y) \<and>
     file_at (w_fs w') (resolve y) = Some (handed aes (in_encrypter i) old x) \<and> restore_empty (w_fs w')) w"
    (is "meets _ ?Q w")
proof -
  let ?n = "bv_name v" and ?D = "resolve DownloadDir" and ?s = "resolve (lc_LocalBackupPath c) @ [bv_name v]"
  let ?p = "?D @ [?n]"
  have n: "plain_name ?n" by (rule names_fit_plain [OF fit])
  obtain d where d: "download_path v = d @ slash # ?n" "resolve d = ?D" by (rule download_path_plain [OF n])
  have rp: "resolve (download_path v) = ?p" unfolding d(1) using n d(2) by simp
  obtain tx where src: "parents_ok (w_fs w) ?s" "fs_get (w_fs w) ?s = Some (File x tx)"
    using site unfolding fetch_site_def fetch_base_def file_at_Some by blast
  have hq: "fs_get (w_fs w) (h_path h) = Some (File [] t)" "h_path h \<noteq> []" "h_off h \<le> length ([] :: byte list)"
    using fd new by simp_all
  have D: "meets (wrapE ''unable to download backup'' (bp_DownloadBackup (in_bp i) v (file_Write fd)))
      (\<lambda>_ w1. \<exists>s. fs_get (w_fs w1) = (fs_get (w_fs w))(?p \<mapsto> File x s)) w"
    unfolding bp local_provider_def provider.simps
    by (rule meets_wrapE, rule meets_mono [OF meets_Local_Download [OF root n src fd(1,4) hq(1,2) fd(5) hq(3)]])
      (auto simp: fd(2,3) overwrite_start simp del: resolve_dirs)
  have sD: "same w_fault (wrapE ''unable to download backup'' (bp_DownloadBackup (in_bp i) v (file_Write fd)))"
    unfolding bp local_provider_def provider.simps Local_DownloadBackup_def Let_def
    by (intro same_wrapE same_bnd same_deferred same_io_Copy same_fault same_surroundings_os) simp
  show ?thesis unfolding fetch_backup_def Let_def
  proof (rule meets_bnd [OF D sD])
    fix w1 :: "('x, 'm) i_world_scheme"
    assume "\<exists>s. fs_get (w_fs w1) = (fs_get (w_fs w))(?p \<mapsto> File x s)"
    then obtain s where w1: "fs_get (w_fs w1) = (fs_get (w_fs w))(?p \<mapsto> File x s)" by blast
    have files: "?n \<noteq> ''files''" using fit unfolding names_fit_def by blast
    have site1: "fetch_site ?s (awaited (in_encrypter i) m old) x (w_fs w1)"
      by (rule fetch_site_beyond [OF site _ files awaited_apart [OF fit]]) (auto simp: beyond_def w1 simp del: resolve_dirs)
    have empty: "restore_empty (w_fs w1)"
      using site1 unfolding fetch_site_def by blast
    show "meets (case in_encrypter i of None \<Rightarrow> ret (download_path v)
       | Some e \<Rightarrow> if IsEncrypted (download_path v)
                  then wrapE ''unable to decrypt backup'' (Decrypt aes e (download_path v))
                  else ret (download_path v)) ?Q w1"
    proof (cases "in_encrypter i")
      case None
      have "parents_ok (w_fs w1) (resolve (download_path v))"
        using site1 unfolding rp parents_ok_snoc fetch_site_def fetch_base_def by blast
      moreover have "file_at (w_fs w1) (resolve (download_path v)) = Some x" unfolding rp file_at_def w1 by simp
      moreover have "handed aes (in_encrypter i) old x = x" unfolding None handed_def by simp
      moreover have "suffix m (download_path v)" using fit unfolding d(1) names_fit_def None by (auto simp: suffix_def)
      ultimately have q: "?Q (download_path v) w1" using empty by (intro conjI) simp_all
      have "meets (ret (download_path v)) ?Q w1" by (rule meets_ret, rule q)
      then show ?thesis by (simp only: None option.case)
    next
      case (Some e)
      let ?q = "d @ slash # m"
      have m: "?n = m @ enc_suffix" "plain_name m" using fit unfolding names_fit_def Some by simp_all
      have dp: "download_path v = ?q @ enc_suffix" unfolding d(1) m(1) by simp
      have rq: "resolve ?q = ?D @ [m]" using m(2) d(2) by simp
      have par: "parents_ok (w_fs w1) (resolve ?q)" using site1 unfolding rq parents_ok_snoc fetch_site_def fetch_base_def by blast
      have none: "fs_get (w_fs w1) (resolve ?q) = old" using site1 unfolding rq fetch_site_def fetch_base_def awaited_def Some by simp
      have at: "fs_get (w_fs w1) (resolve (?q @ enc_suffix)) = Some (File x s)" unfolding dp [symmetric] rp w1 by simp
      have k: "length (enc_key e) = 32" using key unfolding Some good_key_def by simp
      have l: "aes_BlockSize \<le> length x" using len Some by simp
      have nodir: "\<not> is_dir (fs_get (w_fs w1) (resolve ?q))" using none old by simp
      have "meets (Decrypt aes e (?q @ enc_suffix)) ?Q w1"
      proof (rule meets_mono [OF meets_Decrypt [OF refl m(2) par at nodir k l]], elim conjE exE, goal_cases)
        case (1 y w2 s2 u)
        have ne: "resolve (?q @ enc_suffix) \<noteq> resolve ?q" by (rule sibling(3) [OF refl m(2)])
        have "file_at (w_fs w2) (resolve y) = Some (handed aes (in_encrypter i) old x)"
          using ne unfolding 1(1,3) none Some handed_def decoded_def Let_def option.case file_at_def by simp
        moreover have "parents_ok (w_fs w2) (resolve y)" unfolding 1(1)
        proof (rule parents_ok_cong [OF par])
          fix q assume "strict_prefix q (resolve ?q)"
          then have "length q < length (resolve ?q)" by (rule prefix_length_less)
          then have "q \<noteq> resolve ?q" "q \<noteq> resolve (?q @ enc_suffix)" unfolding rq dp [symmetric] rp by auto
          then show "fs_get (w_fs w2) q = fs_get (w_fs w1) q" unfolding 1(3) by simp
        qed
        moreover have "restore_empty (w_fs w2)"
        proof (rule restore_empty_cong [OF empty])
          fix q assume "prefix (resolve RestoreDir) q"
          then have "q \<noteq> resolve ?q" "q \<noteq> resolve (?q @ enc_suffix)"
            using files fit unfolding rq dp [symmetric] rp Download_Restore names_fit_def by (auto simp del: resolve_dirs)
          then show "fs_get (w_fs w2) q = fs_get (w_fs w1) q" unfolding 1(3) by simp
        qed
        moreover have "suffix m y" unfolding 1(1) by (auto simp: suffix_def)
        ultimately show ?case by simp
      qed
      then show ?thesis unfolding Some option.case dp if_P [OF IsEncrypted_suffix] by (rule meets_wrapE)
    qed
  qed
qed


lemma meets_set [simp]: "meets (set_status st) (\<lambda>_ w'. w_fs w' = w_fs w) w" "meets (set_message msg) (\<lambda>_ w'. w_fs w' = w_fs w) w"
  for w :: "('x, 'm) i_world_scheme"
  by (simp_all add: set_status_def set_message_def meets_upd)

lemma same_fault_set: "same w_fault (set_status st :: (('x, 'm) i_world_scheme, unit) go)"
  "same w_fault (set_message msg :: (('x, 'm) i_world_scheme, unit) go)"
  unfolding set_status_def set_message_def by (rule same_upd, simp)+

text \<open>The restore directory is made new.\<close>

lemma meets_new_RestoreDir:
  fixes w :: "('x, 'm) world_scheme"
  assumes "parents_ok (w_fs w) (resolve DownloadDir)" "is_dir (fs_get (w_fs w) (resolve DownloadDir))"
  shows "meets (bnd (wrapE m1 (os_RemoveAll RestoreDir)) (\<lambda>_. wrapE m2 (os_MkdirAll RestoreDir)))
    (\<lambda>_ w'. beyond (resolve RestoreDir) (w_fs w) (w_fs w') \<and>
      restore_empty (w_fs w')) w"
proof -
  have "parents_ok (w_fs w) (resolve RestoreDir)" using assms unfolding Download_Restore parents_ok_snoc by blast
  then show ?thesis
    by (intro meets_mono [OF meets_new_dir]) (auto simp: beyond_def restore_empty_def)
qed


text \<open>What the steps before the unpacking leave alone.\<close>

definition undisturbed ::
  "(('x, 'm) i_world_scheme \<Rightarrow> bool) \<Rightarrow> (byte list \<Rightarrow> block_fn) \<Rightarrow> ('x, 'm) i_world_scheme initializer \<Rightarrow> version \<Rightarrow> bool" where
  "undisturbed J aes i v \<longleftrightarrow> (\<forall>s. keeps J (set_status s)) \<and> (\<forall>s. keeps J (set_message s)) \<and>
     keeps J (os_RemoveAll RestoreDir) \<and> keeps J (os_MkdirAll RestoreDir) \<and> keeps J (os_RemoveAll (download_path v)) \<and>
     keeps J (os_Create (download_path v)) \<and> (\<forall>fd. keeps J (fetch_backup aes i v fd))"

lemma keeps_unpacked: "keeps (\<lambda>w. U (w_fs w)) (set_message s)"
  unfolding set_message_def by (rule keeps_upd) simp

lemma undisturbed_True: "undisturbed (\<lambda>_. True) aes i v"
  by (simp add: undisturbed_def keeps_def)

lemma meets_bnd_keeps:
  assumes "meets m R w" "same w_fault m" "keeps J m" "J w"
    and "\<And>x w1. R x w1 \<Longrightarrow> J w1 \<Longrightarrow> meets (k x) Q w1"
  shows "meets (bnd m k) Q w"
proof -
  have "meets m (\<lambda>x w1. R x w1 \<and> J w1) w"
    using assms(1,4) keepsD [OF assms(3)] by (auto simp: meets_def wp_def split: prod.splits sum.splits)
  then show ?thesis by (rule meets_bnd [OF _ assms(2)]) (simp add: assms(5))
qed

text \<open>The whole restore, with the archiver and the database known by their effect on an archive of
  the content \<open>decoded aes eo x\<close> and an empty restore directory, in worlds where \<open>J\<close> holds.\<close>

lemma meets_Restore:
  fixes w :: "('x, 'm) i_world_scheme"
  assumes bp: "in_bp i = local_provider c sws" and root: "rooted (lc_LocalBackupPath c)"
    and fit: "names_fit (in_encrypter i) (bv_name v) m" and key: "good_key (in_encrypter i)"
    and len: "in_encrypter i \<noteq> None \<longrightarrow> aes_BlockSize \<le> length x" and old: "\<not> is_dir old"
    and base: "fetch_base (resolve (lc_LocalBackupPath c) @ [bv_name v]) (awaited (in_encrypter i) m old) x (w_fs w)"
    and J: "undisturbed J aes i v" "J w"
    and un: "\<And>p w1. J w1 \<Longrightarrow> suffix m p \<Longrightarrow> parents_ok (w_fs w1) (resolve p) \<Longrightarrow> file_at (w_fs w1) (resolve p) = Some (handed aes (in_encrypter i) old x) \<Longrightarrow>
      restore_empty (w_fs w1) \<Longrightarrow>
      meets (archiver_Unarchive ar p DownloadDir) (\<lambda>_. U) w1"
      "\<And>p. same w_fault (archiver_Unarchive ar p DownloadDir)"
    and stays: "\<And>s. keeps U (set_message s)"
    and rec: "\<And>w2. U w2 \<Longrightarrow> meets (db_Recover (in_db i)) (\<lambda>_ w3. R (w_fs w3)) w2"
  shows "meets (Restore ar aes i v) (\<lambda>_ w'. R (w_fs w')) w"
proof -
  let ?n = "bv_name v" and ?D = "resolve DownloadDir" and ?s = "resolve (lc_LocalBackupPath c) @ [bv_name v]"
  let ?o = "awaited (in_encrypter i) m old" and ?Q = "\<lambda>_ w'. R (w_fs w')"
  have n: "plain_name ?n" by (rule names_fit_plain [OF fit])
  obtain d where d: "download_path v = d @ slash # ?n" "resolve d = ?D" by (rule download_path_plain [OF n])
  have rp: "resolve (download_path v) = ?D @ [?n]" unfolding d(1) using n d(2) by simp
  have files: "?n \<noteq> ''files''" using fit unfolding names_fit_def by blast
  note apart = awaited_apart [OF fit]
  have apart': "\<exists>k. p = ?D @ [k] \<and> k \<noteq> ''files''" if "?o = Some (p, nd)" for p nd
    using that fit unfolding names_fit_def awaited_def by (auto split: option.splits simp del: resolve_dirs)
  have K: "keeps J (set_status st)" "keeps J (set_message msg)" "keeps J (os_RemoveAll RestoreDir)" "keeps J (os_MkdirAll RestoreDir)"
    "keeps J (os_RemoveAll (download_path v))" "keeps J (os_Create (download_path v))" "keeps J (fetch_backup aes i v fd)" for st msg fd
    using J(1) unfolding undisturbed_def by blast+
  have unpack: "meets (bnd (set_message m1) (\<lambda>_. bnd (wrapE m2 (Compressor_Decompress ar (in_comp i) y)) (\<lambda>_.
       bnd (set_message m3) (\<lambda>_. wrapE m4 (db_Recover (in_db i)))))) ?Q w1"
    if "J w1" "suffix m y \<and> parents_ok (w_fs w1) (resolve y) \<and> file_at (w_fs w1) (resolve y) = Some (handed aes (in_encrypter i) old x) \<and>
      restore_empty (w_fs w1)" for y m1 m2 m3 m4 and w1 :: "('x, 'm) i_world_scheme"
    unfolding Decompress_target
  proof (rule meets_bnd_keeps [OF meets_set(2) same_fault_set(2) K(2) that(1)], rule meets_bnd [where R = "\<lambda>_. U"])
    fix w2 :: "('x, 'm) i_world_scheme"
    assume "w_fs w2 = w_fs w1" "J w2"
    then show "meets (wrapE m2 (archiver_Unarchive ar y DownloadDir)) (\<lambda>_. U) w2"
      using that(2) by - (rule meets_wrapE, rule un(1), simp_all)
  next
    fix w2 :: "('x, 'm) i_world_scheme"
    assume "U w2"
    then show "meets (bnd (set_message m3) (\<lambda>_. wrapE m4 (db_Recover (in_db i)))) ?Q w2"
      by (intro meets_bnd_keeps [OF meets_set(2) same_fault_set(2) stays] meets_wrapE [OF rec]) simp_all
  qed (simp_all add: same_wrapE [OF un(2)])
  have fetch: "meets (deferred (file_Close fd) (bnd (fetch_backup aes i v fd) (\<lambda>y. bnd (set_message m1) (\<lambda>_.
       bnd (wrapE m2 (Compressor_Decompress ar (in_comp i) y)) (\<lambda>_. bnd (set_message m3) (\<lambda>_. wrapE m4 (db_Recover (in_db i)))))))) ?Q w1"
    if j: "J w1" and site: "fetch_site ?s ?o x (w_fs w1)" and fd: "w_fds w1 fd = Some \<lparr>h_path = ?D @ [?n], h_off = 0, h_rd = True, h_wr = True\<rparr>"
      "fd < w_nfd w1" and new: "fs_get (w_fs w1) (?D @ [?n]) = Some (File [] t)"
    for fd t m1 m2 m3 m4 and w1 :: "('x, 'm) i_world_scheme"
  proof -
    have F: "meets (fetch_backup aes i v fd) (\<lambda>y w'. suffix m y \<and> parents_ok (w_fs w') (resolve y) \<and> file_at (w_fs w') (resolve y) = Some (handed aes (in_encrypter i) old x) \<and>
       restore_empty (w_fs w')) w1"
      by (rule meets_fetch_backup [OF bp root fit key len old site fd(1) _ _ _ fd(2) new]) simp_all
    have sf: "same w_fault (fetch_backup aes i v fd)"
      unfolding fetch_backup_def Let_def bp local_provider_def provider.simps Local_DownloadBackup_def
      by (intro same_bnd same_wrapE same_deferred same_option same_if same_ret same_io_Copy same_fault same_surroundings_os same_Decrypt) simp
    show ?thesis
      by (rule meets_deferred, simp only: fs_fields, rule meets_bnd_keeps [OF F sf K(7) j], rule unpack)
  qed
  have create: "meets (bnd (wrapE m0 (os_Create (download_path v))) (\<lambda>fd. deferred (file_Close fd) (bnd (fetch_backup aes i v fd) (\<lambda>y.
       bnd (set_message m1) (\<lambda>_. bnd (wrapE m2 (Compressor_Decompress ar (in_comp i) y)) (\<lambda>_. bnd (set_message m3) (\<lambda>_.
       wrapE m4 (db_Recover (in_db i))))))))) ?Q w1"
    if j: "J w1" and site: "fetch_site ?s ?o x (w_fs w1)" and none: "fs_get (w_fs w1) (?D @ [?n]) = None"
    for m0 m1 m2 m3 m4 and w1 :: "('x, 'm) i_world_scheme"
  proof -
    have par: "parents_ok (w_fs w1) (resolve (download_path v))"
      using site unfolding rp parents_ok_snoc fetch_site_def fetch_base_def by blast
    have nodir: "\<not> is_dir (fs_get (w_fs w1) (resolve (download_path v)))" unfolding rp none by simp
    show ?thesis
    proof (rule meets_bnd_keeps [OF meets_wrapE [OF meets_open_write [OF par nodir]] _ keeps_wrapE [OF K(6)] j],
        (intro same_wrapE same_fault same_surroundings_os)[1], elim conjE exE, goal_cases)
      case (1 fd w2 t)
      have g: "fs_get (w_fs w2) = (fs_get (w_fs w1))(?D @ [?n] \<mapsto> File (opened True None) t)"
        using 1 unfolding rp none by blast
      have h: "w_fds w2 fd = Some \<lparr>h_path = ?D @ [?n], h_off = 0, h_rd = True, h_wr = True\<rparr>" "fd < w_nfd w2"
        using 1 unfolding rp by simp_all
      have b: "beyond (?D @ [?n]) (w_fs w1) (w_fs w2)" unfolding beyond_def g by auto
      have new: "fs_get (w_fs w2) (?D @ [?n]) = Some (File [] t)" unfolding g opened_def by simp
      show ?case
        by (rule fetch [OF 1(1) fetch_site_beyond [OF site b files apart] h new])
    qed
  qed
  let ?dp = "download_path v"
  have eq: "Restore ar aes i v = bnd (set_status RESTORING) (\<lambda>_. bnd (set_message ''prepare restore'') (\<lambda>_.
     bnd (bnd (wrapE ''could not clean restore directory'' (os_RemoveAll RestoreDir)) (\<lambda>_.
       wrapE ''could not create restore directory'' (os_MkdirAll RestoreDir))) (\<lambda>_.
     bnd (set_message ''downloading backup'') (\<lambda>_.
     bnd (wrapE ''could not delete priorly downloaded file'' (os_RemoveAll ?dp)) (\<lambda>_.
     bnd (wrapE ''could not open file for writing'' (os_Create ?dp)) (\<lambda>fd. deferred (file_Close fd)
       (bnd (fetch_backup aes i v fd) (\<lambda>y. bnd (set_message ''uncompressing backup'') (\<lambda>_.
        bnd (wrapE ''unable to uncompress backup'' (Compressor_Decompress ar (in_comp i) y)) (\<lambda>_.
        bnd (set_message ''restoring backup'') (\<lambda>_.
        wrapE ''restoring database was not successful'' (db_Recover (in_db i)))))))))))))"
    by (simp only: Restore_def bnd_assoc)
  have del: "meets (bnd (set_message m1) (\<lambda>_. bnd (wrapE m2 (os_RemoveAll ?dp)) (\<lambda>_. k))) ?Q w1"
    if j: "J w1" and site: "fetch_site ?s ?o x (w_fs w1)"
      and k: "\<And>w2. J w2 \<Longrightarrow> fetch_site ?s ?o x (w_fs w2) \<Longrightarrow> fs_get (w_fs w2) (?D @ [?n]) = None \<Longrightarrow> meets k ?Q w2"
    for m1 m2 k and w1 :: "('x, 'm) i_world_scheme"
  proof (rule meets_bnd_keeps [OF meets_set(2) same_fault_set(2) K(2) j])
    fix v1 :: "('x, 'm) i_world_scheme"
    assume v1: "w_fs v1 = w_fs w1" and j1: "J v1"
    have par: "parents_ok (w_fs v1) (resolve ?dp)"
      using site unfolding v1 rp parents_ok_snoc fetch_site_def fetch_base_def by blast
    have ne: "?dp \<noteq> ''''" unfolding d(1) by simp
    show "meets (bnd (wrapE m2 (os_RemoveAll ?dp)) (\<lambda>_. k)) ?Q v1"
    proof (rule meets_bnd_keeps [OF meets_wrapE [OF meets_RemoveAll [OF ne par]] _ keeps_wrapE [OF K(5)] j1],
        (intro same_wrapE same_fault same_surroundings_os)[1], elim conjE, rule k, assumption, goal_cases)
      case (1 u v2)
      show ?case by (rule fetch_site_beyond [OF site _ files apart]) (simp_all add: beyond_def 1 v1 rp fs_get_drop del: resolve_dirs)
    next
      case (2 u v2)
      show ?case unfolding 2(2) rp fs_get_drop by simp
    qed
  qed
  have new: "meets (bnd (bnd (wrapE m1 (os_RemoveAll RestoreDir)) (\<lambda>_. wrapE m2 (os_MkdirAll RestoreDir))) (\<lambda>_. k)) ?Q w1"
    if j: "J w1" and b1: "fetch_base ?s ?o x (w_fs w1)" and k: "\<And>w2. J w2 \<Longrightarrow> fetch_site ?s ?o x (w_fs w2) \<Longrightarrow> meets k ?Q w2"
    for m1 m2 k and w1 :: "('x, 'm) i_world_scheme"
  proof -
    have "parents_ok (w_fs w1) ?D" "is_dir (fs_get (w_fs w1) ?D)" using b1 unfolding fetch_base_def by blast+
    note M = meets_new_RestoreDir [OF this]
    have site: "fetch_site ?s ?o x (w_fs w2)" if "beyond (resolve RestoreDir) (w_fs w1) (w_fs w2)"
      "restore_empty (w_fs w2)" for w2 :: "('x, 'm) i_world_scheme"
    proof -
      have "fetch_base ?s ?o x (w_fs w2)" by (rule fetch_base_beyond [OF b1 that(1) [unfolded Download_Restore]]) (rule apart')
      then show ?thesis unfolding fetch_site_def using that(2) by blast
    qed
    show ?thesis
      by (rule meets_bnd_keeps [where J = J, OF M _ _ j], (intro same_bnd same_wrapE same_fault same_surroundings_os)[1],
          (intro keeps_bnd keeps_wrapE K)[1], rule k) (blast intro: site)+
  qed
  show ?thesis unfolding eq
    by (rule meets_bnd_keeps [OF meets_set(1) same_fault_set(1) K(1) J(2)], rule meets_bnd_keeps [OF meets_set(2) same_fault_set(2) K(2)],
        assumption, rule new, assumption, simp only: base, rule del, assumption+, rule create)
qed

section \<open>The round trip\<close>

lemma names_fit_archive:
  assumes "slash \<notin> set (Compressor_Extension cmp)"
  shows "names_fit eo (FormatInt (int i) @ Compressor_Extension cmp @ (case eo of None \<Rightarrow> '''' | Some _ \<Rightarrow> enc_suffix)) (archive_name cmp i)"
proof -
  obtain c cs where e: "FormatInt (int i) = c # cs" "is_digit c"
    using nat_str_digits [of i] by (cases "nat_str i") (auto simp: FormatInt_def)
  then have "c \<noteq> CHR ''f''" by (auto simp: is_digit_def)
  then have "FormatInt (int i) @ t \<noteq> ''files''" for t using e(1) by simp
  then show ?thesis using plain_digits [OF assms] by (simp add: names_fit_def archive_name_def)
qed

text \<open>
  What the archiver and the database promise about one dump: after \<open>Backup\<close> the upload directory
  satisfies \<open>dump\<close>; unpacking an archive of it leaves the file system in \<open>unpacked\<close>; and \<open>Recover\<close> on
  that leaves it in \<open>recovered\<close>.
\<close>

definition promised ::
  "('x, 'm) i_world_scheme archiver \<Rightarrow> (fs \<Rightarrow> byte list) \<Rightarrow> ('x, 'm) i_world_scheme database \<Rightarrow> compressor \<Rightarrow> nat \<Rightarrow>
   (fs \<Rightarrow> bool) \<Rightarrow> (fs \<Rightarrow> bool) \<Rightarrow> (fs \<Rightarrow> bool) \<Rightarrow> bool" where
  "promised ar pack db cmp i dump unpacked recovered \<longleftrightarrow> archives ar pack \<and>
     same w_fault (db_Backup db) \<and> same lp_nextBackupCount (db_Backup db) \<and>
     (\<forall>p. same w_fault (archiver_Unarchive ar p DownloadDir)) \<and>
     (\<forall>f g p w. dump g \<longrightarrow> (\<forall>q. fs_get f q = (if prefix (resolve BackupDir @ [archive_name cmp i]) q then None else fs_get g q)) \<longrightarrow>
        archive_file p \<longrightarrow> parents_ok (w_fs w) (resolve p) \<longrightarrow> file_at (w_fs w) (resolve p) = Some (pack f) \<longrightarrow>
        restore_empty (w_fs w) \<longrightarrow>
        meets (archiver_Unarchive ar p DownloadDir) (\<lambda>_ w'. unpacked (w_fs w')) w) \<and>
     (\<forall>w. unpacked (w_fs w) \<longrightarrow> meets (db_Recover db) (\<lambda>_ w'. recovered (w_fs w')) w)"

text \<open>A later time at which the stored file of the backup is still there: the download directory exists,
  and no plain archive of that name is left in it.\<close>

definition later :: "local_config \<Rightarrow> compressor \<Rightarrow> encrypter option \<Rightarrow> nat \<Rightarrow> fs \<Rightarrow> fs \<Rightarrow> bool" where
  "later c cmp eo i f g \<longleftrightarrow> file_at g (slot c i) = file_at f (slot c i) \<and> parents_ok g (slot c i) \<and>
     parents_ok g (resolve DownloadDir) \<and> is_dir (fs_get g (resolve DownloadDir)) \<and>
     (eo \<noteq> None \<longrightarrow> fs_get g (resolve DownloadDir @ [archive_name cmp i]) = None)"

text \<open>C1: what a backup has stored, a restore brings back. Let the archiver and the database keep their
  promises about a dump. Where no system call fails, the backup succeeds; and at any later time at
  which its file is still there, restoring it, encrypted or not, runs the database's recovery on the
  dump: it succeeds where no call fails, and its success always means that the data are recovered.\<close>

theorem backup_restore_roundtrip:
  fixes w :: "('x, 'm) i_world_scheme"
  assumes "b = Backuper_New schedule db (local_provider c sws) cmp eo"
    and "Compressor_New meth = Inr cmp" and "good_key eo" and "promised ar pack db cmp i dump unpacked recovered"
    and "local_ready c" "i < keep_of c" "rooted (lc_LocalBackupPath c)"
    and "lc_Suffix c = Compressor_Extension cmp @ (case eo of None \<Rightarrow> '''' | Some _ \<Rightarrow> enc_suffix)"
    and "\<not> prefix (resolve DownloadDir) (slot c i)"
    and "lp_nextBackupCount w = of_nat i" "\<not> b_sem_taken w"
    and "meets (db_Backup db) (\<lambda>_ v. dump (w_fs v)) (w\<lparr>b_sem_taken := True\<rparr>)"
    and "\<And>g. dump g \<Longrightarrow> site c i g \<and> fs_get g (resolve BackupDir @ [archive_name cmp i @ enc_suffix]) = None"
    and "in_db n = db" "in_bp n = local_provider c sws" "in_encrypter n = eo"
    and "bv_name v = FormatInt (int i) @ lc_Suffix c"
  shows "(quiet w \<longrightarrow> (\<exists>w'. CreateBackup ar aes b w = (Inr (), w'))) \<and>
    (\<forall>w' w1. CreateBackup ar aes b w = (Inr (), w') \<longrightarrow> later c cmp eo i (w_fs w') (w_fs w1) \<longrightarrow>
       (quiet w1 \<longrightarrow> (\<exists>w2. Restore ar aes n v w1 = (Inr (), w2))) \<and>
       (\<forall>w2. Restore ar aes n v w1 = (Inr (), w2) \<longrightarrow> recovered (w_fs w2)))"
proof -
  note P = assms(4) [unfolded promised_def]
  have ext: "slash \<notin> set (Compressor_Extension cmp)" by (rule no_slash_ext [OF assms(2)])
  have bsel: "bk_comp b = cmp" "bk_encrypter b = eo" "bk_db b = db" "bk_bp b = local_provider c sws"
    by (simp_all add: assms(1) Backuper_New_def)
  have C: "meets (CreateBackup ar aes b) (\<lambda>_ w'. \<exists>g x. dump g \<and> backup_of aes cmp eo pack i g x \<and>
      file_at (w_fs w') (slot c i) = Some x) w"
    using meets_CreateBackup [where b = b and w = w and dump = dump, unfolded bsel, OF _ assms(2,3) refl assms(5,6,10,11,12) _ _ assms(13)] P
    by blast
  have R: "meets (Restore ar aes n v) (\<lambda>_ w2. recovered (w_fs w2)) w1"
    if x: "dump g" "backup_of aes cmp eo pack i g x" "file_at f (slot c i) = Some x" and l: "later c cmp eo i f (w_fs w1)"
    for g x f and w1 :: "('x, 'm) i_world_scheme"
  proof (rule meets_Restore [where i = n and m = "archive_name cmp i" and x = x and old = None and U = "\<lambda>w. unpacked (w_fs w)" and J = "\<lambda>_. True", unfolded assms(14,16) handed_new, OF assms(15,7)])
    show "names_fit eo (bv_name v) (archive_name cmp i)" unfolding assms(17,8) by (rule names_fit_archive [OF ext])
    show "good_key eo" by (rule assms(3))
    show "\<not> is_dir None" by simp
    show "eo \<noteq> None \<longrightarrow> aes_BlockSize \<le> length x" using x(2) unfolding backup_of_def by blast
    have s: "resolve (lc_LocalBackupPath c) @ [bv_name v] = slot c i" unfolding slot_def assms(17) by simp
    show "fetch_base (resolve (lc_LocalBackupPath c) @ [bv_name v]) (awaited eo (archive_name cmp i) None) x (w_fs w1)"
      unfolding s fetch_base_def using l x(3) assms(9) unfolding later_def awaited_def by (auto simp del: resolve_dirs split: option.splits)
    obtain h where h: "\<forall>q. fs_get h q = (if prefix (resolve BackupDir @ [archive_name cmp i]) q then None else fs_get g q)"
      "decoded aes eo x = pack h" using x(2) unfolding backup_of_def by blast
    show "meets (archiver_Unarchive ar p DownloadDir) (\<lambda>_ w2. unpacked (w_fs w2)) u"
      if "suffix (archive_name cmp i) p" "parents_ok (w_fs u) (resolve p)" "file_at (w_fs u) (resolve p) = Some (decoded aes eo x)"
        "restore_empty (w_fs u)" for p and u :: "('x, 'm) i_world_scheme"
      using P x(1) h that(2-) archive_fileI [OF assms(2) that(1)] by metis
    show "same w_fault (archiver_Unarchive ar p DownloadDir)" for p using P by blast
    show "undisturbed (\<lambda>_. True) aes n v" "True" "keeps (\<lambda>w. unpacked (w_fs w)) (set_message s)" for s
      by (simp_all add: undisturbed_True keeps_unpacked)
    show "meets (db_Recover db) (\<lambda>_ w3. recovered (w_fs w3)) u" if "unpacked (w_fs u)" for u :: "('x, 'm) i_world_scheme"
      using P that by blast
  qed
  have "\<exists>w'. CreateBackup ar aes b w = (Inr (), w')" if "quiet w" using meets_quiet [OF C that] by auto
  moreover have "(quiet w1 \<longrightarrow> (\<exists>w2. Restore ar aes n v w1 = (Inr (), w2))) \<and>
       (\<forall>w2. Restore ar aes n v w1 = (Inr (), w2) \<longrightarrow> recovered (w_fs w2))"
    if made: "CreateBackup ar aes b w = (Inr (), w')" and l: "later c cmp eo i (w_fs w') (w_fs w1)" for w' w1
  proof -
    obtain g x where "dump g" "backup_of aes cmp eo pack i g x" "file_at (w_fs w') (slot c i) = Some x"
      using meets_Inr [OF C made] by blast
    note M = R [OF this l]
    show ?thesis using meets_quiet [OF M] meets_Inr [OF M] by auto
  qed
  ultimately show ?thesis by blast
qed

text \<open>An archiver that copies the dump, and a database whose data are one file.\<close>

definition dump_file :: fpath where
  "dump_file = resolve BackupDir @ [''dump'']"

definition unpacked_file :: fpath where
  "unpacked_file = resolve RestoreDir @ [''dump'']"

definition dump_bytes :: "fs \<Rightarrow> byte list" where
  "dump_bytes f = (case file_at f dump_file of None \<Rightarrow> [] | Some bs \<Rightarrow> bs)"

definition put_file :: "fpath \<Rightarrow> byte list \<Rightarrow> (('x, 'm) world_scheme, unit) go" where
  "put_file p bs = upd (\<lambda>w. set_fs (fs_put p (File bs 0) (w_fs w)) w)"

definition a_tar :: "('x, 'm) i_world_scheme archiver" where
  "a_tar = \<lparr>archiver_Archive = (\<lambda>ds f. bnd (asks (\<lambda>w. dump_bytes (w_fs w))) (put_file (resolve f))),
     archiver_Unarchive = (\<lambda>f d. bnd (asks (\<lambda>w. file_at (w_fs w) (resolve f))) (\<lambda>c. case c of
       None \<Rightarrow> fail (ErrOS ENOENT) | Some bs \<Rightarrow> put_file unpacked_file bs))\<rparr>"

definition a_filedb :: "('x, 'm) i_world_scheme database" where
  "a_filedb = \<lparr>db_Check = ret True, db_Recover = bnd (asks (\<lambda>w. file_at (w_fs w) unpacked_file)) (\<lambda>c. case c of
       None \<Rightarrow> fail (ErrOS ENOENT) | Some bs \<Rightarrow> put_file [''data'', ''x''] bs),
     db_Upgrade = ret (), db_Probe = ret (), db_Backup = put_file dump_file [1, 2, 3]\<rparr>"

definition a_crypt_local :: local_config where
  "a_crypt_local = \<lparr>lc_LocalBackupPath = ''/b'', lc_ObjectsToKeep = 2, lc_Suffix = ''.tar.aes''\<rparr>"

definition a_tar_comp :: compressor where
  "a_tar_comp = \<lparr>comp_extension = ''.tar''\<rparr>"

definition has_dump :: "fs \<Rightarrow> bool" where
  "has_dump g \<longleftrightarrow> site a_crypt_local 0 g \<and> fs_get g (resolve BackupDir @ [archive_name a_tar_comp 0 @ enc_suffix]) = None \<and>
     file_at g dump_file = Some [1, 2, 3]"

lemma a_tar_names: "archive_name a_tar_comp 0 = ''0.tar''" "slot a_crypt_local 0 = [''b'', ''0.tar.aes'']"
  by code_simp+

lemma put_file_run: "put_file p bs w = (Inr (), set_fs (fs_put p (File bs 0) (w_fs w)) w)"
  by (simp add: put_file_def upd_run)

lemma same_put_file: "same surroundings (put_file p bs)"
  unfolding put_file_def by (rule same_upd) simp

lemma a_tar_archives: "archives (a_tar :: ('x, 'm) i_world_scheme archiver) dump_bytes"
  unfolding archives_def
proof (intro conjI allI impI)
  show "same surroundings (archiver_Archive (a_tar :: ('x, 'm) i_world_scheme archiver) [BackupDir] f)" for f
    unfolding a_tar_def by (simp, intro same_bnd same_asks same_put_file)
  fix f and w :: "('x, 'm) i_world_scheme"
  assume "resolve f \<noteq> []"
  then show "meets (archiver_Archive a_tar [BackupDir] f)
    (\<lambda>_ w'. \<exists>t. fs_get (w_fs w') = (fs_get (w_fs w))(resolve f \<mapsto> File (dump_bytes (w_fs w)) t)) w"
    by (auto simp: a_tar_def meets_def wp_bnd wp_asks put_file_def wp_upd fs_get_put_fun)
qed

lemma same_fault_a_tar: "same w_fault (archiver_Unarchive (a_tar :: ('x, 'm) i_world_scheme archiver) p DownloadDir)"
  unfolding a_tar_def by (simp, intro same_bnd same_asks same_option same_fail same_fault [OF same_put_file])

lemma a_tar_promised:
  "promised a_tar dump_bytes a_filedb a_tar_comp 0 has_dump
     (\<lambda>f. file_at f unpacked_file = Some [1, 2, 3]) (\<lambda>f. file_at f [''data'', ''x''] = Some [1, 2, 3])"
proof -
  have lp: "same lp_nextBackupCount m" if "same surroundings m" for m :: "(('x, 'm) i_world_scheme, unit) go"
    by (rule same_comp [OF that]) (use surroundings_lp in blast)
  have away: "\<not> prefix (resolve BackupDir @ [archive_name a_tar_comp 0]) dump_file"
    unfolding a_tar_names dump_file_def by simp
  show ?thesis unfolding promised_def
  proof (intro conjI allI impI a_tar_archives)
    show "same w_fault (db_Backup a_filedb :: (('x, 'm) i_world_scheme, unit) go)"
      "same lp_nextBackupCount (db_Backup a_filedb :: (('x, 'm) i_world_scheme, unit) go)"
      unfolding a_filedb_def using same_fault [OF same_put_file] lp [OF same_put_file] by simp_all
    show "same w_fault (archiver_Unarchive (a_tar :: ('x, 'm) i_world_scheme archiver) p DownloadDir)" for p
      by (rule same_fault_a_tar)
  next
    fix f g p and w :: "('x, 'm) i_world_scheme"
    assume d: "has_dump g" "\<forall>q. fs_get f q = (if prefix (resolve BackupDir @ [archive_name a_tar_comp 0]) q then None else fs_get g q)"
      and at: "file_at (w_fs w) (resolve p) = Some (dump_bytes f)"
    have "fs_get f dump_file = fs_get g dump_file" using d(2) away by presburger
    then have "dump_bytes f = [1, 2, 3]" using d(1) by (simp add: dump_bytes_def has_dump_def file_at_def)
    then show "meets (archiver_Unarchive a_tar p DownloadDir) (\<lambda>_ w'. file_at (w_fs w') unpacked_file = Some [1, 2, 3]) w"
      using at by (simp add: a_tar_def meets_def wp_bnd wp_asks put_file_def wp_upd file_at_def unpacked_file_def)
  next
    fix w :: "('x, 'm) i_world_scheme"
    assume "file_at (w_fs w) unpacked_file = Some [1, 2, 3]"
    then show "meets (db_Recover a_filedb) (\<lambda>_ w'. file_at (w_fs w') [''data'', ''x''] = Some [1, 2, 3]) w"
      by (simp add: a_filedb_def meets_def wp_bnd wp_asks put_file_def wp_upd file_at_def)
  qed
qed

definition upload_disk :: fs where
  "upload_disk = [([''backup''], Dir 0), ([''backup'', ''upload''], Dir 0), ([''backup'', ''upload'', ''files''], Dir 0), ([''b''], Dir 0)]"

definition a_crypt_backuper :: "unit i_world backuper" where
  "a_crypt_backuper = Backuper_New '''' a_filedb (local_provider a_crypt_local (\<lambda>_. [])) a_tar_comp (Some a_key)"

definition a_crypt_initializer :: "unit i_world initializer" where
  "a_crypt_initializer = \<lparr>in_addr = '''', in_db = a_filedb, in_bp = local_provider a_crypt_local (\<lambda>_. []), in_comp = a_tar_comp,
     in_dbDataDir = ''/data'', in_encrypter = Some a_key\<rparr>"

theorem backup_restore_roundtrip_witness:
  "\<exists>w' w1 w2. CreateBackup a_tar (\<lambda>k b. b) a_crypt_backuper (an_init_world upload_disk) = (Inr (), w') \<and>
     later a_crypt_local a_tar_comp (Some a_key) 0 (w_fs w') (w_fs w1) \<and>
     Restore a_tar (\<lambda>k b. b) a_crypt_initializer \<lparr>bv_name = ''0.tar.aes'', bv_version = ''0'', bv_date = 0\<rparr> w1 = (Inr (), w2) \<and>
     file_at (w_fs w2) [''data'', ''x''] = Some [1, 2, 3]"
proof -
  let ?w = "an_init_world upload_disk" and ?v = "\<lparr>bv_name = ''0.tar.aes'', bv_version = ''0'', bv_date = 0\<rparr>"
  have 2: "Compressor_New ''tar'' = Inr a_tar_comp" by (simp add: Compressor_New_def a_tar_comp_def)
  have 3: "good_key (Some a_key)" by (simp add: good_key_def a_key_length)
  have 5: "local_ready a_crypt_local" "0 < keep_of a_crypt_local" "rooted (lc_LocalBackupPath a_crypt_local)"
    "lc_Suffix a_crypt_local = Compressor_Extension a_tar_comp @ (case Some a_key of None \<Rightarrow> '''' | Some _ \<Rightarrow> enc_suffix)"
    "\<not> prefix (resolve DownloadDir) (slot a_crypt_local 0)"
    by code_simp+
  have 6: "lp_nextBackupCount ?w = of_nat 0" "\<not> b_sem_taken ?w"
    by (simp_all add: an_init_world_def b_world.defs m_world.defs lp_world.defs world.defs)
  have 7: "meets (db_Backup a_filedb) (\<lambda>_ v. has_dump (w_fs v)) (?w\<lparr>b_sem_taken := True\<rparr>)"
    by (simp add: a_filedb_def meets_def wp_def put_file_run has_dump_def site_def a_tar_names parents_ok_def fs_get_put
        file_at_def dump_file_def upload_disk_def fs_get_def fs_put_def set_fs_def enc_suffix_def)
  have 8: "site a_crypt_local 0 g \<and> fs_get g (resolve BackupDir @ [archive_name a_tar_comp 0 @ enc_suffix]) = None" if "has_dump g" for g
    using that by (simp add: has_dump_def)
  have 9: "in_db a_crypt_initializer = a_filedb" "in_bp a_crypt_initializer = local_provider a_crypt_local (\<lambda>_. [])"
    "in_encrypter a_crypt_initializer = Some a_key" "bv_name ?v = FormatInt (int 0) @ lc_Suffix a_crypt_local"
    by (simp_all add: a_crypt_initializer_def) code_simp
  note T = backup_restore_roundtrip [OF a_crypt_backuper_def 2 3 a_tar_promised 5 6 7 8 9, of "\<lambda>k b. b"]
  from T obtain w' where made: "CreateBackup a_tar (\<lambda>k b. b) a_crypt_backuper ?w = (Inr (), w')"
    by (auto simp: quiet_def an_init_world_def b_world.defs m_world.defs lp_world.defs world.defs calm_def)
  let ?f = "[([''backup''], Dir 0), ([''backup'', ''restore''], Dir 0), ([''b''], Dir 0)] @
    (case file_at (w_fs w') (slot a_crypt_local 0) of None \<Rightarrow> [] | Some x \<Rightarrow> [([''b'', ''0.tar.aes''], File x 0)])"
  have l: "later a_crypt_local a_tar_comp (Some a_key) 0 (w_fs w') (w_fs (an_init_world ?f))"
    by (simp add: later_def a_tar_names parents_ok_def fs_get_def file_at_def split: option.split)
  have q: "quiet (an_init_world ?f)"
    by (simp add: quiet_def an_init_world_def b_world.defs m_world.defs lp_world.defs world.defs calm_def)
  show ?thesis using T made l q by blast
qed

section \<open>A second restore\<close>

text \<open>C30: the plain archive of a restore stays in the download directory, and the next restore of a backup
  of that name removes the encrypted file only: the new plain archive is written over the old one.
  Where the old one is longer its tail stays, and the archiver is handed a file that is not the archive of
  the backup: the restore goes on with whatever the archiver makes of it.\<close>

theorem Restore_mixes_archives:
  fixes w :: "('x, 'm) i_world_scheme"
  assumes "in_encrypter n = Some e" "length (enc_key e) = 32"
    and "in_bp n = local_provider c sws" "rooted (lc_LocalBackupPath c)"
    and "bv_name v = m @ enc_suffix" "plain_name m" "m \<noteq> ''files''"
    and "parents_ok (w_fs w) (resolve (lc_LocalBackupPath c) @ [bv_name v])" "\<not> prefix (resolve DownloadDir) (resolve (lc_LocalBackupPath c))"
    and "file_at (w_fs w) (resolve (lc_LocalBackupPath c) @ [bv_name v]) = Some x" "aes_BlockSize \<le> length x"
    and "parents_ok (w_fs w) (resolve DownloadDir)" "is_dir (fs_get (w_fs w) (resolve DownloadDir))"
    and "fs_get (w_fs w) (resolve DownloadDir @ [m]) = Some (File old t)" "length (decoded aes (Some e) x) < length old"
    and "\<And>p u. suffix m p \<Longrightarrow> parents_ok (w_fs u) (resolve p) \<Longrightarrow>
       file_at (w_fs u) (resolve p) = Some (decoded aes (Some e) x @ drop (length (decoded aes (Some e) x)) old) \<Longrightarrow>
       restore_empty (w_fs u) \<Longrightarrow>
       meets (archiver_Unarchive ar p DownloadDir) (\<lambda>_ u'. unpacked (w_fs u')) u"
    and "\<And>p. same w_fault (archiver_Unarchive ar p DownloadDir)"
    and "\<And>u. unpacked (w_fs u) \<Longrightarrow> meets (db_Recover (in_db n)) (\<lambda>_ u'. recovered (w_fs u')) u"
    and "quiet w"
  shows "\<exists>w'. Restore ar aes n v w = (Inr (), w') \<and> recovered (w_fs w') \<and>
    decoded aes (Some e) x @ drop (length (decoded aes (Some e) x)) old \<noteq> decoded aes (Some e) x"
proof -
  let ?old = "Some (File old t)"
  have h: "handed aes (Some e) ?old x = decoded aes (Some e) x @ drop (length (decoded aes (Some e) x)) old"
    by (simp add: handed_def opened_def overwrite_start)
  have files: "bv_name v \<noteq> ''files''"
  proof
    assume "bv_name v = ''files''"
    then have "rev (m @ enc_suffix) = rev ''files''" using assms(5) by simp
    then show False by (simp add: enc_suffix_def)
  qed
  have fit: "names_fit (in_encrypter n) (bv_name v) m"
    unfolding names_fit_def assms(1) using assms(5-7) files by simp
  have away: "\<not> prefix (resolve DownloadDir) (resolve (lc_LocalBackupPath c) @ [bv_name v])"
  proof
    assume "prefix (resolve DownloadDir) (resolve (lc_LocalBackupPath c) @ [bv_name v])"
    then have "resolve DownloadDir = resolve (lc_LocalBackupPath c) @ [bv_name v]" using assms(9) by (simp add: prefix_snoc)
    then have "fs_get (w_fs w) (resolve (lc_LocalBackupPath c) @ [bv_name v]) = fs_get (w_fs w) (resolve DownloadDir)" by (simp only:)
    then show False using assms(10,13) by (auto simp: file_at_def is_dir_iff)
  qed
  have base: "fetch_base (resolve (lc_LocalBackupPath c) @ [bv_name v]) (awaited (in_encrypter n) m ?old) x (w_fs w)"
    unfolding fetch_base_def awaited_def assms(1) using assms(8,10,12-14) away by (simp del: resolve_dirs)
  have key: "good_key (in_encrypter n)" using assms(1,2) by (simp add: good_key_def)
  have M: "meets (Restore ar aes n v) (\<lambda>_ w'. recovered (w_fs w')) w"
    by (rule meets_Restore [OF assms(3,4) fit key _ _ base undisturbed_True [of aes] TrueI, of ar "\<lambda>u. unpacked (w_fs u)" recovered])
      (use assms(11,16-18) keeps_unpacked in \<open>simp_all only: assms(1) h is_dir.simps simp_thms\<close>)
  have "length (decoded aes (Some e) x @ drop (length (decoded aes (Some e) x)) old) \<noteq> length (decoded aes (Some e) x)"
    using assms(15) by simp
  then have ne: "decoded aes (Some e) x @ drop (length (decoded aes (Some e) x)) old \<noteq> decoded aes (Some e) x" by metis
  from meets_quiet [OF M assms(19)] show ?thesis using ne by auto
qed

text \<open>An encrypted backup of the single byte 9, and the plain archive of an earlier backup with the bytes 1 2 3.\<close>

definition sealed :: "byte list \<Rightarrow> byte list" where
  "sealed bs = xor_stream (cipher_of (\<lambda>k b. b) a_key) (replicate 16 0) 0 bs @ replicate 16 0"

definition mixed_disk :: fs where
  "mixed_disk = [([''backup''], Dir 0), ([''backup'', ''restore''], Dir 0), ([''backup'', ''restore'', ''0.tar''], File [1, 2, 3] 0),
     ([''b''], Dir 0), ([''b'', ''0.tar.aes''], File (sealed [9]) 0)]"

theorem Restore_mixes_archives_witness:
  "\<exists>w'. Restore a_tar (\<lambda>k b. b) a_crypt_initializer \<lparr>bv_name = ''0.tar.aes'', bv_version = ''0'', bv_date = 0\<rparr>
      (an_init_world mixed_disk) = (Inr (), w') \<and> file_at (w_fs w') [''data'', ''x''] = Some [9, 2, 3]"
proof -
  let ?w = "an_init_world mixed_disk" and ?v = "\<lparr>bv_name = ''0.tar.aes'', bv_version = ''0'', bv_date = 0\<rparr>"
  let ?un = "\<lambda>f. file_at f unpacked_file = Some [9, 2, 3]" and ?rec = "\<lambda>f. file_at f [''data'', ''x''] = Some [9, 2, 3]"
  have dec: "decoded (\<lambda>k b. b) (Some a_key) (sealed [9]) = [9]"
    unfolding sealed_def by (rule decoded_encrypted) (simp add: aes_BlockSize_def)
  have d: "lc_LocalBackupPath a_crypt_local = ''/b''" by (simp add: a_crypt_local_def)
  have 1: "in_encrypter a_crypt_initializer = Some a_key" "length (enc_key a_key) = 32"
    "in_bp a_crypt_initializer = local_provider a_crypt_local (\<lambda>_. [])" "rooted (lc_LocalBackupPath a_crypt_local)"
    by (simp_all add: a_crypt_initializer_def a_key_length d rooted_def)
  have 2: "bv_name ?v = ''0.tar'' @ enc_suffix" "plain_name ''0.tar''" "''0.tar'' \<noteq> ''files''"
    by (simp_all add: enc_suffix_def plain_name_def)
  have 3: "parents_ok (w_fs ?w) (resolve (lc_LocalBackupPath a_crypt_local) @ [bv_name ?v])"
    "\<not> prefix (resolve DownloadDir) (resolve (lc_LocalBackupPath a_crypt_local))"
    "file_at (w_fs ?w) (resolve (lc_LocalBackupPath a_crypt_local) @ [bv_name ?v]) = Some (sealed [9])"
    "aes_BlockSize \<le> length (sealed [9])"
    "parents_ok (w_fs ?w) (resolve DownloadDir)" "is_dir (fs_get (w_fs ?w) (resolve DownloadDir))"
    "fs_get (w_fs ?w) (resolve DownloadDir @ [''0.tar'']) = Some (File [1, 2, 3] 0)"
    by (simp_all add: d resolve_data mixed_disk_def parents_ok_def fs_get_def file_at_def sealed_def aes_BlockSize_def)
  have 4: "length (decoded (\<lambda>k b. b) (Some a_key) (sealed [9])) < length [1 :: byte, 2, 3]" by (simp add: dec)
  have un: "meets (archiver_Unarchive a_tar p DownloadDir) (\<lambda>_ u'. ?un (w_fs u')) u"
    if "file_at (w_fs u) (resolve p) = Some (decoded (\<lambda>k b. b) (Some a_key) (sealed [9]) @
      drop (length (decoded (\<lambda>k b. b) (Some a_key) (sealed [9]))) [1, 2, 3])" for p and u :: "unit i_world"
    using that by (simp add: dec a_tar_def meets_def wp_bnd wp_asks put_file_def wp_upd file_at_def unpacked_file_def)
  have rec: "meets (db_Recover (in_db a_crypt_initializer)) (\<lambda>_ u'. ?rec (w_fs u')) u" if "?un (w_fs u)" for u :: "unit i_world"
    using that by (simp add: a_crypt_initializer_def a_filedb_def meets_def wp_bnd wp_asks put_file_def wp_upd file_at_def)
  have q: "quiet ?w"
    by (simp add: quiet_def an_init_world_def b_world.defs m_world.defs lp_world.defs world.defs calm_def)
  show ?thesis
    using Restore_mixes_archives [OF 1 2 3 4, of a_tar ?un ?rec, OF un same_fault_a_tar rec q] by blast
qed

end
