(* ===== verification/CopyTree.thy ===== *)
theory CopyTree
  imports Database
begin

text \<open>
  Copies of whole directories: \<open>CopyFS\<close> of \<open>files.go\<close>, which is all that the localfs database does with
  the data.  The walk ends under every plan of failing calls, and where no call fails the copy is
  complete.
\<close>

section \<open>Names of the walk\<close>

text \<open>The name under which the walk visits the node with elements \<open>q\<close> below its root.\<close>

definition rel_name :: "fpath \<Rightarrow> string" where
  "rel_name q = (if q = [] then ''.'' else strings_Join q ''/'')"

lemma rel_name_ne [simp]: "list_all plain_name q \<Longrightarrow> rel_name q \<noteq> ''''"
  by (cases q; cases "tl q") (auto simp: rel_name_def plain_name_def)

lemma norm_rel_name:
  "list_all plain_name q \<Longrightarrow> norm_elems True out (split_on slash (rel_name q)) = rev out @ q"
  by (auto simp: rel_name_def split_on_Join norm_elems_plain)

lemma rel_name_child:
  assumes "list_all plain_name q" "plain_name m"
  shows "path_Join [rel_name q, m] = rel_name (q @ [m])"
proof (cases "q = []")
  case True
  have "norm_elems False [] (split_on slash (''./'' @ m)) = [m]"
    using assms(2) by (simp add: split_on_noslash plain_name_def)
  then show ?thesis using True assms(2)
    by (simp add: path_Join_def path_Clean_def rel_name_def rooted_def Let_def plain_name_def)
next
  case False
  let ?j = "strings_Join (q @ [m]) ''/''"
  have all: "list_all plain_name (q @ [m])" using assms by simp
  have "\<not> rooted ?j"
  proof -
    obtain c q' where q: "q = c # q'" using False by (cases q) auto
    then have "c \<noteq> ''''" "slash \<notin> set c" using assms(1) by (auto simp: plain_name_def)
    then show ?thesis using q by (cases c; cases q') (auto simp: rooted_def)
  qed
  moreover have "path_Join [rel_name q, m] = path_Clean ?j"
    using assms False by (simp add: path_Join_def rel_name_def Join_snoc plain_name_def)
      (use assms rel_name_ne [of q] in \<open>simp add: rel_name_def\<close>)
  moreover have "?j \<noteq> ''''" using False by (simp add: Join_snoc)
  ultimately show ?thesis
    using False all by (simp add: path_Clean_def Let_def split_on_Join norm_elems_plain rel_name_def)
qed

lemma dirfs_rel_name [simp]: "list_all plain_name q \<Longrightarrow> resolve (dirfs src (rel_name q)) = resolve src @ q"
  using resolve_append [of src "rel_name q"] by (simp add: dirfs_def norm_rel_name)

lemma target_rel_name [simp]:
  assumes "rooted dir" "list_all plain_name q"
  shows "resolve (path_Join [dir, rel_name q]) = resolve dir @ q"
proof -
  have "path_Join [dir, rel_name q] = path_Clean (dir @ slash # rel_name q)"
    using assms rooted_ne [of dir] by (simp add: path_Join_def)
  then show ?thesis using assms by (simp add: resolve_Clean resolve_append norm_rel_name)
qed

text \<open>No path of a tidy file system is longer than its list of nodes: the fuel of \<open>WalkDir\<close>.\<close>

lemma tidy_depth:
  assumes "tidy f" "fs_get f p \<noteq> None"
  shows "length p \<le> length f"
proof -
  have "{q. prefix q p \<and> q \<noteq> []} \<subseteq> fst ` set f"
  proof
    fix q assume "q \<in> {q. prefix q p \<and> q \<noteq> []}"
    then have "q \<noteq> []" "fs_get f q \<noteq> None"
      using assms by (auto simp: tidy_def parents_ok_iff is_dir_iff strict_prefix_def)
    then show "q \<in> fst ` set f" by (auto simp: fs_get_def dest: map_of_SomeD intro: rev_image_eqI)
  qed
  then have "card {q. prefix q p \<and> q \<noteq> []} \<le> card (fst ` set f)" by (intro card_mono) auto
  also have "\<dots> \<le> length f" by (metis card_image_le card_length finite_set length_map list.set_map)
  also have "{q. prefix q p \<and> q \<noteq> []} = (\<lambda>k. take k p) ` {1..length p}"
  proof (intro equalityI subsetI)
    fix q assume q: "q \<in> {q. prefix q p \<and> q \<noteq> []}"
    then have "q = take (length q) p" "length q \<le> length p" by (auto simp: prefix_def)
    moreover have "1 \<le> length q" using q by (cases q) auto
    ultimately show "q \<in> (\<lambda>k. take k p) ` {1..length p}" by (intro image_eqI) auto
  qed (auto simp: take_is_prefix)
  also have "card \<dots> = length p"
    by (subst card_image) (auto simp: inj_on_def dest: arg_cong [of _ _ length])
  finally show ?thesis .
qed

section \<open>The walk ends\<close>

text \<open>\<open>returns m\<close>: no run of \<open>m\<close> uses its fuel up.\<close>

definition returns :: "('w, 'a) go \<Rightarrow> bool" where
  "returns m \<longleftrightarrow> (\<forall>w w'. m w \<noteq> (Inl Diverges, w'))"

named_theorems returns "computations that return"

lemma returnsI: "(\<And>w. fst (m w) \<noteq> Inl Diverges) \<Longrightarrow> returns m"
  by (auto simp: returns_def) (metis fst_conv)

lemma returns_ret [returns]: "returns (ret x)" by (simp add: returns_def ret_def)
lemma returns_fail [returns]: "e \<noteq> Diverges \<Longrightarrow> returns (fail e)" by (simp add: returns_def fail_def)

lemma returns_bnd [returns]: "returns m \<Longrightarrow> (\<And>x. returns (k x)) \<Longrightarrow> returns (bnd m k)"
  by (auto simp: returns_def bnd_eq_Inl)

lemma returns_attempt [returns]: "returns m \<Longrightarrow> returns (attempt m)"
  by (auto simp: returns_def attempt_eq_Inl)

lemma returns_deferred [returns]: "returns m \<Longrightarrow> returns (deferred d m)"
  by (auto simp: returns_def deferred_eq)

lemma returns_if [returns]: "(b \<Longrightarrow> returns m) \<Longrightarrow> (\<not> b \<Longrightarrow> returns n) \<Longrightarrow> returns (if b then m else n)"
  by simp

lemma returns_sum [returns]:
  "(\<And>e. r = Inl e \<Longrightarrow> returns (f e)) \<Longrightarrow> (\<And>x. r = Inr x \<Longrightarrow> returns (h x)) \<Longrightarrow>
   returns (case r of Inl e \<Rightarrow> f e | Inr x \<Rightarrow> h x)"
  by (cases r) simp_all

lemma returns_option [returns]:
  "(r = None \<Longrightarrow> returns f) \<Longrightarrow> (\<And>x. r = Some x \<Longrightarrow> returns (h x)) \<Longrightarrow>
   returns (case r of None \<Rightarrow> f | Some x \<Rightarrow> h x)"
  by (cases r) simp_all

lemma returns_os [returns]:
  "returns (os_Stat p)" "returns (os_MkdirAll p)" "returns (os_ReadDir p)" "returns (open_file rd wr cr tr p)"
  "returns (file_Size fd)" "returns (file_CloseE fd)" "returns (file_Write fd bs)"
  unfolding os_Stat_def os_MkdirAll_def os_ReadDir_def open_file_def file_Size_def file_CloseE_def file_Write_def
    sysE_def sys_def Let_def
  by (rule returnsI; simp add: fail_def new_fd_def split: option.split sum.split node.split)+

text \<open>A reader of a file fails as its file does, in the second component only.\<close>

lemma file_reader_returns:
  "returns (file_reader fd)" "file_reader fd w = (Inr (bs, Some e), w') \<Longrightarrow> e \<noteq> Diverges"
  by (rule returnsI) (auto simp: file_reader_def sys_def Let_def fd_content_def split: option.splits sum.splits node.splits if_splits)

lemma returns_file_Copy [returns]:
  "returns (io_Copy (file_Write o') (file_reader i) :: (('x, 'm) world_scheme, unit) go)"
proof -
  have "file_reader i w \<noteq> (Inl Diverges, w')" "file_Write o' bs w \<noteq> (Inl Diverges, w')"
    for w w' :: "('x, 'm) world_scheme" and bs
    by (simp_all add: file_reader_returns(1) [unfolded returns_def, rule_format]
        returns_os(7) [unfolded returns_def, rule_format])
  then show ?thesis unfolding returns_def io_Copy_def
    by (auto simp: bnd_eq_Inl fail_def ret_def split: option.splits if_splits dest: file_reader_returns(2))
qed

lemma returns_CopyFS_fn [returns]: "returns (CopyFS_fn dir src p d e)"
  unfolding CopyFS_fn_def Let_def by (intro returns) simp_all

lemma ReadDir_entry:
  "os_ReadDir p w = (Inr (es, eo), w') \<Longrightarrow> (m, b) \<in> set es \<Longrightarrow> fs_get (w_fs w) (resolve p @ [m]) \<noteq> None"
  using set_fs_names [of "w_fs w" "resolve p"]
  by (fastforce simp: os_ReadDir_def sys_def Let_def split: option.splits sum.splits node.splits dest: in_set_takeD)

lemma wp_returns:
  assumes "keeps I m" "returns m" "I w"
  shows "wp m (\<lambda>_. I) (\<lambda>e w'. e \<noteq> Diverges \<and> I w') w"
  using assms by (auto simp: wp_def returns_def keeps_def split: prod.split sum.split)

lemma wp_each:
  "(\<And>x w. x \<in> set xs \<Longrightarrow> I w \<Longrightarrow> wp (f x) (\<lambda>_. I) E w) \<Longrightarrow> I w \<Longrightarrow> wp (each f xs) (\<lambda>_. I) E w"
proof (induction xs arbitrary: w)
  case (Cons x xs)
  have "wp (each f xs) (\<lambda>_. I) E w'" if "I w'" for w'
    by (rule Cons.IH [OF _ that]) (use Cons.prems in simp)
  moreover have "wp (f x) (\<lambda>_. I) E w" using Cons.prems by simp
  ultimately show ?case unfolding each.simps wp_bnd by (blast intro: wp_mono)
qed (simp add: wp_ret)

text \<open>
  The walk from a node below the root: it visits only nodes of the source, which no call changes, and
  so descends at most as deep as they lie.
\<close>

lemma wp_walk_ends:
  fixes w :: "('x, 'm) world_scheme"
  assumes dir: "rooted dir" "resolve dir \<parallel> resolve src"
    and g: "\<And>q. g (resolve src @ q) \<noteq> None \<Longrightarrow> list_all plain_name q"
    and depth: "\<And>r. g (resolve src @ q @ r) \<noteq> None \<Longrightarrow> length r < n"
    and q: "g (resolve src @ q) \<noteq> None" and I: "protected {p. prefix (resolve src) p} g w"
  shows "wp (walk_dir n (\<lambda>p. os_ReadDir (dirfs src p)) (CopyFS_fn dir src) (rel_name q) d)
     (\<lambda>_. protected {p. prefix (resolve src) p} g)
     (\<lambda>e w'. e \<noteq> Diverges \<and> protected {p. prefix (resolve src) p} g w') w"
  using depth q I
proof (induction n arbitrary: q d w)
  case 0
  then show ?case using "0.prems"(1) [of "[]"] by simp
next
  case (Suc n)
  let ?I = "protected {p. prefix (resolve src) p} g"
  let ?E = "\<lambda>e w'. e \<noteq> Diverges \<and> ?I w'"
  have plain: "list_all plain_name q" using g Suc.prems(2) .
  have out: "\<not> prefix (resolve src) (resolve dir @ q)" "\<not> prefix p (resolve dir @ q)" if "prefix (resolve src) p" for p
    using dir(2) that by (meson parallelE prefixI prefix_order.trans prefix_same_cases)+
  have fn: "wp (CopyFS_fn dir src (rel_name q) d' e) (\<lambda>_. ?I) ?E w"
    if "?I w" for d' e and w :: "('x, 'm) world_scheme"
  proof (rule wp_returns [where I = ?I])
    show "keeps ?I (CopyFS_fn dir src (rel_name q) d' e)"
      unfolding CopyFS_fn_def Let_def by (intro keeps) (use plain dir(1) out in \<open>auto\<close>)
  qed (rule returns_CopyFS_fn, rule that)
  have below: "wp (each (\<lambda>(m, b). walk_dir n (\<lambda>p. os_ReadDir (dirfs src p)) (CopyFS_fn dir src)
        (path_Join [rel_name q, m]) b) es) (\<lambda>_. ?I) ?E w"
    if "\<forall>(m, b)\<in>set es. g (resolve src @ q @ [m]) \<noteq> None" "?I w" for es and w :: "('x, 'm) world_scheme"
  proof (rule wp_each [where I = ?I])
    show "?I w" by (rule that(2))
  next
    fix x and w :: "('x, 'm) world_scheme"
    assume "x \<in> set es" "?I w"
    moreover obtain m b where x: "x = (m, b)" by fastforce
    ultimately have "(m, b) \<in> set es" by simp
    then have m: "g (resolve src @ (q @ [m])) \<noteq> None" using that(1) by fastforce
    then have "plain_name m" using g by fastforce
    moreover have "length r < n" if "g (resolve src @ (q @ [m]) @ r) \<noteq> None" for r
      using Suc.prems(1) [of "m # r"] that by simp
    ultimately show "wp (case x of (m, b) \<Rightarrow> walk_dir n (\<lambda>p. os_ReadDir (dirfs src p)) (CopyFS_fn dir src)
        (path_Join [rel_name q, m]) b) (\<lambda>_. ?I) ?E w"
      using Suc.IH [OF _ m \<open>?I w\<close>] plain by (simp add: rel_name_child x)
  qed
  have rd: "wp (os_ReadDir (dirfs src (rel_name q)))
      (\<lambda>r w'. ?I w' \<and> (\<forall>(m, b)\<in>set (fst r). g (resolve src @ q @ [m]) \<noteq> None)) ?E w" if "?I w" for w :: "('x, 'm) world_scheme"
  proof -
    obtain r w' where run: "os_ReadDir (dirfs src (rel_name q)) w = (r, w')" by fastforce
    moreover from run have "?I w'" using that by (rule keepsD [OF keeps_protected_more(2)])
    moreover have "r \<noteq> Inl Diverges" using run returns_os(3) unfolding returns_def by auto
    moreover have "g (resolve src @ q @ [m]) \<noteq> None" if "r = Inr (es, eo)" "(m, b) \<in> set es" for es eo m b
      using ReadDir_entry [OF run [unfolded that(1)] that(2)] plain protectedD [OF \<open>?I w\<close>, of "resolve src @ q @ [m]"]
      by simp
    ultimately show ?thesis by (fastforce simp: wp_def split: sum.split)
  qed
  show ?case unfolding walk_dir.simps wp_bnd
  proof (rule wp_mono [OF fn [OF Suc.prems(3)]], goal_cases)
    case (1 u w1)
    show ?case
    proof (cases d)
      case True
      have step: "wp (case eo of None \<Rightarrow> ret () | Some e \<Rightarrow> CopyFS_fn dir src (rel_name q) (Some d) (Some e)) (\<lambda>_. ?I) ?E w"
        if "?I w" for eo and w :: "('x, 'm) world_scheme"
        using fn [OF that] that by (cases eo) (simp_all add: wp_ret)
      show ?thesis using True
        by (simp add: wp_bnd) (rule wp_mono [OF rd [OF 1(2)]], auto simp: wp_bnd intro!: wp_mono [OF step] below) 
    qed (use 1 in \<open>simp add: wp_ret\<close>)
  qed simp
qed

lemma rel_name_Nil [simp]: "rel_name [] = ''.''"
  by (simp add: rel_name_def)

lemma wp_WalkDir:
  assumes "\<And>e w1. os_Stat (full root) w = (Inl e, w1) \<Longrightarrow> wp (fn root None (Some e)) Q E w1"
    and "\<And>n w1. os_Stat (full root) w = (Inr n, w1) \<Longrightarrow>
      wp (walk_dir (Suc (length (w_fs w1))) (\<lambda>p. os_ReadDir (full p)) fn root (is_dir (Some n))) Q E w1"
  shows "wp (WalkDir full root fn) Q E w"
proof -
  obtain s w1 where s: "os_Stat (full root) w = (s, w1)" by fastforce
  have "\<not> unwinds e" if "s = Inl e" for e
    using s that by (auto simp: os_Stat_def sysE_def sys_def Let_def fail_def split: option.splits sum.splits)
  then show ?thesis using assms s
    by (cases s) (simp_all add: WalkDir_def wp_bnd wp_def attempt_run asks_run bnd_run)
qed

text \<open>C16: a copy of a directory ends, whatever calls fail: the walk never uses its fuel up, as long as the
  target lies outside the source, and the source is as it was.\<close>

theorem CopyFS_ends:
  assumes "rooted dir" "resolve dir \<parallel> resolve src" "tidy (w_fs w)"
    and "\<forall>fd h. w_fds w fd = Some h \<longrightarrow> h_wr h \<longrightarrow> \<not> prefix (resolve src) (h_path h)"
    and run: "CopyFS dir src w = (r, w')"
  shows "r \<noteq> Inl Diverges \<and> (\<forall>q. fs_get (w_fs w') (resolve src @ q) = fs_get (w_fs w) (resolve src @ q))"
proof -
  let ?g = "fs_get (w_fs w)"
  let ?I = "protected {p. prefix (resolve src) p} ?g"
  have I: "?I w" using assms(4) by (auto simp: protected_def)
  have plain: "list_all plain_name q" if "?g (resolve src @ q) \<noteq> None" for q
    using assms(3) that by (auto simp: tidy_def list_all_append)
  have "wp (CopyFS dir src) (\<lambda>_. ?I) (\<lambda>e w'. e \<noteq> Diverges \<and> ?I w') w"
    unfolding CopyFS_def
  proof (rule wp_WalkDir, goal_cases)
    case (1 e w1)
    have "?I w1" using 1 I by (rule keepsD [OF keeps_protected_read(1)])
    then show ?case by (simp add: CopyFS_fn_def Let_def wp_fail)
  next
    case (2 n w1)
    have "?I w1" using 2 I by (rule keepsD [OF keeps_protected_read(1)])
    moreover have "w_fs w1 = w_fs w" "?g (resolve src @ []) \<noteq> None"
      using os_Stat_InrD [OF 2] dirfs_rel_name [of "[]" src] by auto
    moreover have "length q < Suc (length (w_fs w))" if "?g (resolve src @ [] @ q) \<noteq> None" for q
      using tidy_depth [OF assms(3) that] by simp
    ultimately show ?case
      using wp_walk_ends [OF assms(1,2) plain, of ?g "[]" "Suc (length (w_fs w))" w1 "is_dir (Some n)"]
      by (simp del: walk_dir.simps is_dir.simps)
  qed
  then show ?thesis
    using run by (auto simp: wp_def protected_def split: sum.splits)
qed

text \<open>A small disk, and the failure of one call.\<close>

definition a_tree :: fs where
  "a_tree = [([''a''], Dir 0), ([''a'', ''x''], File [1, 2] 0), ([''b''], Dir 0)]"

definition fails_at :: "nat \<Rightarrow> unit world \<Rightarrow> unit world" where
  "fails_at n w = w\<lparr>w_fault := \<lambda>t. if t = n then Some \<lparr>flt_errno = EIO, flt_part = 0, flt_sel = \<lambda>_. True\<rparr> else None\<rparr>"

lemma a_tree_facts:
  "resolve ''/a'' = [''a'']" "resolve ''/b'' = [''b'']" "rooted ''/b''" "[''b''] \<parallel> [''a'']"
  "w_fs (fails_at n (calm a_tree ())) = a_tree" "w_fds (fails_at n (calm a_tree ())) = (\<lambda>_. None)" "w_tick (fails_at n (calm a_tree ())) = 0"
  by (simp_all add: resolve_def rooted_def parallel_def fails_at_def calm_def)

theorem CopyFS_ends_witness:
  "\<exists>r w'. CopyFS ''/b'' ''/a'' (fails_at 3 (calm a_tree ())) = (r, w') \<and> r \<noteq> Inl Diverges \<and>
     file_at (w_fs w') [''a'', ''x''] = Some [1, 2]"
proof -
  have t: "tidy a_tree" by (rule tidyI) code_simp
  obtain r w' where run: "CopyFS ''/b'' ''/a'' (fails_at 3 (calm a_tree ())) = (r, w')" by fastforce
  have "r \<noteq> Inl Diverges \<and> (\<forall>q. fs_get (w_fs w') (resolve ''/a'' @ q) =
      fs_get (w_fs (fails_at 3 (calm a_tree ()))) (resolve ''/a'' @ q))"
    by (rule CopyFS_ends [OF _ _ _ _ run]) (simp_all add: a_tree_facts t)
  moreover from this have "fs_get (w_fs w') (resolve ''/a'' @ [''x'']) = fs_get a_tree (resolve ''/a'' @ [''x''])"
    unfolding a_tree_facts(5) by blast
  ultimately show ?thesis using run by (auto simp: a_tree_facts a_tree_def fs_get_def file_at_def)
qed

section \<open>The copy is complete\<close>

text \<open>A node without its time.\<close>

fun shape :: "node option \<Rightarrow> byte list option option" where
  "shape None = None"
| "shape (Some (Dir _)) = Some None"
| "shape (Some (File c _)) = Some (Some c)"

lemma shape_None [simp]: "shape n = None \<longleftrightarrow> n = None"
  by (cases n rule: shape.cases) simp_all

lemma shape_dir: "is_dir n \<Longrightarrow> shape n = Some None"
  by (auto simp: is_dir_iff)

text \<open>The source \<open>s\<close> is as in \<open>g\<close>; the target \<open>a\<close> can be created; the copy from \<open>s\<close> to \<open>a\<close> was made.\<close>

definition intact :: "(fpath \<Rightarrow> node option) \<Rightarrow> fpath \<Rightarrow> ('x, 'm) world_scheme \<Rightarrow> bool" where
  "intact g s w \<longleftrightarrow> quiet w \<and> parents_ok (w_fs w) s \<and> (\<forall>r. fs_get (w_fs w) (s @ r) = g (s @ r))"

definition room :: "fpath \<Rightarrow> bool \<Rightarrow> fs \<Rightarrow> bool" where
  "room a d f \<longleftrightarrow> parents_ok f a \<and> (\<forall>r. r \<noteq> [] \<longrightarrow> fs_get f (a @ r) = None) \<and>
     (fs_get f a = None \<or> d \<and> is_dir (fs_get f a))"

definition copied :: "(fpath \<Rightarrow> node option) \<Rightarrow> fpath \<Rightarrow> fpath \<Rightarrow> fs \<Rightarrow> fs \<Rightarrow> bool" where
  "copied g s a f f' \<longleftrightarrow> (\<forall>r. shape (fs_get f' (a @ r)) = shape (g (s @ r))) \<and>
     (\<forall>p. \<not> prefix a p \<longrightarrow> fs_get f' p = fs_get f p)"

lemma parallel_below: "a \<parallel> s \<Longrightarrow> prefix s p \<Longrightarrow> \<not> prefix (a @ q) p"
  by (meson append_prefixD parallelE prefix_same_cases)

lemma parallel_above: "a \<parallel> s \<Longrightarrow> prefix p s \<Longrightarrow> \<not> prefix (a @ q) p"
  by (meson append_prefixD parallelE prefix_order.trans)

lemma intact_unchanged:
  assumes "intact g s w" "a \<parallel> s" "quiet w'" "\<And>p. \<not> prefix (a @ q) p \<Longrightarrow> fs_get (w_fs w') p = fs_get (w_fs w) p"
  shows "intact g s w'"
proof -
  have "parents_ok (w_fs w') s"
    by (rule parents_ok_cong [of "w_fs w"])
      (use assms in \<open>auto simp: intact_def dest!: prefix_order.less_imp_le dest: parallel_above [OF assms(2)]\<close>)
  then show ?thesis using assms parallel_below [OF assms(2), of "s @ r" for r] by (simp add: intact_def)
qed

lemma intact_parents: "intact g s w \<Longrightarrow> tidy f \<Longrightarrow> g = fs_get f \<Longrightarrow> g (s @ q) \<noteq> None \<Longrightarrow> parents_ok (w_fs w) (s @ q)"
  unfolding parents_ok_iff
proof (intro allI impI)
  fix p assume h: "intact g s w" "tidy f" "g = fs_get f" "g (s @ q) \<noteq> None" "strict_prefix p (s @ q)"
  then have dir: "is_dir (g p)" by (auto simp: tidy_def parents_ok_iff)
  have "strict_prefix p s \<or> (\<exists>r. p = s @ r)"
    using h(5) by (metis prefixE prefix_order.le_less prefix_order.less_imp_le prefixI prefix_same_cases append_Nil2)
  then show "is_dir (fs_get (w_fs w) p)"
    using h(1) dir by (auto simp: intact_def parents_ok_iff)
qed

lemma tidy_absent: "tidy f \<Longrightarrow> \<not> is_dir (fs_get f p) \<Longrightarrow> r \<noteq> [] \<Longrightarrow> fs_get f (p @ r) = None"
  by (cases r) (auto simp: tidy_def parents_ok_iff)

subsection \<open>One node\<close>

lemma meets_CloseE: "meets (file_CloseE fd) (\<lambda>_ w'. w_fs w' = w_fs w) w"
  unfolding file_CloseE_def by (rule meets_sys) (simp_all add: wp_def)

lemma meets_gives_up: "\<not> quiet w \<Longrightarrow> meets (bnd (attempt m) (\<lambda>_. fail e)) Q w"
  by (auto simp: meets_def wp_def bnd_run attempt_run fail_run split: prod.split sum.split)

lemma meets_CopyFS_file:
  assumes "rooted dir" "list_all plain_name q" "resolve src @ q \<noteq> resolve dir @ q"
    and src: "parents_ok (w_fs w) (resolve src @ q)" "fs_get (w_fs w) (resolve src @ q) = Some (File c t)"
    and dst: "parents_ok (w_fs w) (resolve dir @ q)" "\<not> is_dir (fs_get (w_fs w) (resolve dir @ q))"
  shows "meets (CopyFS_fn dir src (rel_name q) (Some False) e)
     (\<lambda>_ w'. \<exists>t. fs_get (w_fs w') = (fs_get (w_fs w))(resolve dir @ q \<mapsto> File c t)) w"
proof -
  let ?a = "resolve dir @ q" and ?s = "resolve src @ q"
  have ne: "?a \<noteq> []" using dst(2) by auto
  have rs: "resolve (dirfs src (rel_name q)) = ?s" and ra: "resolve (path_Join [dir, rel_name q]) = ?a"
    using assms(1,2) by simp_all
  let ?cp = "\<lambda>i o'. bnd (attempt (io_Copy (file_Write o') (file_reader i))) (\<lambda>c. case c of
        Inl x \<Rightarrow> bnd (attempt (file_CloseE o')) (\<lambda>_. fail (ErrWrap (''copying '' @ rel_name q) x))
      | Inr _ \<Rightarrow> file_CloseE o')"
  let ?done = "\<lambda>_ w'. \<exists>t. fs_get (w_fs w') = (fs_get (w_fs w))(?a \<mapsto> File c t)"
  have copy: "meets (?cp i o') ?done w3"
    if h: "w_fds w3 i = Some \<lparr>h_path = ?s, h_off = 0, h_rd = True, h_wr = False\<rparr>" "i \<noteq> o'"
      "w_fds w3 o' = Some \<lparr>h_path = ?a, h_off = 0, h_rd = False, h_wr = True\<rparr>"
      and fs: "fs_get (w_fs w3) = (fs_get (w_fs w))(?a \<mapsto> File [] t')" for i o' w3 t'
  proof -
    have "meets (io_Copy (file_Write o') (file_reader i)) ?done w3"
      by (rule meets_mono [OF meets_copy [OF h(1) _ _ h(3), of c t "[]" t']])
        (use fs src(2) assms(3) ne h(2) in \<open>auto simp: overwrite_start\<close>)
    then have "meets (attempt (io_Copy (file_Write o') (file_reader i)))
        (\<lambda>r w'. case r of Inl _ \<Rightarrow> \<not> quiet w3 | Inr _ \<Rightarrow> \<exists>t. fs_get (w_fs w') = (fs_get (w_fs w))(?a \<mapsto> File c t)) w3"
      by (intro meets_attempt) simp_all
    then show ?thesis
    proof (rule meets_bnd, intro keeps, goal_cases)
      case (1 r w4)
      show ?case
      proof (cases r)
        case Inl
        then show ?thesis using 1 by (simp add: meets_gives_up)
      next
        case Inr
        then show ?thesis by (simp, intro meets_mono [OF meets_CloseE]) (use 1 in auto)
      qed
    qed
  qed
  have open_dst: "meets (bnd (open_file False True True True (path_Join [dir, rel_name q])) (\<lambda>o'.
      ?cp i o')) ?done w2"
    if h: "w_fds w2 i = Some \<lparr>h_path = ?s, h_off = 0, h_rd = True, h_wr = False\<rparr>" "i < w_nfd w2" "w_fs w2 = w_fs w" for i w2
  proof (rule meets_bnd [OF meets_open_write])
    show "parents_ok (w_fs w2) (resolve (path_Join [dir, rel_name q]))"
      "\<not> is_dir (fs_get (w_fs w2) (resolve (path_Join [dir, rel_name q])))"
      unfolding ra h(3) by (rule dst)+
  next
    fix o' w3
    assume "o' = w_nfd w2 \<and> w_nfd w3 = Suc (w_nfd w2) \<and>
      (\<exists>t. fs_get (w_fs w3) = (fs_get (w_fs w2))(resolve (path_Join [dir, rel_name q]) \<mapsto>
         File (opened True (fs_get (w_fs w2) (resolve (path_Join [dir, rel_name q])))) t)) \<and>
      w_fds w3 = (w_fds w2)(o' \<mapsto> \<lparr>h_path = resolve (path_Join [dir, rel_name q]), h_off = 0, h_rd = False, h_wr = True\<rparr>)"
    then obtain t' where "fs_get (w_fs w3) = (fs_get (w_fs w))(?a \<mapsto> File [] t')" "i \<noteq> o'"
      "w_fds w3 i = Some \<lparr>h_path = ?s, h_off = 0, h_rd = True, h_wr = False\<rparr>"
      "w_fds w3 o' = Some \<lparr>h_path = ?a, h_off = 0, h_rd = False, h_wr = True\<rparr>"
      using h by (auto simp: ra opened_def split: option.splits node.splits)
    then show "meets (?cp i o') ?done w3"
      by (intro copy)
  qed (intro keeps)
  show ?thesis
    unfolding CopyFS_fn_def Let_def option.case if_False
  proof (rule meets_bnd [OF meets_Open [of w "dirfs src (rel_name q)"]], goal_cases)
    case (4 i w1)
    have "meets (file_Size i) (\<lambda>n w'. n = int (length c) \<and> w_fs w' = w_fs w1 \<and> w_nfd w' = w_nfd w1 \<and> w_fds w' = w_fds w1) w1"
      by (rule meets_Size [of _ _ "\<lparr>h_path = ?s, h_off = 0, h_rd = True, h_wr = False\<rparr>" c t]) (use 4 src(2) in \<open>simp_all add: rs\<close>)
    then have "meets (bnd (file_Size i) (\<lambda>_. bnd (open_file False True True True (path_Join [dir, rel_name q])) (?cp i))) ?done w1"
      by (rule meets_bnd, intro keeps, intro open_dst) (use 4 in \<open>simp_all add: rs\<close>)
    then show ?case by - (rule meets_deferred, unfold fs_fields, assumption)
  qed (use src rs in \<open>simp_all add: keeps\<close>)
qed

lemma meets_CopyFS_dir:
  assumes "rooted dir" "list_all plain_name q"
    and "parents_ok (w_fs w) (resolve dir @ q)" "fs_get (w_fs w) (resolve dir @ q) = None \<or> is_dir (fs_get (w_fs w) (resolve dir @ q))"
  shows "meets (CopyFS_fn dir src (rel_name q) (Some True) e)
     (\<lambda>_ w'. is_dir (fs_get (w_fs w') (resolve dir @ q)) \<and> (\<forall>p. p \<noteq> resolve dir @ q \<longrightarrow> fs_get (w_fs w') p = fs_get (w_fs w) p)) w"
proof -
  let ?a = "resolve dir @ q"
  have above: "is_dir (fs_get (w_fs w) p)" if "prefix p ?a" "p \<noteq> ?a" for p
    using assms(3) that by (auto simp: parents_ok_iff strict_prefix_def)
  have "fs_get (w_fs w) p \<noteq> Some (File c t)" if "prefix p ?a" for p c t
    using above [OF that] assms(4) by (cases "p = ?a") auto
  then show ?thesis unfolding CopyFS_fn_def Let_def option.case if_True
  proof (intro meets_mono [OF meets_MkdirAll], goal_cases)
    case (2 u w')
    then obtain t where w': "fs_get (w_fs w') p = (if p \<noteq> [] \<and> prefix p ?a \<and> fs_get (w_fs w) p = None then Some (Dir t) else fs_get (w_fs w) p)" for p
      using assms(1,2) by auto
    have "p = ?a" if "prefix p ?a" "fs_get (w_fs w) p = None" for p
      using above [OF that(1)] that(2) by (cases "p = ?a") auto
    then show ?case using assms(4) by (auto simp: w' is_dir_iff)
  qed (use assms(1,2) in simp)
qed

lemma ReadDir_quiet:
  assumes "quiet w" "parents_ok (w_fs w) (resolve p)" "is_dir (fs_get (w_fs w) (resolve p))"
  shows "os_ReadDir p w = (Inr (map (\<lambda>n. (n, is_dir (fs_get (w_fs w) (resolve p @ [n])))) (sort (fs_names (w_fs w) (resolve p))), None), tick w)"
  using assms by (auto simp: os_ReadDir_def Let_def sys_quiet fs_find_eq is_dir_iff)

subsection \<open>The tree\<close>

text \<open>The entries of a directory, one after the other.\<close>

lemma copies_entries:
  assumes "\<And>m w. m \<in> set ms \<Longrightarrow> intact g s0 w \<Longrightarrow> room (a @ [m]) (is_dir (g (s @ [m]))) (w_fs w) \<Longrightarrow>
      wp (f m) (\<lambda>_ w'. intact g s0 w' \<and> copied g (s @ [m]) (a @ [m]) (w_fs w) (w_fs w')) (\<lambda>_ _. False) w"
    and "distinct ms" "intact g s0 w" "parents_ok (w_fs w) a" "is_dir (fs_get (w_fs w) a)"
    and "\<forall>m\<in>set ms. \<forall>r. fs_get (w_fs w) (a @ m # r) = None"
  shows "wp (each f ms) (\<lambda>_ w'. intact g s0 w' \<and>
      (\<forall>m\<in>set ms. \<forall>r. shape (fs_get (w_fs w') (a @ m # r)) = shape (g (s @ m # r))) \<and>
      (\<forall>p. (\<forall>m\<in>set ms. \<not> prefix (a @ [m]) p) \<longrightarrow> fs_get (w_fs w') p = fs_get (w_fs w) p)) (\<lambda>_ _. False) w"
  using assms
proof (induction ms arbitrary: w)
  case (Cons m ms)
  have room: "room (a @ [m]) (is_dir (g (s @ [m]))) (w_fs w)"
    using Cons.prems(4-6) parents_ok_snoc [of "w_fs w" a m] by (auto simp: room_def)
  show ?case unfolding each.simps wp_bnd
  proof (rule wp_mono [OF Cons.prems(1) [OF _ Cons.prems(3) room]], simp, goal_cases)
    case (1 u w1)
    then have c: "copied g (s @ [m]) (a @ [m]) (w_fs w) (w_fs w1)" and i: "intact g s0 w1" by auto
    have old: "fs_get (w_fs w1) p = fs_get (w_fs w) p" if "\<not> prefix (a @ [m]) p" for p
      using c that by (simp add: copied_def)
    have "fs_get (w_fs w1) p = fs_get (w_fs w) p" if "prefix p a" for p
      by (rule old) (use that in \<open>auto dest!: prefix_length_le\<close>)
    then have "parents_ok (w_fs w1) a" "is_dir (fs_get (w_fs w1) a)"
      using Cons.prems(4,5) by (auto simp: parents_ok_iff dest: prefix_order.less_imp_le)
    moreover have "\<forall>k\<in>set ms. \<forall>r. fs_get (w_fs w1) (a @ k # r) = None"
    proof (intro ballI allI)
      fix k r assume k: "k \<in> set ms"
      then have "\<not> prefix (a @ [m]) (a @ k # r)" using Cons.prems(2) by auto
      then show "fs_get (w_fs w1) (a @ k # r) = None" using Cons.prems(6) k by (simp add: old)
    qed
    ultimately have "wp (each f ms) (\<lambda>_ w'. intact g s0 w' \<and>
      (\<forall>m\<in>set ms. \<forall>r. shape (fs_get (w_fs w') (a @ m # r)) = shape (g (s @ m # r))) \<and>
      (\<forall>p. (\<forall>m\<in>set ms. \<not> prefix (a @ [m]) p) \<longrightarrow> fs_get (w_fs w') p = fs_get (w_fs w1) p)) (\<lambda>_ _. False) w1"
      using Cons.prems(1,2) i by (intro Cons.IH) auto
    then show ?case
    proof (rule wp_mono, goal_cases)
      case (1 u w2)
      have "\<forall>k\<in>set ms. \<not> prefix (a @ [k]) (a @ m # r)" for r using Cons.prems(2) by auto
      then have "fs_get (w_fs w2) (a @ m # r) = fs_get (w_fs w1) (a @ m # r)" for r using 1 by blast
      moreover have "shape (fs_get (w_fs w1) (a @ m # r)) = shape (g (s @ m # r))" for r
        using c by (simp add: copied_def)
      ultimately show ?case using 1 old by auto
    qed
  qed
qed (simp add: wp_ret)

lemma wp_run: "m w = (Inr x, w1) \<Longrightarrow> wp (bnd m k) Q E w = wp (k x) Q E w1"
  by (simp add: wp_def bnd_run)

lemma each_cong: "(\<And>x. x \<in> set xs \<Longrightarrow> f x = h x) \<Longrightarrow> each f xs = each h xs"
  by (induction xs) simp_all

lemma each_map: "each f (map h xs) = each (\<lambda>x. f (h x)) xs"
  by (induction xs) simp_all

lemma copied_file:
  assumes "tidy f" "fs_get f s = Some (File c t)" "room a False (w_fs w)" "fs_get f' = (fs_get (w_fs w))(a \<mapsto> File c t')"
  shows "copied (fs_get f) s a (w_fs w) f'"
proof -
  have "shape (fs_get f' (a @ r)) = shape (fs_get f (s @ r))" for r
    using assms tidy_absent [OF assms(1), of s r] by (cases "r = []") (auto simp: room_def)
  then show ?thesis using assms(4) by (auto simp: copied_def)
qed

lemma same_CopyFS_fn: "same surroundings (CopyFS_fn dir src p d e)"
  unfolding CopyFS_fn_def Let_def by (intro keeps; simp)

lemma walk_copies:
  fixes w :: "('x, 'm) world_scheme"
  assumes dir: "rooted dir" "resolve dir \<parallel> resolve src" and f: "tidy f"
    and depth: "\<And>r. fs_get f (resolve src @ q @ r) \<noteq> None \<Longrightarrow> length r < n"
    and q: "fs_get f (resolve src @ q) \<noteq> None"
    and i: "intact (fs_get f) (resolve src) w" and room: "room (resolve dir @ q) (is_dir (fs_get f (resolve src @ q))) (w_fs w)"
  shows "wp (walk_dir n (\<lambda>p. os_ReadDir (dirfs src p)) (CopyFS_fn dir src) (rel_name q) (is_dir (fs_get f (resolve src @ q))))
     (\<lambda>_ w'. intact (fs_get f) (resolve src) w' \<and> copied (fs_get f) (resolve src @ q) (resolve dir @ q) (w_fs w) (w_fs w'))
     (\<lambda>_ _. False) w"
  using depth q i room
proof (induction n arbitrary: q w)
  case 0
  then show ?case using "0.prems"(1) [of "[]"] by simp
next
  case (Suc n)
  let ?s = "resolve src @ q" and ?a = "resolve dir @ q" and ?I = "intact (fs_get f) (resolve src)"
  let ?fn = "CopyFS_fn dir src (rel_name q)"
  have plain: "list_all plain_name q" using f Suc.prems(2) by (auto simp: tidy_def list_all_append)
  have I: "?I w'" if "?I w0" "quiet w'" "\<And>p. \<not> prefix ?a p \<Longrightarrow> fs_get (w_fs w') p = fs_get (w_fs w0) p"
    for w0 w' :: "('x, 'm) world_scheme"
    by (rule intact_unchanged [OF that(1) dir(2) that(2,3)])
  have q: "quiet w" using Suc.prems(3) by (simp add: intact_def)
  have src: "parents_ok (w_fs w) ?s" "fs_get (w_fs w) ?s = fs_get f ?s"
    using intact_parents [OF Suc.prems(3) f refl Suc.prems(2)] Suc.prems(3) by (auto simp: intact_def)
  have dst: "parents_ok (w_fs w) ?a" using Suc.prems(4) by (simp add: room_def)
  consider t where "fs_get f ?s = Some (Dir t)" | c t where "fs_get f ?s = Some (File c t)"
    using Suc.prems(2) by (cases "fs_get f ?s" rule: is_dir.cases) auto
  then show ?case
  proof cases
    case 1
    let ?copy = "\<lambda>m. walk_dir n (\<lambda>p. os_ReadDir (dirfs src p)) (CopyFS_fn dir src) (rel_name (q @ [m])) (is_dir (fs_get f (?s @ [m])))
      :: (('x, 'm) world_scheme, unit) go"
    have "meets (?fn (Some True) None) (\<lambda>_ w'. is_dir (fs_get (w_fs w') ?a) \<and> (\<forall>p. p \<noteq> ?a \<longrightarrow> fs_get (w_fs w') p = fs_get (w_fs w) p)) w"
      by (rule meets_CopyFS_dir) (use dir plain dst Suc.prems(4) in \<open>auto simp: room_def\<close>)
    then have mk: "wp (?fn (Some True) None) (\<lambda>_ w'. is_dir (fs_get (w_fs w') ?a) \<and> (\<forall>p. p \<noteq> ?a \<longrightarrow> fs_get (w_fs w') p = fs_get (w_fs w) p)) (\<lambda>_ _. False) w"
      using q by (simp add: meets_def)
    have "wp (bnd (os_ReadDir (dirfs src (rel_name q))) (\<lambda>(es, eo). bnd (case eo of None \<Rightarrow> ret () | Some e \<Rightarrow> ?fn (Some True) (Some e))
        (\<lambda>_. each (\<lambda>(m, b). walk_dir n (\<lambda>p. os_ReadDir (dirfs src p)) (CopyFS_fn dir src) (path_Join [rel_name q, m]) b) es)))
      (\<lambda>_ w'. ?I w' \<and> copied (fs_get f) ?s ?a (w_fs w) (w_fs w')) (\<lambda>_ _. False) w1"
      if run: "?fn (Some True) None w = (Inr (), w1)" and a: "is_dir (fs_get (w_fs w1) ?a)"
        and old: "\<And>p. p \<noteq> ?a \<Longrightarrow> fs_get (w_fs w1) p = fs_get (w_fs w) p" for w1
    proof -
      have q1: "quiet w1" using quiet_surroundings sameD [OF same_CopyFS_fn run] q by blast
      have I1: "?I w1" by (rule I [OF Suc.prems(3) q1]) (use old in auto)
      have src1: "parents_ok (w_fs w1) ?s" "fs_get (w_fs w1) (resolve src @ q @ r) = fs_get f (resolve src @ q @ r)" for r
        using intact_parents [OF I1 f refl Suc.prems(2)] I1 by (auto simp: intact_def)
      define ms where "ms = sort (fs_names (w_fs w1) ?s)"
      have ms: "m \<in> set ms \<longleftrightarrow> fs_get f (?s @ [m]) \<noteq> None" for m
        by (simp add: ms_def set_fs_names src1)
      have entries: "os_ReadDir (dirfs src (rel_name q)) w1 = (Inr (map (\<lambda>n. (n, is_dir (fs_get f (?s @ [n])))) ms, None), tick w1)"
        using ReadDir_quiet [OF q1, of "dirfs src (rel_name q)"] plain src1 src1(2) [of "[]"] 1 by (simp add: ms_def)
      have "wp (each ?copy ms) (\<lambda>_ w'. ?I w' \<and>
          (\<forall>m\<in>set ms. \<forall>r. shape (fs_get (w_fs w') (?a @ m # r)) = shape (fs_get f (?s @ m # r))) \<and>
          (\<forall>p. (\<forall>m\<in>set ms. \<not> prefix (?a @ [m]) p) \<longrightarrow> fs_get (w_fs w') p = fs_get (w_fs (tick w1)) p)) (\<lambda>_ _. False) (tick w1)"
      proof (rule copies_entries)
        fix m and w0 :: "('x, 'm) world_scheme"
        assume m: "m \<in> set ms" and "?I w0" "room (?a @ [m]) (is_dir (fs_get f (?s @ [m]))) (w_fs w0)"
        moreover have "length r < n" if "fs_get f (resolve src @ (q @ [m]) @ r) \<noteq> None" for r
          using Suc.prems(1) [of "m # r"] that by simp
        ultimately show "wp (?copy m) (\<lambda>_ w'. ?I w' \<and> copied (fs_get f) (?s @ [m]) (?a @ [m]) (w_fs w0) (w_fs w')) (\<lambda>_ _. False) w0"
          using Suc.IH [of "q @ [m]" w0] ms by simp
      next
        show "?I (tick w1)" by (rule I [OF I1]) (simp_all add: q1)
        have "fs_get (w_fs w1) p = fs_get (w_fs w) p" if "strict_prefix p ?a" for p
          using that by (intro old) auto
        then show "parents_ok (w_fs (tick w1)) ?a" using parents_ok_cong [OF dst] by simp
        show "\<forall>m\<in>set ms. \<forall>r. fs_get (w_fs (tick w1)) (?a @ m # r) = None"
          using Suc.prems(4) old by (auto simp: room_def)
      qed (simp_all add: a ms_def)
      then have "wp (each ?copy ms) (\<lambda>_ w'. ?I w' \<and> copied (fs_get f) ?s ?a (w_fs w) (w_fs w')) (\<lambda>_ _. False) (tick w1)"
      proof (rule wp_mono, goal_cases)
        case (1 u w2)
        have rest: "fs_get (w_fs w2) p = fs_get (w_fs w1) p" if "\<forall>m\<in>set ms. \<not> prefix (?a @ [m]) p" for p
          using 1 that by simp
        have "shape (fs_get (w_fs w2) (?a @ r)) = shape (fs_get f (?s @ r))" for r
        proof (cases r)
          case Nil
          have "is_dir (fs_get (w_fs w2) ?a)" using a by (subst rest) (auto dest!: prefix_length_le)
          then show ?thesis using Nil \<open>fs_get f ?s = _\<close> by (simp add: shape_dir)
        next
          case (Cons m r')
          show ?thesis
          proof (cases "m \<in> set ms")
            case True
            then show ?thesis using 1 Cons by simp
          next
            case False
            then have "fs_get f (?s @ m # r') = None"
              using tidy_absent [OF f, of "?s @ [m]" r'] ms [of m] by (cases "r' = []") auto
            moreover have "fs_get (w_fs w2) (?a @ m # r') = None"
              using False Suc.prems(4) old by (subst rest) (auto simp: room_def)
            ultimately show ?thesis using Cons by simp
          qed
        qed
        moreover have "fs_get (w_fs w2) p = fs_get (w_fs w) p" if "\<not> prefix ?a p" for p
        proof -
          have "\<forall>m\<in>set ms. \<not> prefix (?a @ [m]) p" using that append_prefixD [of ?a] by blast
          then show ?thesis using that old by (subst rest) auto
        qed
        ultimately show ?case using 1 by (simp add: copied_def)
      qed
      moreover have "each (\<lambda>(m, b). walk_dir n (\<lambda>p. os_ReadDir (dirfs src p)) (CopyFS_fn dir src) (path_Join [rel_name q, m]) b)
          (map (\<lambda>n. (n, is_dir (fs_get f (?s @ [n])))) ms) = each ?copy ms"
        unfolding each_map by (rule each_cong) (use plain f ms in \<open>auto simp: rel_name_child tidy_def list_all_append\<close>)
      ultimately show ?thesis by (simp only: wp_run [of "os_ReadDir (dirfs src (rel_name q))" w1, OF entries] prod.case option.case bnd_ret)
    qed
    then show ?thesis using 1 mk by (auto simp: wp_bnd elim!: wp_mono)
  next
    case 2
    have "meets (?fn (Some False) None) (\<lambda>_ w'. \<exists>t. fs_get (w_fs w') = (fs_get (w_fs w))(?a \<mapsto> File c t)) w"
      by (rule meets_CopyFS_file) (use dir plain src dst Suc.prems(4) 2 in \<open>auto simp: room_def\<close>)
    then have "wp (?fn (Some False) None) (\<lambda>_ w'. \<exists>t. fs_get (w_fs w') = (fs_get (w_fs w))(?a \<mapsto> File c t)) (\<lambda>_ _. False) w"
      using q by (simp add: meets_def)
    then have "wp (?fn (Some False) None) (\<lambda>_ w'. ?I w' \<and> copied (fs_get f) ?s ?a (w_fs w) (w_fs w')) (\<lambda>_ _. False) w"
    proof (rule wp_mono, goal_cases)
      case step: (1 u w')
      then obtain t' where w': "fs_get (w_fs w') = (fs_get (w_fs w))(?a \<mapsto> File c t')" by blast
      have "quiet w'" using quiet_surroundings sameD [OF same_CopyFS_fn step(1)] q by blast
      moreover from this have "?I w'" by (rule I [OF Suc.prems(3)]) (auto simp: w')
      ultimately show ?case using copied_file [OF f 2 _ w'] Suc.prems(4) 2 by auto
    qed
    then show ?thesis using 2 by simp
  qed
qed

section \<open>The localfs database\<close>

text \<open>The directory \<open>a\<close> was made empty.\<close>

definition cleared :: "fpath \<Rightarrow> fs \<Rightarrow> fs \<Rightarrow> bool" where
  "cleared a f f' \<longleftrightarrow> is_dir (fs_get f' a) \<and> (\<forall>q. \<not> prefix a q \<longrightarrow> fs_get f' q = fs_get f q) \<and>
     (\<forall>q. strict_prefix a q \<longrightarrow> fs_get f' q = None)"

lemma cleared_tidy:
  assumes "cleared a f f'" "tidy f" "parents_ok f a" "list_all plain_name a"
  shows "parents_ok f' a" "tidy f'"
proof -
  have above: "fs_get f' q = fs_get f q" if "strict_prefix q a" for q
    using assms(1) that by (auto simp: cleared_def strict_prefix_def dest: prefix_order.antisym)
  then show a: "parents_ok f' a" using assms(3) by (simp add: parents_ok_iff)
  show "tidy f'" unfolding tidy_def
  proof (intro allI impI)
    fix p assume p: "fs_get f' p \<noteq> None"
    show "list_all plain_name p \<and> parents_ok f' p"
    proof (cases "p = a")
      case False
      then have out: "\<not> prefix a p" using assms(1) p by (auto simp: cleared_def strict_prefix_def)
      then have "\<not> prefix a q" if "strict_prefix q p" for q
        using that by (auto simp: strict_prefix_def dest: prefix_order.trans)
      then have "parents_ok f' p"
        using assms(1,2) out p by (intro parents_ok_cong [of f p f']) (auto simp: cleared_def tidy_def)
      then show ?thesis using assms(1,2) out p by (auto simp: cleared_def tidy_def)
    qed (use a assms(4) in simp)
  qed
qed

lemma CopyFS_cleared:
  assumes "rooted dir" "resolve dir \<parallel> resolve src" "tidy f" "is_dir (fs_get f (resolve src))"
    and c: "cleared (resolve dir) f (w_fs w)" "parents_ok f (resolve dir)" and q: "quiet w"
  shows "\<exists>w'. CopyFS dir src w = (Inr (), w') \<and> copied (fs_get f) (resolve src) (resolve dir) f (w_fs w')"
proof -
  let ?f = "w_fs w" and ?S = "resolve src" and ?A = "resolve dir"
  note t = cleared_tidy [OF c(1) assms(3) c(2) resolve_plain]
  have src: "fs_get ?f (?S @ r) = fs_get f (?S @ r)" for r
    using c(1) parallel_below [OF assms(2), of "?S @ r" "[]"] by (simp add: cleared_def)
  have dir: "is_dir (fs_get ?f ?S)" using src [of "[]"] assms(4) by simp
  then have par: "parents_ok ?f ?S" using t(2) by (auto simp: tidy_def is_dir_iff)
  have room: "room ?A True ?f" using c t(1) by (auto simp: room_def cleared_def strict_prefix_def)
  have walk: "wp (walk_dir (Suc (length ?f)) (\<lambda>p. os_ReadDir (dirfs src p)) (CopyFS_fn dir src) (rel_name []) (is_dir (fs_get ?f (?S @ []))))
     (\<lambda>_ w'. intact (fs_get ?f) ?S w' \<and> copied (fs_get ?f) (?S @ []) (?A @ []) ?f (w_fs w')) (\<lambda>_ _. False) (tick w)"
    using tidy_depth [OF t(2), of "?S @ _"] dir par room q
    by (intro walk_copies [OF assms(1,2) t(2), where w = "tick w", unfolded fs_fields])
      (fastforce simp: intact_def is_dir_iff)+
  have stat: "os_Stat (dirfs src ''.'') w = (Inr n, tick w)" if "fs_get ?f ?S = Some n" for n
    using Stat_quiet [OF q, of "dirfs src ''.''"] dirfs_rel_name [of "[]" src] par that by simp
  have "wp (CopyFS dir src) (\<lambda>_ w'. copied (fs_get ?f) ?S ?A ?f (w_fs w')) (\<lambda>_ _. False) w"
    unfolding CopyFS_def
  proof (rule wp_WalkDir)
    fix n w1 assume "os_Stat (dirfs src ''.'') w = (Inr n, w1)"
    moreover obtain k where "fs_get ?f ?S = Some (Dir k)" using dir by (auto simp: is_dir_iff)
    ultimately have "w1 = tick w" "is_dir (Some n) = is_dir (fs_get ?f (?S @ []))" using stat by auto
    then show "wp (walk_dir (Suc (length (w_fs w1))) (\<lambda>p. os_ReadDir (dirfs src p)) (CopyFS_fn dir src) ''.'' (is_dir (Some n)))
        (\<lambda>_ w'. copied (fs_get ?f) ?S ?A ?f (w_fs w')) (\<lambda>_ _. False) w1"
      using walk by (auto simp del: walk_dir.simps is_dir.simps elim!: wp_mono)
  qed (use stat dir in \<open>auto simp: is_dir_iff\<close>)
  then obtain w' where "CopyFS dir src w = (Inr (), w')" "copied (fs_get ?f) ?S ?A ?f (w_fs w')"
    by (auto dest: wp_okD)
  moreover from this(2) have "copied (fs_get f) ?S ?A f (w_fs w')"
    using src c(1) by (simp add: copied_def cleared_def)
  ultimately show ?thesis by blast
qed

lemma meets_each_RemoveAll:
  fixes w :: "('x, 'm) world_scheme"
  assumes "rooted d" "\<forall>n\<in>set ns. plain_name n" "parents_ok (w_fs w) (resolve d)" "is_dir (fs_get (w_fs w) (resolve d))"
  shows "meets (each (\<lambda>n. os_RemoveAll (path_Join [d, n])) ns) (\<lambda>_ _. True) w"
  using assms(2-)
proof (induction ns arbitrary: w)
  case (Cons n ns)
  let ?d = "resolve d"
  have r: "resolve (path_Join [d, n]) = ?d @ [n]" using assms(1) Cons.prems(1) by simp
  have "parents_ok (w_fs w) (?d @ [n])" using Cons.prems(2,3) by (simp add: parents_ok_snoc)
  then have rm: "meets (os_RemoveAll (path_Join [d, n])) (\<lambda>_ w'. w_fs w' = fs_drop (prefix (?d @ [n])) (w_fs w)) w"
    by (intro meets_mono [OF meets_RemoveAll [OF path_Join_ne [OF assms(1)]]]) (simp_all add: r)
  show ?case unfolding each.simps
  proof (rule meets_bnd [OF rm], intro keeps)
    fix w1 :: "('x, 'm) world_scheme"
    assume w1: "w_fs w1 = fs_drop (prefix (?d @ [n])) (w_fs w)"
    have "fs_get (w_fs w1) p = fs_get (w_fs w) p" if "prefix p ?d" for p
      using that by (auto simp: w1 fs_get_drop dest!: prefix_length_le)
    then have "parents_ok (w_fs w1) ?d" "is_dir (fs_get (w_fs w1) ?d)"
      using Cons.prems(2,3) by (auto simp: parents_ok_iff dest: prefix_order.less_imp_le)
    then show "meets (each (\<lambda>n. os_RemoveAll (path_Join [d, n])) ns) (\<lambda>_ _. True) w1"
      by (rule Cons.IH [rotated]) (use Cons.prems(1) in simp)
  qed
qed (simp add: meets_ret)

lemma RemoveContents_cleared:
  assumes "rooted d" "tidy (w_fs w)" "is_dir (fs_get (w_fs w) (resolve d))" "quiet w"
  shows "\<exists>w'. RemoveContents d w = (Inr (), w') \<and> quiet w' \<and> cleared (resolve d) (w_fs w) (w_fs w')"
proof -
  obtain n where n: "fs_get (w_fs w) (resolve d) = Some n" using assms(3) by (auto simp: is_dir_iff)
  then have par: "parents_ok (w_fs w) (resolve d)" using assms(2) by (auto simp: tidy_def)
  have "meets (RemoveContents d) (\<lambda>_ _. True) w"
    unfolding RemoveContents_def
  proof (rule meets_bnd [OF meets_Open [OF par n]], intro keeps, rule meets_deferred, goal_cases)
    case (1 fd w1)
    have "meets (file_Readdirnames fd (- 1)) (\<lambda>ns w'. ns = fs_names (w_fs w) (resolve d) \<and> w_fs w' = w_fs w) w1"
      unfolding file_Readdirnames_def
      by (rule meets_sysE) (use 1 assms(3) in \<open>auto simp: wp_def is_dir_iff\<close>)
    then show ?case
    proof (rule meets_bnd, intro keeps, goal_cases)
      case (1 ns w2)
      then show ?case
        by (intro meets_each_RemoveAll [OF assms(1)]) (use par assms(3) tidy_name [OF assms(2)] in auto)
    qed
  qed
  from meets_quiet [OF this assms(4)] obtain w' where w': "RemoveContents d w = (Inr (), w')" by auto
  moreover have "quiet w'"
    using sameD [OF same_surroundings_utils(2) w'] assms(4) quiet_surroundings by blast
  moreover have "cleared (resolve d) (w_fs w) (w_fs w')"
    using RemoveContents_InrD [OF w' assms(1,2)] assms(3) by (auto simp: cleared_def strict_prefix_def)
  ultimately show ?thesis by blast
qed

lemma LocalFS_Backup_copies:
  assumes "resolve datadir \<parallel> resolve BackupDir" "quiet w" "tidy (w_fs w)"
    and "is_dir (fs_get (w_fs w) (resolve datadir))" "parents_ok (w_fs w) (resolve BackupDir)"
  shows "\<exists>w'. LocalFS_Backup datadir w = (Inr (), w') \<and>
     copied (fs_get (w_fs w)) (resolve datadir) (resolve BackupDir) (w_fs w) (w_fs w')"
proof -
  let ?new = "bnd (wrapE ''could not clean backup directory'' (os_RemoveAll BackupDir))
      (\<lambda>_. wrapE ''could not create backup directory'' (os_MkdirAll BackupDir)) :: (('a, 'b) world_scheme, unit) go"
  obtain w0 where new: "?new w = (Inr (), w0)" and c: "cleared (resolve BackupDir) (w_fs w) (w_fs w0)"
    using meets_quiet [OF meets_new_dir [OF dirs_ne(1) assms(5), of "''could not clean backup directory''" "''could not create backup directory''"] assms(2)] by (auto simp: cleared_def)
  have "same surroundings ?new" by (intro keeps)
  from quiet_surroundings [OF sameD [OF this new]] have "quiet w0" using assms(2) by simp
  moreover have "resolve BackupDir \<parallel> resolve datadir" using assms(1) by (meson parallel_commute)
  ultimately obtain w' where w': "CopyFS BackupDir datadir w0 = (Inr (), w')"
    "copied (fs_get (w_fs w)) (resolve datadir) (resolve BackupDir) (w_fs w) (w_fs w')"
    using CopyFS_cleared [OF rooted_dirs(1) _ assms(3,4) c assms(5)] by blast
  have "LocalFS_Backup datadir = bnd ?new (\<lambda>_. wrapE ''could not copy contents'' (CopyFS BackupDir datadir))"
    by (simp add: LocalFS_Backup_def bnd_assoc)
  then show ?thesis using w' by (auto simp: bnd_run [of ?new] new wrapE_eq_Inr)
qed

lemma LocalFS_Recover_copies:
  assumes "rooted datadir" "resolve datadir \<parallel> resolve RestoreDir" "quiet w" "tidy (w_fs w)"
    and "is_dir (fs_get (w_fs w) (resolve datadir))" "is_dir (fs_get (w_fs w) (resolve RestoreDir))"
  shows "\<exists>w'. LocalFS_Recover datadir w = (Inr (), w') \<and>
     copied (fs_get (w_fs w)) (resolve RestoreDir) (resolve datadir) (w_fs w) (w_fs w')"
proof -
  obtain w0 where w0: "RemoveContents datadir w = (Inr (), w0)" "quiet w0" "cleared (resolve datadir) (w_fs w) (w_fs w0)"
    using RemoveContents_cleared [OF assms(1,4,5,3)] by blast
  have "parents_ok (w_fs w) (resolve datadir)" using assms(4,5) by (auto simp: tidy_def is_dir_iff)
  from CopyFS_cleared [OF assms(1,2,4,6) w0(3) this w0(2)] show ?thesis
    by (auto simp: LocalFS_Recover_def bnd_run wrapE_eq_Inr w0 wrapE_run)
qed

lemma shape_is_dir: "shape n = Some None \<longleftrightarrow> is_dir n"
  by (cases n rule: shape.cases) simp_all

text \<open>C12: where no call fails a backup of the localfs database ends without an error and leaves exactly the
  content of the data directory in the backup directory, nothing of an earlier backup, and changes nothing else;
  and a recovery from a restore directory with that content, from any later state of the disk, makes the
  data directory what it was at the time of the backup.\<close>

theorem LocalFS_roundtrip:
  assumes "rooted datadir" "resolve datadir \<parallel> resolve BackupDir" "resolve datadir \<parallel> resolve RestoreDir"
    and "quiet w" "tidy (w_fs w)" "is_dir (fs_get (w_fs w) (resolve datadir))" "parents_ok (w_fs w) (resolve BackupDir)"
  shows "\<exists>w1. LocalFS_Backup datadir w = (Inr (), w1) \<and>
     copied (fs_get (w_fs w)) (resolve datadir) (resolve BackupDir) (w_fs w) (w_fs w1) \<and>
     (\<forall>v. quiet v \<longrightarrow> tidy (w_fs v) \<longrightarrow> is_dir (fs_get (w_fs v) (resolve datadir)) \<longrightarrow>
        (\<forall>q. shape (fs_get (w_fs v) (resolve RestoreDir @ q)) = shape (fs_get (w_fs w1) (resolve BackupDir @ q))) \<longrightarrow>
        (\<exists>v1. LocalFS_Recover datadir v = (Inr (), v1) \<and>
           copied (fs_get (w_fs w)) (resolve datadir) (resolve datadir) (w_fs v) (w_fs v1)))"
proof -
  obtain w1 where w1: "LocalFS_Backup datadir w = (Inr (), w1)"
    "copied (fs_get (w_fs w)) (resolve datadir) (resolve BackupDir) (w_fs w) (w_fs w1)"
    using LocalFS_Backup_copies [OF assms(2,4-7)] by blast
  have "\<exists>v1. LocalFS_Recover datadir v = (Inr (), v1) \<and> copied (fs_get (w_fs w)) (resolve datadir) (resolve datadir) (w_fs v) (w_fs v1)"
    if v: "quiet v" "tidy (w_fs v)" "is_dir (fs_get (w_fs v) (resolve datadir))"
      and r: "\<forall>q. shape (fs_get (w_fs v) (resolve RestoreDir @ q)) = shape (fs_get (w_fs w1) (resolve BackupDir @ q))" for v
  proof -
    have same: "shape (fs_get (w_fs v) (resolve RestoreDir @ q)) = shape (fs_get (w_fs w) (resolve datadir @ q))" for q
      using r w1(2) by (simp add: copied_def)
    then have "is_dir (fs_get (w_fs v) (resolve RestoreDir))"
      using same [of "[]"] assms(6) by (simp flip: shape_is_dir)
    from LocalFS_Recover_copies [OF assms(1,3) v this] show ?thesis
      using same by (auto simp: copied_def)
  qed
  with w1 show ?thesis by blast
qed

definition a_data :: fs where
  "a_data = [([''data''], Dir 0), ([''data'', ''x''], File [1, 2] 0), ([''backup''], Dir 0), ([''backup'', ''upload''], Dir 0),
     ([''backup'', ''upload'', ''files''], Dir 0), ([''backup'', ''upload'', ''files'', ''old''], File [9] 0)]"

definition a_restored :: fs where
  "a_restored = [([''data''], Dir 0), ([''data'', ''y''], File [7] 0), ([''backup''], Dir 0), ([''backup'', ''restore''], Dir 0),
     ([''backup'', ''restore'', ''files''], Dir 0), ([''backup'', ''restore'', ''files'', ''x''], File [1, 2] 5)]"

theorem LocalFS_roundtrip_witness:
  "\<exists>w1 v1. LocalFS_Backup ''/data'' (calm a_data ()) = (Inr (), w1) \<and> fs_get (w_fs w1) [''backup'', ''upload'', ''files'', ''old''] = None \<and>
     LocalFS_Recover ''/data'' (calm a_restored ()) = (Inr (), v1) \<and>
     file_at (w_fs v1) [''data'', ''x''] = Some [1, 2] \<and> fs_get (w_fs v1) [''data'', ''y''] = None"
proof -
  have d: "rooted ''/data''" "resolve ''/data'' = [''data'']" by (simp_all add: rooted_def resolve_def)
  have t: "tidy a_data" "tidy a_restored" by (rule tidyI, code_simp)+
  have p: "resolve ''/data'' \<parallel> resolve BackupDir" "resolve ''/data'' \<parallel> resolve RestoreDir"
    by (simp_all add: d parallel_def)
  have f: "is_dir (fs_get a_data [''data''])" "is_dir (fs_get a_restored [''data''])" "parents_ok a_data (resolve BackupDir)"
    by (simp_all add: a_data_def a_restored_def fs_get_def parents_ok_def)
  have pre: "quiet (calm a_data ())" "tidy (w_fs (calm a_data ()))" "is_dir (fs_get (w_fs (calm a_data ())) (resolve ''/data''))"
    "parents_ok (w_fs (calm a_data ())) (resolve BackupDir)" by (simp_all only: calm_simps d t f)
  from LocalFS_roundtrip [OF d(1) p pre] obtain w1 where w1: "LocalFS_Backup ''/data'' (calm a_data ()) = (Inr (), w1)"
    "copied (fs_get a_data) [''data''] (resolve BackupDir) a_data (w_fs w1)"
    and all: "\<forall>v :: unit world. quiet v \<longrightarrow> tidy (w_fs v) \<longrightarrow> is_dir (fs_get (w_fs v) (resolve ''/data'')) \<longrightarrow>
      (\<forall>q. shape (fs_get (w_fs v) (resolve RestoreDir @ q)) = shape (fs_get (w_fs w1) (resolve BackupDir @ q))) \<longrightarrow>
      (\<exists>v1. LocalFS_Recover ''/data'' v = (Inr (), v1) \<and> copied (fs_get a_data) [''data''] [''data''] (w_fs v) (w_fs v1))"
    unfolding calm_simps d(2) by blast
  have rec: "\<exists>v1. LocalFS_Recover ''/data'' (calm a_restored ()) = (Inr (), v1) \<and> copied (fs_get a_data) [''data''] [''data''] a_restored (w_fs v1)"
    if "\<forall>q. shape (fs_get a_restored (resolve RestoreDir @ q)) = shape (fs_get (w_fs w1) (resolve BackupDir @ q))"
    using all [rule_format, of "calm a_restored ()", unfolded calm_simps d(2), OF calm_simps(2) t(2) f(2) that [rule_format]] by blast
  have "shape (fs_get a_restored (resolve RestoreDir @ q)) = shape (fs_get a_data ([''data''] @ q))" for q
    by (auto simp: a_restored_def a_data_def fs_get_def)
  then have "\<forall>q. shape (fs_get a_restored (resolve RestoreDir @ q)) = shape (fs_get (w_fs w1) (resolve BackupDir @ q))"
    using w1(2) by (simp add: copied_def)
  from rec [OF this] obtain v1 where v1: "LocalFS_Recover ''/data'' (calm a_restored ()) = (Inr (), v1)"
    "copied (fs_get a_data) [''data''] [''data''] a_restored (w_fs v1)" by blast
  have "shape (fs_get (w_fs w1) (resolve BackupDir @ [''old''])) = None" "shape (fs_get (w_fs v1) ([''data''] @ [''x''])) = Some (Some [1, 2])"
    "shape (fs_get (w_fs v1) ([''data''] @ [''y''])) = None"
    using w1(2) v1(2) by (simp_all only: copied_def) (simp_all add: a_data_def fs_get_def)
  moreover have "shape n = Some (Some c) \<Longrightarrow> \<exists>k. n = Some (File c k)" for n c by (cases n rule: shape.cases) auto
  ultimately have "fs_get (w_fs w1) [''backup'', ''upload'', ''files'', ''old''] = None" "file_at (w_fs v1) [''data'', ''x''] = Some [1, 2]"
    "fs_get (w_fs v1) [''data'', ''y''] = None" by (force simp: file_at_Some)+
  then show ?thesis using w1(1) v1(1) by blast
qed

section \<open>What is not read is not missed\<close>

lemma sys_tick:
  "w_fault w (w_tick w) = None \<Longrightarrow> sys flt act w = act (tick w)"
  "w_fault w (w_tick w) = Some ft \<Longrightarrow> sys flt act w = flt ft (tick w)"
  by (simp_all add: sys_def tick_def Let_def)

lemma fs_mkdirs_there:
  "(\<And>q. prefix q cs \<Longrightarrow> q \<noteq> [] \<Longrightarrow> is_dir (fs_get f (acc @ q))) \<Longrightarrow> fs_mkdirs t f acc cs = Inr f"
proof (induction cs arbitrary: acc)
  case (Cons c cs)
  have "fs_mkdirs t f (acc @ [c]) cs = Inr f"
    by (rule Cons.IH) (use Cons.prems [of "c # _"] in simp)
  then show ?case using Cons.prems [of "[c]"] by (auto simp: is_dir_iff)
qed simp

lemma MkdirAll_there:
  assumes "parents_ok (w_fs w) (resolve p)" "is_dir (fs_get (w_fs w) (resolve p))" "w_fault w (w_tick w) = None"
  shows "os_MkdirAll p w = (Inr (), tick w)"
proof -
  have "fs_mkdirs t (w_fs w) [] (resolve p) = Inr (w_fs w)" for t
    by (rule fs_mkdirs_there) (use assms(1,2) in \<open>auto simp: parents_ok_iff prefix_order.le_less\<close>)
  then show ?thesis using assms(3) by (simp add: os_MkdirAll_def sys_tick set_fs_def tick_def)
qed

text \<open>A source that is missing: the callback is handed no entry, and looks at it.\<close>

lemma CopyFS_missing_panics:
  assumes "quiet w" "parents_ok (w_fs w) (resolve src)" "fs_get (w_fs w) (resolve src) = None"
  shows "CopyFS dir src w = (Inl (Panic ''nil pointer dereference''), tick w)"
proof -
  have "resolve (dirfs src ''.'') = resolve src" using dirfs_rel_name [of "[]" src] by simp
  then have "os_Stat (dirfs src ''.'') w = (Inl (ErrOS ENOENT), tick w)"
    using Stat_quiet [OF assms(1), of "dirfs src ''.''"] assms(2,3) by simp
  then show ?thesis by (simp add: CopyFS_def WalkDir_def bnd_run attempt_run CopyFS_fn_def Let_def fail_run)
qed

text \<open>C34: a copy whose source directory could not be read succeeds all the same, with nothing copied: the
  callback of the walk never looks at the error that it is given.\<close>

theorem CopyFS_drops_unread:
  assumes "rooted dir" "parents_ok (w_fs w) (resolve dir)" "is_dir (fs_get (w_fs w) (resolve dir))"
    and "parents_ok (w_fs w) (resolve src)" "is_dir (fs_get (w_fs w) (resolve src))"
    and "\<forall>t. w_fault w t = (if t = w_tick w + 2 then Some \<lparr>flt_errno = e, flt_part = 0, flt_sel = d\<rparr> else None)"
  shows "\<exists>w'. CopyFS dir src w = (Inr (), w') \<and> w_fs w' = w_fs w"
proof -
  have tk: "w_tick (tick v) = Suc (w_tick v)" "w_fault (tick v) = w_fault v" for v :: "('a, 'b) world_scheme"
    by (simp_all add: tick_def)
  have src: "resolve (dirfs src ''.'') = resolve src" and dir: "resolve (path_Join [dir, ''.'']) = resolve dir"
    using dirfs_rel_name [of "[]" src] target_rel_name [OF assms(1), of "[]"] by simp_all
  have "fs_find (w_fs w) (resolve src) = Inr (Dir t)" if "fs_get (w_fs w) (resolve src) = Some (Dir t)" for t
    using that assms(4) by (simp add: fs_find_Inr)
  then obtain t where stat: "os_Stat (dirfs src ''.'') w = (Inr (Dir t), tick w)"
    using assms(5,6) by (auto simp: os_Stat_def sysE_def sys_tick src is_dir_iff)
  have mk: "CopyFS_fn dir src ''.'' (Some True) eo v = (Inr (), tick v)"
    if "w_fs v = w_fs w" "w_fault v (w_tick v) = None" for eo and v :: "('a, 'b) world_scheme"
    using that assms(2,3) MkdirAll_there [of v "path_Join [dir, ''.'']"] by (simp add: CopyFS_fn_def Let_def dir)
  have rd: "os_ReadDir (dirfs src ''.'') (tick (tick w)) = (Inr ([], Some (ErrOS e)), tick (tick (tick w)))"
    using assms(6) by (simp add: os_ReadDir_def Let_def sys_tick tk)
  show ?thesis
    using assms(6) by (simp add: CopyFS_def WalkDir_def bnd_run attempt_run asks_run stat mk rd tk ret_run)
qed

theorem CopyFS_drops_unread_witness:
  "\<exists>w'. CopyFS ''/b'' ''/a'' (fails_at 2 (calm a_tree ())) = (Inr (), w') \<and>
     file_at (w_fs w') [''a'', ''x''] = Some [1, 2] \<and> fs_get (w_fs w') [''b'', ''x''] = None"
proof -
  have "parents_ok a_tree [''b'']" "is_dir (fs_get a_tree [''b''])" "parents_ok a_tree [''a'']" "is_dir (fs_get a_tree [''a''])"
    by (simp_all add: a_tree_def fs_get_def parents_ok_def)
  moreover have "\<forall>t. w_fault (fails_at 2 (calm a_tree ())) t =
      (if t = w_tick (fails_at 2 (calm a_tree ())) + 2 then Some \<lparr>flt_errno = EIO, flt_part = 0, flt_sel = \<lambda>_. True\<rparr> else None)"
    unfolding a_tree_facts(7) by (simp add: fails_at_def)
  ultimately have "\<exists>w'. CopyFS ''/b'' ''/a'' (fails_at 2 (calm a_tree ())) = (Inr (), w') \<and> w_fs w' = w_fs (fails_at 2 (calm a_tree ()))"
    by (intro CopyFS_drops_unread [where e = EIO and d = "\<lambda>_. True"]) (simp_all only: a_tree_facts simp_thms)
  then obtain w' where w': "CopyFS ''/b'' ''/a'' (fails_at 2 (calm a_tree ())) = (Inr (), w')" "w_fs w' = a_tree"
    unfolding a_tree_facts(5) by blast
  then show ?thesis by (simp add: a_tree_def file_at_def fs_get_def)
qed

end
