(* ===== verification/DataRoundTrip.thy ===== *)
theory DataRoundTrip
  imports RoundTrip CopyTree
begin

text \<open>
  The localfs database through a whole backup and restore: the copy of its directory, the archive, the
  encryption, the local provider, the download and the copy back.  Only the archiver is known by what it
  promises.
\<close>

section \<open>Orderly worlds\<close>

text \<open>No call fails, the file system is tidy and the data directory is there.\<close>

definition orderly :: "fpath \<Rightarrow> ('x, 'm) world_scheme \<Rightarrow> bool" where
  "orderly d w \<longleftrightarrow> quiet w \<and> tidy (w_fs w) \<and> is_dir (fs_get (w_fs w) d)"

lemma orderly_sys: "keeps (orderly d) act \<Longrightarrow> keeps (orderly d) (sys flt act)"
  unfolding keeps_def by (auto simp: orderly_def sys_quiet)

lemma orderly_sysE: "keeps (orderly d) act \<Longrightarrow> keeps (orderly d) (sysE act)"
  unfolding sysE_def by (rule orderly_sys)

lemma quiet_set [simp]: "quiet (set_fs f w) = quiet w" "quiet (file_Close fd w) = quiet w" "quiet (set_off fd h k w) = quiet w"
  by (simp_all add: quiet_def set_fs_def file_Close_def set_off_def)

lemma orderly_fields [simp]:
  "orderly d (file_Close fd w) = orderly d w" "orderly d (set_off fd h k w) = orderly d w"
  by (simp_all add: orderly_def)

lemma orderly_set_fs: "orderly d w \<Longrightarrow> tidy f \<Longrightarrow> is_dir (fs_get f d) \<Longrightarrow> orderly d (set_fs f w)"
  by (simp add: orderly_def)

lemma orderly_new_fd: "orderly d w \<Longrightarrow> orderly d (snd (new_fd q rd wr w))"
  by (simp add: orderly_def new_fd_def quiet_def)

text \<open>A node is put where there is none, or over one of its kind.\<close>

lemma tidy_put:
  assumes "tidy f" "list_all plain_name p" "parents_ok f p" "is_dir (fs_get f p) \<longrightarrow> is_dir (Some n)"
  shows "tidy (fs_put p n f)"
proof -
  have dirs: "is_dir (fs_get (fs_put p n f) q)" if "is_dir (fs_get f q)" for q
    using that assms(4) by (auto simp: fs_get_put)
  show ?thesis using assms(1-3) dirs by (auto simp: tidy_def fs_get_put parents_ok_iff)
qed

lemma tidy_drop:
  assumes "tidy f" "\<And>p q. D p \<Longrightarrow> strict_prefix p q \<Longrightarrow> fs_get f q \<noteq> None \<Longrightarrow> D q"
  shows "tidy (fs_drop D f)"
  using assms by (auto simp: tidy_def fs_get_drop parents_ok_iff split: if_splits)

lemma tidy_mkdirs: "fs_mkdirs t f acc cs = Inr g \<Longrightarrow> tidy f \<Longrightarrow> list_all plain_name (acc @ cs) \<Longrightarrow> is_dir (fs_get f acc) \<Longrightarrow>
    parents_ok f acc \<Longrightarrow> tidy g \<and> (\<forall>q. is_dir (fs_get f q) \<longrightarrow> is_dir (fs_get g q))"
proof (induction t f acc cs arbitrary: g rule: fs_mkdirs.induct)
  case (2 t f acc c cs)
  have par: "parents_ok f (acc @ [c])" using 2 by (simp add: parents_ok_snoc)
  consider "fs_get f (acc @ [c]) = None" | k where "fs_get f (acc @ [c]) = Some (Dir k)" | b k where "fs_get f (acc @ [c]) = Some (File b k)"
    by (cases "fs_get f (acc @ [c])" rule: is_dir.cases) auto
  then show ?case
  proof cases
    case 1
    let ?f = "fs_put (acc @ [c]) (Dir t) f"
    have "parents_ok ?f (acc @ [c])" by (rule parents_ok_cong [OF par]) (auto simp: fs_get_put)
    moreover have "tidy ?f" by (rule tidy_put) (use 2 par in auto)
    ultimately have "tidy g \<and> (\<forall>q. is_dir (fs_get ?f q) \<longrightarrow> is_dir (fs_get g q))"
      using 2(1) [OF 1, of g] 2(3-) 1 by simp
    moreover have "is_dir (fs_get f q) \<Longrightarrow> is_dir (fs_get ?f q)" for q by (auto simp: fs_get_put)
    ultimately show ?thesis by blast
  next
    case (2 k)
    then show ?thesis using "2.IH"(2) [OF 2, of _ g] "2.prems" par by simp
  qed (use 2 in simp)
qed simp

lemma orderly_read [keeps]:
  "keeps (orderly d) (os_Stat p)" "keeps (orderly d) (file_Size fd)" "keeps (orderly d) (file_ReadAt fd n off)"
  "keeps (orderly d) (file_Read fd n)" "keeps (orderly d) (file_reader fd)"
  unfolding os_Stat_def file_Size_def file_ReadAt_def file_Read_def file_reader_def Let_def
  by (intro orderly_sys orderly_sysE keepsI; simp add: Let_def split: option.split sum.split node.split)+

lemma orderly_put:
  "orderly d w \<Longrightarrow> parents_ok (w_fs w) p \<Longrightarrow> list_all plain_name p \<Longrightarrow> \<not> is_dir (fs_get (w_fs w) p) \<Longrightarrow>
   orderly d (set_fs (fs_put p (File c t) (w_fs w)) w)"
  by (intro orderly_set_fs tidy_put) (auto simp: orderly_def fs_get_put)

lemma orderly_do_write:
  assumes "orderly d w"
  shows "orderly d (do_write fd h bs w)"
proof (cases "\<exists>c t. fs_get (w_fs w) (h_path h) = Some (File c t)")
  case True
  then have "parents_ok (w_fs w) (h_path h)" "list_all plain_name (h_path h)"
    using assms by (auto simp: orderly_def tidy_def)
  then show ?thesis using True orderly_put [OF assms] by (auto simp: do_write_def)
qed (use assms in \<open>auto simp: do_write_def split: option.split node.split\<close>)

lemma orderly_Write [keeps]: "keeps (orderly d) (file_Write fd bs)"
  unfolding file_Write_def by (intro orderly_sys keepsI) (auto intro: orderly_do_write split: option.split)

lemma orderly_open [keeps]: "keeps (orderly d) (open_file rd wr creat trunc p)"
proof -
  have put: "orderly d (set_fs (fs_put (resolve p) (File [] t) (w_fs w)) w)"
    if "orderly d w" "fs_walk (w_fs w) [] (resolve p) = None" "\<not> is_dir (fs_get (w_fs w) (resolve p))" for t and w :: "('a, 'b) world_scheme"
    using that resolve_plain by (intro orderly_put) (simp_all add: parents_ok_def)
  show ?thesis unfolding open_file_def Let_def
  proof (intro orderly_sysE keepsI)
    fix w :: "('a, 'b) world_scheme"
    assume "orderly d w"
    then show "orderly d (snd (case fs_find (w_fs w) (resolve p) of
        Inl e \<Rightarrow> if creat \<and> fs_walk (w_fs w) [] (resolve p) = None then new_fd (resolve p) rd wr (set_fs (fs_put (resolve p) (File [] (now w)) (w_fs w)) w)
          else (Inl (ErrOS e), w)
      | Inr (File c t) \<Rightarrow> new_fd (resolve p) rd wr (if trunc then set_fs (fs_put (resolve p) (File [] (now w)) (w_fs w)) w else w)
      | Inr (Dir x) \<Rightarrow> if wr \<or> creat then (Inl (ErrOS EISDIR), w) else new_fd (resolve p) rd wr w))"
      by (cases "fs_walk (w_fs w) [] (resolve p)"; cases "fs_get (w_fs w) (resolve p)" rule: is_dir.cases)
        (simp_all add: fs_find_def orderly_new_fd put)
  qed
qed

lemma orderly_RemoveAll [keeps]:
  "\<not> prefix (resolve p) d \<Longrightarrow> keeps (orderly d) (os_RemoveAll p)"
  unfolding os_RemoveAll_def
  by (intro keeps orderly_sys keepsI) (auto intro!: orderly_set_fs tidy_drop simp: orderly_def fs_get_drop strict_prefix_def dest: prefix_order.trans)

lemma orderly_Remove [keeps]:
  assumes "resolve p \<noteq> d"
  shows "keeps (orderly d) (os_Remove p)"
proof -
  have drop: "orderly d (set_fs (fs_drop (\<lambda>q. q = resolve p) (w_fs w)) w)"
    if o': "orderly d w" and e: "\<not> is_dir (fs_get (w_fs w) (resolve p)) \<or> fs_names (w_fs w) (resolve p) = []" for w :: "('a, 'b) world_scheme"
  proof -
    have "fs_get (w_fs w) q = None" if q: "strict_prefix (resolve p) q" for q
    proof (rule ccontr)
      assume n: "fs_get (w_fs w) q \<noteq> None"
      then have "is_dir (fs_get (w_fs w) (resolve p))" using o' q by (auto simp: orderly_def tidy_def parents_ok_iff)
      moreover have "fs_names (w_fs w) (resolve p) \<noteq> []"
        using tidy_child [OF _ n q] o' by (auto simp: orderly_def)
      ultimately show False using e by simp
    qed
    then show ?thesis using o' assms
      by (intro orderly_set_fs tidy_drop) (auto simp: orderly_def fs_get_drop)
  qed
  show ?thesis unfolding os_Remove_def
  proof (intro orderly_sysE keepsI)
    fix w :: "('a, 'b) world_scheme"
    assume "orderly d w"
    then show "orderly d (snd (case fs_find (w_fs w) (resolve p) of
        Inl e \<Rightarrow> (Inl (ErrOS e), w)
      | Inr (File x xa) \<Rightarrow> (Inr (), set_fs (fs_drop (\<lambda>q. q = resolve p) (w_fs w)) w)
      | Inr (Dir x) \<Rightarrow> if fs_names (w_fs w) (resolve p) = [] then (Inr (), set_fs (fs_drop (\<lambda>q. q = resolve p) (w_fs w)) w)
          else (Inl (ErrOS ENOTEMPTY), w)))"
      by (cases "fs_walk (w_fs w) [] (resolve p)"; cases "fs_get (w_fs w) (resolve p)" rule: is_dir.cases)
        (simp_all add: fs_find_def drop)
  qed
qed

lemma orderly_MkdirAll [keeps]: "keeps (orderly d) (os_MkdirAll p)"
  unfolding os_MkdirAll_def
  by (intro orderly_sys keepsI)
    (auto simp: orderly_def dest!: tidy_mkdirs [OF _ _ _ _ parents_ok_Nil] simp: resolve_plain split: sum.split)

text \<open>A restore leaves the data directory alone until it runs the recovery.\<close>

lemma orderly_decrypt_loop [keeps]: "keeps (orderly d) (decrypt_loop n blk iv pos len i o')"
  by (induction n arbitrary: pos len) (auto intro!: keeps simp: Let_def)

lemma orderly_Decrypt [keeps]: "resolve p \<noteq> d \<Longrightarrow> keeps (orderly d) (Decrypt aes e p)"
  unfolding Decrypt_def readIVAndMessageLength_def openOutputFile_def decryptFile_def Let_def
  by (intro keeps) simp_all

lemma undisturbed_orderly:
  fixes i :: "('x, 'm) i_world_scheme initializer"
  assumes "in_bp i = local_provider c sws" "plain_name (bv_name v)" "d \<parallel> resolve DownloadDir"
  shows "undisturbed (orderly d) aes i v"
proof -
  obtain e where e: "download_path v = e @ slash # bv_name v" "resolve e = resolve DownloadDir"
    by (rule download_path_plain [OF assms(2)])
  have p: "resolve (download_path v) = resolve DownloadDir @ [bv_name v]" unfolding e(1) using e(2) assms(2) by simp
  have away: "\<not> prefix (resolve DownloadDir @ q) d" for q using assms(3) by (meson append_prefixD parallelE)
  have "resolve (download_path v) \<noteq> d" using away [of "[bv_name v]"] unfolding p by auto
  then have fetch: "keeps (orderly d) (fetch_backup aes i v fd)" for fd
    unfolding fetch_backup_def Let_def assms(1) local_provider_def provider.simps Local_DownloadBackup_def
    by (intro keeps) simp_all
  have "\<not> prefix (resolve RestoreDir) d" unfolding Download_Restore by (rule away)
  moreover have "\<not> prefix (resolve (download_path v)) d" unfolding p by (rule away)
  moreover have "keeps (orderly d) (upd f :: (('x, 'm) i_world_scheme, unit) go)"
    if "\<And>w. w_fs (f w) = w_fs w" "\<And>w. w_fault (f w) = w_fault w" for f
    by (rule keeps_upd) (simp add: orderly_def quiet_def that)
  ultimately show ?thesis using fetch unfolding undisturbed_def set_status_def set_message_def
    by (auto simp del: resolve_dirs intro!: keeps)
qed

section \<open>From the data directory and back\<close>

text \<open>The content of a directory: its nodes without their times, and the same without one entry.\<close>

definition tree :: "fs \<Rightarrow> fpath \<Rightarrow> fpath \<Rightarrow> byte list option option" where
  "tree f p = (\<lambda>q. shape (fs_get f (p @ q)))"

definition without :: "string \<Rightarrow> (fpath \<Rightarrow> byte list option option) \<Rightarrow> fpath \<Rightarrow> byte list option option" where
  "without m h = (\<lambda>q. if prefix [m] q then None else h q)"

text \<open>What the archiver promises on the way back: the archive of a backup directory with the content \<open>h\<close> is
  unpacked to a restore directory with that content, and nothing else changes.\<close>

definition unpacks ::
  "('x, 'm) i_world_scheme archiver \<Rightarrow> (fs \<Rightarrow> byte list) \<Rightarrow> (fpath \<Rightarrow> byte list option option) \<Rightarrow> bool" where
  "unpacks ar pack h \<longleftrightarrow> (\<forall>p. same w_fault (archiver_Unarchive ar p DownloadDir)) \<and>
     (\<forall>f p w. archive_file p \<longrightarrow> tree f (resolve BackupDir) = h \<longrightarrow> parents_ok (w_fs w) (resolve p) \<longrightarrow> file_at (w_fs w) (resolve p) = Some (pack f) \<longrightarrow>
        restore_empty (w_fs w) \<longrightarrow> tidy (w_fs w) \<longrightarrow>
        meets (archiver_Unarchive ar p DownloadDir) (\<lambda>_ w'. tree (w_fs w') (resolve RestoreDir) = h \<and> tidy (w_fs w') \<and>
          (\<forall>q. \<not> prefix (resolve RestoreDir) q \<longrightarrow> fs_get (w_fs w') q = fs_get (w_fs w) q)) w)"

lemma tree_archived:
  assumes "\<forall>q. fs_get f q = (if prefix (resolve BackupDir @ [m]) q then None else fs_get g q)"
  shows "tree f (resolve BackupDir) = without m (tree g (resolve BackupDir))"
  using assms by (auto simp: tree_def without_def simp del: resolve_dirs)

lemma orderly_back:
  fixes w :: "('x, 'm) i_world_scheme"
  assumes "unpacks ar pack h" "orderly d w" "\<not> prefix (resolve RestoreDir) d"
    and "archive_file p" "tree f (resolve BackupDir) = h" "parents_ok (w_fs w) (resolve p)" "file_at (w_fs w) (resolve p) = Some (pack f)" "restore_empty (w_fs w)"
  shows "meets (archiver_Unarchive ar p DownloadDir) (\<lambda>_ w'. orderly d w' \<and> tree (w_fs w') (resolve RestoreDir) = h) w"
proof -
  have "meets (archiver_Unarchive ar p DownloadDir) (\<lambda>_ w'. (tree (w_fs w') (resolve RestoreDir) = h \<and> tidy (w_fs w') \<and>
      (\<forall>q. \<not> prefix (resolve RestoreDir) q \<longrightarrow> fs_get (w_fs w') q = fs_get (w_fs w) q)) \<and> w_fault w' = w_fault w) w"
    using assms(1,2,4-) unfolding unpacks_def orderly_def by (intro meets_frame) blast+
  then show ?thesis
    by (rule meets_mono) (use assms(2,3) in \<open>auto simp: orderly_def quiet_def simp del: resolve_dirs\<close>)
qed

lemma meets_Recover_tree:
  fixes w :: "('x, 'm) i_world_scheme"
  assumes "rooted datadir" "resolve datadir \<parallel> resolve RestoreDir" "orderly (resolve datadir) w"
    and "tree (w_fs w) (resolve RestoreDir) = h" "h [] = Some None"
  shows "meets (LocalFS_Recover datadir) (\<lambda>_ w'. tree (w_fs w') (resolve datadir) = h) w"
proof -
  have "is_dir (fs_get (w_fs w) (resolve RestoreDir))"
    using fun_cong [OF assms(4), of "[]"] assms(5) by (simp add: tree_def flip: shape_is_dir)
  then obtain w' where "LocalFS_Recover datadir w = (Inr (), w')"
    "copied (fs_get (w_fs w)) (resolve RestoreDir) (resolve datadir) (w_fs w) (w_fs w')"
    using LocalFS_Recover_copies [OF assms(1,2)] assms(3) unfolding orderly_def by blast
  then show ?thesis using assms(4) by (auto simp: meets_def wp_def tree_def copied_def)
qed

lemma same_LocalFS_Backup:
  "same w_fault (LocalFS_Backup d)" "same lp_nextBackupCount (LocalFS_Backup d :: (('x, 'm) lp_world_scheme, unit) go)"
proof -
  have s: "same surroundings (LocalFS_Backup d)" unfolding LocalFS_Backup_def by (intro keeps)
  then show "same w_fault (LocalFS_Backup d)" by (rule same_fault)
  have "same surroundings (LocalFS_Backup d :: (('x, 'm) lp_world_scheme, unit) go)" unfolding LocalFS_Backup_def by (intro keeps)
  then show "same lp_nextBackupCount (LocalFS_Backup d :: (('x, 'm) lp_world_scheme, unit) go)"
    by (rule same_comp) (use surroundings_lp in blast)
qed

text \<open>The dump of the localfs database, in the directories in which backup \<open>i\<close> is made.\<close>

lemma localfs_dump:
  assumes "resolve datadir \<parallel> resolve BackupDir" "quiet w" "tidy (w_fs w)"
    and "is_dir (fs_get (w_fs w) (resolve datadir))" "parents_ok (w_fs w) (resolve BackupDir)"
    and "parents_ok (w_fs w) (slot c i)" "\<not> is_dir (fs_get (w_fs w) (slot c i))" "\<not> prefix (resolve BackupDir) (slot c i)"
  shows "meets (LocalFS_Backup datadir) (\<lambda>_ u. site c i (w_fs u) \<and> tree (w_fs u) (resolve BackupDir) = tree (w_fs w) (resolve datadir)) w"
proof -
  let ?B = "resolve BackupDir"
  obtain w' where run: "LocalFS_Backup datadir w = (Inr (), w')"
    and c: "copied (fs_get (w_fs w)) (resolve datadir) ?B (w_fs w) (w_fs w')"
    using LocalFS_Backup_copies [OF assms(1-5)] by blast
  have t: "tree (w_fs w') ?B = tree (w_fs w) (resolve datadir)" using c by (simp add: copied_def tree_def)
  have old: "fs_get (w_fs w') q = fs_get (w_fs w) q" if "\<not> prefix ?B q" for q using c that by (simp add: copied_def)
  have "is_dir (fs_get (w_fs w') ?B)" using fun_cong [OF t, of "[]"] assms(4) by (simp add: tree_def flip: shape_is_dir)
  moreover have "parents_ok (w_fs w') ?B"
    by (rule parents_ok_cong [OF assms(5)], rule old) (auto dest: prefix_order.leD)
  moreover have "parents_ok (w_fs w') (slot c i)"
    by (rule parents_ok_cong [OF assms(6)], rule old) (use assms(8) in \<open>meson prefix_order.less_imp_le prefix_order.trans\<close>)
  ultimately have "site c i (w_fs w')" using assms(7,8) old [of "slot c i"] by (simp add: site_def)
  then show ?thesis using run t by (simp add: meets_def wp_def)
qed

text \<open>The restore of a backup whose dump has the content \<open>t\<close>.\<close>

lemma meets_Restore_tree:
  fixes w :: "('x, 'm) i_world_scheme"
  assumes "Compressor_New meth = Inr cmp" "good_key eo" "unpacks ar pack (without (archive_name cmp i) t)" "t [] = Some None"
    and "rooted datadir" "resolve datadir \<parallel> resolve DownloadDir"
    and "rooted (lc_LocalBackupPath c)" "lc_Suffix c = Compressor_Extension cmp @ (case eo of None \<Rightarrow> '''' | Some _ \<Rightarrow> enc_suffix)"
    and "\<not> prefix (resolve DownloadDir) (slot c i)"
    and "in_db n = localfs datadir" "in_bp n = local_provider c sws" "in_encrypter n = eo" "bv_name v = FormatInt (int i) @ lc_Suffix c"
    and "tree g (resolve BackupDir) = t" "backup_of aes cmp eo pack i g x" "file_at f (slot c i) = Some x"
    and "later c cmp eo i f (w_fs w)" "orderly (resolve datadir) w"
  shows "meets (Restore ar aes n v) (\<lambda>_ w2. tree (w_fs w2) (resolve datadir) = without (archive_name cmp i) t) w"
proof -
  let ?d = "resolve datadir" and ?h = "without (archive_name cmp i) t"
  have ext: "slash \<notin> set (Compressor_Extension cmp)" by (rule no_slash_ext [OF assms(1)])
  have fit: "names_fit eo (bv_name v) (archive_name cmp i)" unfolding assms(13,8) by (rule names_fit_archive [OF ext])
  have away: "?d \<parallel> resolve RestoreDir" unfolding Download_Restore using assms(6) parallelI by (meson append_prefixD parallelE prefix_order.trans prefix_same_cases prefixI)
  obtain h where h: "tree h (resolve BackupDir) = ?h" "decoded aes eo x = pack h"
    using assms(15) tree_archived unfolding backup_of_def assms(14) [symmetric] by metis
  show ?thesis
  proof (rule meets_Restore [where i = n and m = "archive_name cmp i" and x = x and old = None and J = "orderly ?d" and
      U = "\<lambda>w. orderly ?d w \<and> tree (w_fs w) (resolve RestoreDir) = ?h", unfolded assms(10,12) handed_new, OF assms(11,7) fit assms(2)])
    show "\<not> is_dir None" by simp
    show "eo \<noteq> None \<longrightarrow> aes_BlockSize \<le> length x" using assms(15) unfolding backup_of_def by blast
    have s: "resolve (lc_LocalBackupPath c) @ [bv_name v] = slot c i" unfolding slot_def assms(13) by simp
    show "fetch_base (resolve (lc_LocalBackupPath c) @ [bv_name v]) (awaited eo (archive_name cmp i) None) x (w_fs w)"
      unfolding s fetch_base_def using assms(9,16,17) unfolding later_def awaited_def by (auto simp del: resolve_dirs split: option.splits)
    show "undisturbed (orderly ?d) aes n v" by (rule undisturbed_orderly [OF assms(11) names_fit_plain [OF fit] assms(6)])
    show "orderly ?d w" by (rule assms(18))
    show "meets (archiver_Unarchive ar p DownloadDir) (\<lambda>_ w2. orderly ?d w2 \<and> tree (w_fs w2) (resolve RestoreDir) = ?h) u"
      if "orderly ?d u" "suffix (archive_name cmp i) p" "parents_ok (w_fs u) (resolve p)" "file_at (w_fs u) (resolve p) = Some (decoded aes eo x)" "restore_empty (w_fs u)"
      for p and u :: "('x, 'm) i_world_scheme"
      by (rule orderly_back [OF assms(3) that(1) _ archive_fileI [OF assms(1) that(2)] h(1) that(3)]) (use that(4,5) h(2) away in \<open>auto simp del: resolve_dirs\<close>)
    show "same w_fault (archiver_Unarchive ar p DownloadDir)" for p using assms(3) unfolding unpacks_def by blast
    show "keeps (\<lambda>w. orderly ?d w \<and> tree (w_fs w) (resolve RestoreDir) = ?h) (set_message s)" for s
      unfolding set_message_def by (rule keeps_upd) (simp add: orderly_def quiet_def)
    show "meets (db_Recover (localfs datadir)) (\<lambda>_ w3. tree (w_fs w3) ?d = ?h) u"
      if "orderly ?d u \<and> tree (w_fs u) (resolve RestoreDir) = ?h" for u :: "('x, 'm) i_world_scheme"
      using meets_Recover_tree [OF assms(5) away _ _ , of u ?h] that assms(4) by (simp add: localfs_def without_def)
  qed
qed

text \<open>C2: where no call fails, a backup of the localfs database ends without an error, and at any later time at
  which its stored file is still there a restore of it, encrypted or not, makes the data directory what it was
  at the backup: every file with its bytes and every directory, and nothing besides.  One thing is lost on
  the way: an entry at the top of the data directory with the name of the archive, which the backup deletes
  from the upload directory before it packs it.\<close>

theorem localfs_end_to_end:
  fixes w :: "('x, 'm) i_world_scheme"
  assumes "b = Backuper_New schedule (localfs datadir) (local_provider c sws) cmp eo"
    and "Compressor_New meth = Inr cmp" and "good_key eo" and "archives ar pack"
    and "unpacks ar pack (without (archive_name cmp i) (tree (w_fs w) (resolve datadir)))"
    and "rooted datadir" "resolve datadir \<parallel> resolve BackupDir" "resolve datadir \<parallel> resolve DownloadDir"
    and "local_ready c" "i < keep_of c" "rooted (lc_LocalBackupPath c)"
    and "lc_Suffix c = Compressor_Extension cmp @ (case eo of None \<Rightarrow> '''' | Some _ \<Rightarrow> enc_suffix)"
    and "parents_ok (w_fs w) (slot c i)" "\<not> is_dir (fs_get (w_fs w) (slot c i))"
    and "\<not> prefix (resolve BackupDir) (slot c i)" "\<not> prefix (resolve DownloadDir) (slot c i)"
    and "lp_nextBackupCount w = of_nat i" "\<not> b_sem_taken w"
    and "quiet w" "tidy (w_fs w)" "is_dir (fs_get (w_fs w) (resolve datadir))" "parents_ok (w_fs w) (resolve BackupDir)"
    and "fs_get (w_fs w) (resolve datadir @ [archive_name cmp i @ enc_suffix]) = None"
    and "in_db n = localfs datadir" "in_bp n = local_provider c sws" "in_encrypter n = eo"
    and "bv_name v = FormatInt (int i) @ lc_Suffix c"
  shows "\<exists>w'. CreateBackup ar aes b w = (Inr (), w') \<and>
    (\<forall>w1. quiet w1 \<longrightarrow> tidy (w_fs w1) \<longrightarrow> is_dir (fs_get (w_fs w1) (resolve datadir)) \<longrightarrow> later c cmp eo i (w_fs w') (w_fs w1) \<longrightarrow>
       (\<exists>w2. Restore ar aes n v w1 = (Inr (), w2) \<and>
          tree (w_fs w2) (resolve datadir) = without (archive_name cmp i) (tree (w_fs w) (resolve datadir))))"
proof -
  let ?d = "resolve datadir" and ?a = "archive_name cmp i"
  let ?t = "tree (w_fs w) ?d"
  let ?h = "without ?a ?t"
  have ext: "slash \<notin> set (Compressor_Extension cmp)" by (rule no_slash_ext [OF assms(2)])
  have bsel: "bk_comp b = cmp" "bk_encrypter b = eo" "bk_db b = localfs datadir" "bk_bp b = local_provider c sws"
    by (simp_all add: assms(1) Backuper_New_def)
  define dump where "dump = (\<lambda>g. site c i g \<and> fs_get g (resolve BackupDir @ [?a @ enc_suffix]) = None \<and> tree g (resolve BackupDir) = ?t)"
  have D: "meets (LocalFS_Backup datadir) (\<lambda>_ u. dump (w_fs u)) (w\<lparr>b_sem_taken := True\<rparr>)"
  proof (rule meets_mono [OF localfs_dump [where c = c and i = i]])
    fix u and w1 :: "('x, 'm) i_world_scheme"
    assume d: "site c i (w_fs w1) \<and> tree (w_fs w1) (resolve BackupDir) = tree (w_fs (w\<lparr>b_sem_taken := True\<rparr>)) ?d"
    then have "fs_get (w_fs w1) (resolve BackupDir @ [?a @ enc_suffix]) = None"
      using fun_cong [of _ _ "[?a @ enc_suffix]"] assms(23) by (fastforce simp: tree_def simp del: resolve_dirs)
    then show "dump (w_fs w1)" using d by (simp add: dump_def)
  qed (use assms in \<open>simp_all add: quiet_def\<close>)
  have C: "meets (CreateBackup ar aes b) (\<lambda>_ w'. \<exists>g x. dump g \<and> backup_of aes cmp eo pack i g x \<and>
      file_at (w_fs w') (slot c i) = Some x) w"
    by (rule meets_CreateBackup [where b = b and w = w and dump = dump, unfolded bsel])
      (use D assms in \<open>simp_all add: dump_def localfs_def same_LocalFS_Backup\<close>)
  have R: "meets (Restore ar aes n v) (\<lambda>_ w2. tree (w_fs w2) ?d = ?h) w1"
    if "dump g" "backup_of aes cmp eo pack i g x" "later c cmp eo i f (w_fs w1)" "file_at f (slot c i) = Some x" "orderly ?d w1"
    for g x f and w1 :: "('x, 'm) i_world_scheme"
  proof (rule meets_Restore_tree)
    show "?t [] = Some None" using assms(21) by (simp add: tree_def shape_is_dir)
    show "tree g (resolve BackupDir) = ?t" using that(1) by (simp add: dump_def)
  qed (rule that(2-5) assms)+
  from meets_quiet [OF C assms(19)] obtain w' g x where made: "CreateBackup ar aes b w = (Inr (), w')"
    "dump g" "backup_of aes cmp eo pack i g x" "file_at (w_fs w') (slot c i) = Some x" by auto
  have "\<exists>w2. Restore ar aes n v w1 = (Inr (), w2) \<and> tree (w_fs w2) ?d = ?h"
    if "quiet w1" "tidy (w_fs w1)" "is_dir (fs_get (w_fs w1) ?d)" "later c cmp eo i (w_fs w') (w_fs w1)" for w1
    using meets_quiet [OF R [OF made(2,3) that(4) made(4)] that(1)] that by (auto simp: orderly_def)
  with made(1) show ?thesis by blast
qed

text \<open>A data directory with a file, and with one that has the name of the archive.\<close>

definition data_disk :: fs where
  "data_disk = ([''data''], Dir 0) # ([''data'', ''dump''], File [1, 2, 3] 0) # ([''data'', ''0.tar''], File [4] 0) # upload_disk"

definition data_tree :: "fpath \<Rightarrow> byte list option option" where
  "data_tree q = (if q = [] then Some None else if q = [''dump''] then Some (Some [1, 2, 3]) else if q = [''0.tar''] then Some (Some [4]) else None)"

lemma data_disk_facts:
  "tree data_disk [''data''] = data_tree" "tidy data_disk" "is_dir (fs_get data_disk [''data''])" "parents_ok data_disk (resolve BackupDir)"
  "parents_ok data_disk (slot a_crypt_local 0)" "\<not> is_dir (fs_get data_disk (slot a_crypt_local 0))"
  "fs_get data_disk ([''data''] @ [archive_name a_tar_comp 0 @ enc_suffix]) = None"
proof -
  show "tree data_disk [''data''] = data_tree"
    by (rule ext) (auto simp: tree_def data_tree_def data_disk_def upload_disk_def fs_get_def)
  show "tidy data_disk" by (rule tidyI) code_simp
qed (simp_all add: a_tar_names enc_suffix_def data_disk_def upload_disk_def fs_get_def parents_ok_def)

lemma a_tar_unpacks: "unpacks (a_tar :: ('x, 'm) i_world_scheme archiver) dump_bytes (without ''0.tar'' data_tree)"
  unfolding unpacks_def
proof (intro conjI allI impI same_fault_a_tar)
  fix f p and w :: "('x, 'm) i_world_scheme"
  let ?R = "resolve RestoreDir"
  assume f: "tree f (resolve BackupDir) = without ''0.tar'' data_tree" and at: "file_at (w_fs w) (resolve p) = Some (dump_bytes f)"
    and e: "restore_empty (w_fs w)" and t: "tidy (w_fs w)"
  have "shape (fs_get f dump_file) = Some (Some [1, 2, 3])"
    using fun_cong [OF f, of "[''dump'']"] by (simp add: tree_def without_def data_tree_def dump_file_def)
  then have b: "dump_bytes f = [1, 2, 3]"
    by (cases "fs_get f dump_file" rule: shape.cases) (auto simp: dump_bytes_def file_at_def)
  let ?g = "fs_put unpacked_file (File [1, 2, 3] 0) (w_fs w)"
  have u: "unpacked_file = ?R @ [''dump'']" by (simp add: unpacked_file_def)
  have new: "fs_get (w_fs w) unpacked_file = None" using e unfolding restore_empty_def u by simp
  have "parents_ok (w_fs w) ?R" using e t by (auto simp: restore_empty_def tidy_def is_dir_iff)
  then have "tidy ?g" using t e new by (intro tidy_put) (auto simp: u plain_name_def parents_ok_snoc restore_empty_def resolve_plain simp del: resolve_dirs)
  moreover have "tree ?g ?R = without ''0.tar'' data_tree"
  proof
    fix q show "tree ?g ?R q = without ''0.tar'' data_tree q"
      using e shape_dir [of "fs_get (w_fs w) ?R"] unfolding tree_def without_def data_tree_def u restore_empty_def
      by (cases q) (auto simp: fs_get_put simp del: resolve_dirs)
  qed
  moreover have "fs_get ?g q = fs_get (w_fs w) q" if "\<not> prefix ?R q" for q
    using that unfolding u by (intro fs_get_put_other) auto
  ultimately show "meets (archiver_Unarchive a_tar p DownloadDir) (\<lambda>_ w'. tree (w_fs w') ?R = without ''0.tar'' data_tree \<and>
      tidy (w_fs w') \<and> (\<forall>q. \<not> prefix ?R q \<longrightarrow> fs_get (w_fs w') q = fs_get (w_fs w) q)) w"
    using at by (auto simp: a_tar_def b meets_def wp_bnd wp_asks put_file_def wp_upd u simp del: resolve_dirs)
qed

theorem localfs_end_to_end_witness:
  "\<exists>w' w1 w2. CreateBackup a_tar (\<lambda>k b. b) (a_crypt_backuper\<lparr>bk_db := localfs ''/data''\<rparr>) (an_init_world data_disk) = (Inr (), w') \<and>
     later a_crypt_local a_tar_comp (Some a_key) 0 (w_fs w') (w_fs w1) \<and> fs_get (w_fs w1) [''data'', ''dump''] = None \<and>
     Restore a_tar (\<lambda>k b. b) (a_crypt_initializer\<lparr>in_db := localfs ''/data''\<rparr>) \<lparr>bv_name = ''0.tar.aes'', bv_version = ''0'', bv_date = 0\<rparr> w1
       = (Inr (), w2) \<and>
     file_at (w_fs w2) [''data'', ''dump''] = Some [1, 2, 3] \<and> fs_get (w_fs w2) [''data'', ''0.tar''] = None"
proof -
  let ?w = "an_init_world data_disk" and ?v = "\<lparr>bv_name = ''0.tar.aes'', bv_version = ''0'', bv_date = 0\<rparr>"
  let ?b = "a_crypt_backuper\<lparr>bk_db := localfs ''/data''\<rparr>" and ?n = "a_crypt_initializer\<lparr>in_db := localfs ''/data''\<rparr>"
  have d: "resolve ''/data'' = [''data'']" "rooted ''/data''" by (simp_all add: resolve_def rooted_def)
  have 1: "?b = Backuper_New '''' (localfs ''/data'') (local_provider a_crypt_local (\<lambda>_. [])) a_tar_comp (Some a_key)"
    by (simp add: a_crypt_backuper_def Backuper_New_def)
  have 2: "Compressor_New ''tar'' = Inr a_tar_comp" by (simp add: Compressor_New_def a_tar_comp_def)
  have 3: "good_key (Some a_key)" by (simp add: good_key_def a_key_length)
  have fs: "w_fs (an_init_world f) = f" "quiet (an_init_world f)" for f
    by (simp_all add: quiet_def an_init_world_def b_world.defs m_world.defs lp_world.defs world.defs calm_def)
  have 4: "unpacks (a_tar :: unit i_world archiver) dump_bytes (without (archive_name a_tar_comp 0) (tree (w_fs ?w) (resolve ''/data'')))"
    unfolding fs d a_tar_names data_disk_facts(1) by (rule a_tar_unpacks)
  have 5: "resolve ''/data'' \<parallel> resolve BackupDir" "resolve ''/data'' \<parallel> resolve DownloadDir"
    by (simp_all add: d parallel_def)
  have 6: "local_ready a_crypt_local" "0 < keep_of a_crypt_local" "rooted (lc_LocalBackupPath a_crypt_local)"
    "lc_Suffix a_crypt_local = Compressor_Extension a_tar_comp @ (case Some a_key of None \<Rightarrow> '''' | Some _ \<Rightarrow> enc_suffix)"
    by code_simp+
  have 7: "\<not> prefix (resolve BackupDir) (slot a_crypt_local 0)" "\<not> prefix (resolve DownloadDir) (slot a_crypt_local 0)"
    by (simp_all add: a_tar_names)
  have 8: "lp_nextBackupCount ?w = of_nat 0" "\<not> b_sem_taken ?w"
    by (simp_all add: an_init_world_def b_world.defs m_world.defs lp_world.defs world.defs)
  have 9: "in_db ?n = localfs ''/data''" "in_bp ?n = local_provider a_crypt_local (\<lambda>_. [])"
    "in_encrypter ?n = Some a_key" "bv_name ?v = FormatInt (int 0) @ lc_Suffix a_crypt_local"
    by (simp_all add: a_crypt_initializer_def) code_simp
  note F = data_disk_facts(2-7) [folded d(1)]
  note T = localfs_end_to_end [where w = ?w, OF 1 2 3 a_tar_archives 4 d(2) 5 6, unfolded fs, OF F(4,5) 7 8 fs(2) F(1,2,3,6) 9, of "\<lambda>k b. b"]
  from T obtain w' where made: "CreateBackup a_tar (\<lambda>k b. b) ?b ?w = (Inr (), w')" and
    again: "\<And>w1. quiet w1 \<Longrightarrow> tidy (w_fs w1) \<Longrightarrow> is_dir (fs_get (w_fs w1) (resolve ''/data'')) \<Longrightarrow>
      later a_crypt_local a_tar_comp (Some a_key) 0 (w_fs w') (w_fs w1) \<Longrightarrow>
      \<exists>w2. Restore a_tar (\<lambda>k b. b) ?n ?v w1 = (Inr (), w2) \<and>
        tree (w_fs w2) (resolve ''/data'') = without (archive_name a_tar_comp 0) (tree data_disk (resolve ''/data''))" by blast
  let ?f = "[([''backup''], Dir 0), ([''backup'', ''restore''], Dir 0), ([''b''], Dir 0), ([''data''], Dir 0)] @
    (case file_at (w_fs w') (slot a_crypt_local 0) of None \<Rightarrow> [] | Some x \<Rightarrow> [([''b'', ''0.tar.aes''], File x 0)])"
  have l: "later a_crypt_local a_tar_comp (Some a_key) 0 (w_fs w') ?f"
    by (simp add: later_def a_tar_names parents_ok_def fs_get_def file_at_def split: option.split)
  have tf: "tidy ?f" by (rule tidyI) (simp add: fs_get_def plain_name_def split: option.split)
  have df: "is_dir (fs_get ?f [''data''])" "fs_get ?f [''data'', ''dump''] = None" by (simp_all add: fs_get_def split: option.split)
  from again [of "an_init_world ?f", unfolded fs d, OF _ tf df(1) l] fs(2) obtain w2 where
    r: "Restore a_tar (\<lambda>k b. b) ?n ?v (an_init_world ?f) = (Inr (), w2)" and
    t: "tree (w_fs w2) [''data''] = without ''0.tar'' data_tree" unfolding a_tar_names data_disk_facts(1) by blast
  have s: "shape (fs_get (w_fs w2) [''data'', ''dump'']) = Some (Some [1, 2, 3])" "fs_get (w_fs w2) [''data'', ''0.tar''] = None"
    using fun_cong [OF t, of "[''dump'']"] fun_cong [OF t, of "[''0.tar'']"] by (simp_all add: tree_def without_def data_tree_def)
  have "file_at (w_fs w2) [''data'', ''dump''] = Some [1, 2, 3]"
    using s(1) by (cases "fs_get (w_fs w2) [''data'', ''dump'']" rule: shape.cases) (auto simp: file_at_def)
  then show ?thesis
    by (intro exI [of _ w'] exI [of _ "an_init_world ?f"] exI [of _ w2] conjI) (simp_all only: made r s df l fs)
qed

end
