(* ===== verification/Services.thy ===== *)
theory Services
  imports Initializer
begin

text \<open>
  \<open>cmd/internal/initializer/service.go\<close>: the three services that clients call.  A call of the
  protocol is the function of the service on the fields of the request.
\<close>

section \<open>The services\<close>

record backup_info =
  bi_Name :: string
  bi_Version :: string
  bi_Timestamp :: int

text \<open>\<open>status.Error(code, err.Error())\<close>.\<close>

definition rpcE :: "rpc_code \<Rightarrow> ('w, 'a) go \<Rightarrow> ('w, 'a) go" where
  "rpcE c m = map_err (ErrRPC c) m"

text \<open>The interceptor of the server turns a panic of a handler into an error of the call.\<close>

definition grpc_recovery :: "('w, 'a) go \<Rightarrow> ('w, 'a) go" where
  "grpc_recovery m = (\<lambda>w. case m w of
     (Inl (Panic s), w') \<Rightarrow> (Inl (ErrRPC Internal (ErrText s)), w')
   | (r, w') \<Rightarrow> (r, w'))"

definition service_Status :: "(('x, 'm) i_world_scheme, sidecar_status \<times> string) go" where
  "service_Status = asks (\<lambda>w. (i_status w, i_message w))"

definition backup_info_of :: "version \<Rightarrow> backup_info" where
  "backup_info_of b = \<lparr>bi_Name = bv_name b, bi_Version = bv_version b, bi_Timestamp = bv_date b\<rparr>"

definition service_ListBackups :: "'w provider \<Rightarrow> ties \<Rightarrow> ('w, backup_info list) go" where
  "service_ListBackups bp sws =
     bnd (rpcE Internal (bp_ListBackups bp)) (\<lambda>versions.
     bnd (liftR (bvs_List versions)) (\<lambda>backups.
     ret (map backup_info_of (Sort sws backups))))"

definition service_RestoreBackup :: "'w provider \<Rightarrow> (version \<Rightarrow> ('w, unit) go) \<Rightarrow> string \<Rightarrow> ('w, unit) go" where
  "service_RestoreBackup bp restoreFn req =
     (if req = '''' then fail (ErrRPC InvalidArgument (ErrText ''version to restore must be defined explicitly''))
      else
      bnd (rpcE Internal (bp_ListBackups bp)) (\<lambda>versions.
      bnd (rpcE Internal (liftR (bvs_Get versions req))) (\<lambda>version.
      rpcE Internal (wrapE ''error restoring backup'' (restoreFn version)))))"

definition service_GetBackupByVersion :: "'w provider \<Rightarrow> string \<Rightarrow> ('w, backup_info) go" where
  "service_GetBackupByVersion bp req =
     (if req = '''' then fail (ErrRPC InvalidArgument (ErrText ''version to get must be defined explicitly''))
      else
      bnd (rpcE Internal (bp_ListBackups bp)) (\<lambda>versions.
      bnd (rpcE Internal (liftR (bvs_Get versions req))) (\<lambda>version.
      ret (backup_info_of version))))"

definition service_CreateBackup :: "('w, unit) go \<Rightarrow> ('w, unit) go" where
  "service_CreateBackup backupFn = rpcE Internal (wrapE ''error creating backup'' backupFn)"

section \<open>The server\<close>

text \<open>The state of the services, and what \<open>Start\<close> registers with the server.\<close>

record 'w backup_service =
  svc_bp :: "'w provider"
  svc_restoreFn :: "version \<Rightarrow> ('w, unit) go"

record 'w database_service =
  svc_backupFn :: "('w, unit) go"

definition newBackupProviderService :: "'w provider \<Rightarrow> (version \<Rightarrow> ('w, unit) go) \<Rightarrow> 'w backup_service" where
  "newBackupProviderService bp restoreFn = \<lparr>svc_bp = bp, svc_restoreFn = restoreFn\<rparr>"

definition newDatabaseService :: "('w, unit) go \<Rightarrow> 'w database_service" where
  "newDatabaseService backupFn = \<lparr>svc_backupFn = backupFn\<rparr>"

record 'w rpc =
  rpc_Status :: "('w, sidecar_status \<times> string) go"
  rpc_ListBackups :: "('w, backup_info list) go"
  rpc_RestoreBackup :: "string \<Rightarrow> ('w, unit) go"
  rpc_GetBackupByVersion :: "string \<Rightarrow> ('w, backup_info) go"
  rpc_CreateBackup :: "('w, unit) go"

definition registered ::
  "('x, 'm) i_world_scheme archiver \<Rightarrow> (byte list \<Rightarrow> block_fn) \<Rightarrow> ties \<Rightarrow> ('x, 'm) i_world_scheme initializer \<Rightarrow>
   ('x, 'm) i_world_scheme backuper \<Rightarrow> ('x, 'm) i_world_scheme rpc" where
  "registered ar aes sws i backuper =
     (let backupService = newBackupProviderService (in_bp i) (Restore ar aes i);
          databaseService = newDatabaseService (CreateBackup ar aes backuper)
      in \<lparr>rpc_Status = grpc_recovery service_Status,
          rpc_ListBackups = grpc_recovery (service_ListBackups (svc_bp backupService) sws),
          rpc_RestoreBackup = (\<lambda>req. grpc_recovery (service_RestoreBackup (svc_bp backupService) (svc_restoreFn backupService) req)),
          rpc_GetBackupByVersion = (\<lambda>req. grpc_recovery (service_GetBackupByVersion (svc_bp backupService) req)),
          rpc_CreateBackup = grpc_recovery (service_CreateBackup (svc_backupFn databaseService))\<rparr>)"

lemma grpc_recovery_Inr: "grpc_recovery m w = (Inr x, w') \<Longrightarrow> m w = (Inr x, w')"
  by (auto simp: grpc_recovery_def split: prod.splits sum.splits err.splits)

section \<open>A restore on request\<close>

text \<open>C39: a restore that a client asks for, successful or not, leaves the status at \<open>RESTORING\<close> (once
  it has begun: the version was found), and nothing sets it back to \<open>DONE\<close>: whoever waits for the
  initializer from then on waits for ever.\<close>

theorem RestoreBackup_keeps_waiting:
  fixes w :: "('x, 'm) i_world_scheme"
  assumes "leaves_status net_Listen ar i"
    and "bp_ListBackups (in_bp i) w = (Inr vs, w1)" "bvs_Get vs req = Inr v" "req \<noteq> ''''"
  shows "let w' = snd (service_RestoreBackup (in_bp i) (Restore ar aes i) req w) in
     i_status w' = RESTORING \<and> wait_loop (replicate n Timer) service_Status w' = (Inl Diverges, w')"
proof -
  have "snd (rpcE c m w2) = snd (m w2)" "snd (wrapE s m w2) = snd (m w2)"
    for c s and m :: "(('x, 'm) i_world_scheme, unit) go" and w2
    by (auto simp: rpcE_def map_err_run wrapE_run split: prod.splits sum.splits)
  then have "snd (service_RestoreBackup (in_bp i) (Restore ar aes i) req w) = snd (Restore ar aes i v w1)"
    using assms(2-4) by (simp add: service_RestoreBackup_def rpcE_def bnd_run map_err_run ret_run)
  then have st: "i_status (snd (service_RestoreBackup (in_bp i) (Restore ar aes i) req w)) = RESTORING"
    using Restore_status [OF assms(1)] by simp
  have "wait_loop (replicate n Timer) service_Status v = (Inl Diverges, v)" if "i_status v = RESTORING" for v :: "('x, 'm) i_world_scheme"
    using that by (induction n) (simp_all add: fail_run bnd_run attempt_run service_Status_def asks_run)
  then show ?thesis using st by (simp add: Let_def)
qed

theorem RestoreBackup_keeps_waiting_witness:
  "\<exists>w'. i_status w' = RESTORING \<and> wait_loop (replicate 3 Timer) service_Status w' = (Inl Diverges, w') \<and>
     w' = snd (service_RestoreBackup (in_bp an_initializer) (Restore an_archiver (\<lambda>_ b. b) an_initializer) ''0'' (an_init_world lost_disk))"
proof -
  let ?l = "bp_ListBackups (in_bp an_initializer) (an_init_world lost_disk)"
  have "\<not> isl (fst ?l)" by code_simp
  then obtain vs w1 where l: "?l = (Inr vs, w1)" using ran_ok by fastforce
  have "case fst ?l of Inl _ \<Rightarrow> False | Inr vs \<Rightarrow> \<not> isl (bvs_Get vs ''0'')" by code_simp
  then obtain v where "bvs_Get vs ''0'' = Inr v" unfolding l by (cases "bvs_Get vs ''0''") auto
  from RestoreBackup_keeps_waiting [OF an_initializer_leaves l this, of "\<lambda>_ b. b" 3]
  show ?thesis by (simp add: Let_def)
qed

section \<open>Versions that stay\<close>

text \<open>The entries of a directory, and a listing that does not depend on the order they are read in or on
  the choices of the sort.\<close>

definition distinct_times :: "fs \<Rightarrow> fpath \<Rightarrow> bool" where
  "distinct_times f d \<longleftrightarrow> (\<forall>n\<in>set (fs_names f d). \<forall>m\<in>set (fs_names f d).
     map_option node_time (fs_get f (d @ [n])) = map_option node_time (fs_get f (d @ [m])) \<longrightarrow> n = m)"

lemma local_List_unique:
  assumes "mset files = mset files'" "inj_on snd (set files)"
  shows "local_List s files = local_List t files'"
proof -
  let ?mk = "\<lambda>(n :: string, d). \<lparr>bv_name = n, bv_version = [], bv_date = d\<rparr>"
  have "inj_on bv_date (set (map ?mk files))"
    using assms(2) by (fastforce simp: inj_on_def)
  moreover have "mset (map ?mk files) = mset (map ?mk files')" using assms(1) by simp
  ultimately have "Sort s (map ?mk files) = Sort t (map ?mk files')" by (rule Sort_unique [rotated])
  then show ?thesis by (simp add: local_List_def)
qed

lemma Local_ListBackups_unique:
  assumes "Local_ListBackups c s w = (Inr vs, w1)" "Local_ListBackups c t v = (Inr vs', v1)" "w_fs v = w_fs w"
    and "rooted (lc_LocalBackupPath c)" "tidy (w_fs w)" "distinct_times (w_fs w) (resolve (lc_LocalBackupPath c))"
  shows "bvs_List vs = bvs_List vs' \<and> bvs_Get vs = bvs_Get vs'"
proof -
  let ?d = "resolve (lc_LocalBackupPath c)"
  obtain fl fl' where f: "vs = backupVersionsLocal s fl" "distinct (map fst fl)"
      "set fl = {(n, node_time nd) | n nd. fs_get (w_fs w) (?d @ [n]) = Some nd}"
    and f': "vs' = backupVersionsLocal t fl'" "distinct (map fst fl')" "set fl' = set fl"
    using Local_ListBackups_InrD(2) [OF assms(1,4,5)] Local_ListBackups_InrD(2) [OF assms(2,4)] assms(3,5) by metis
  have "mset fl = mset fl'" using f(2) f'(2,3) by (metis distinct_map set_eq_iff_mset_eq_distinct)
  moreover have "inj_on snd (set fl)"
    using assms(6) unfolding f(3) distinct_times_def set_fs_names inj_on_def by fastforce
  ultimately have "local_List s fl = local_List t fl'" by (rule local_List_unique)
  then show ?thesis by (simp add: f(1) f'(1) backupVersionsLocal_def)
qed

lemma service_ListBackups_InrD:
  assumes "service_ListBackups (local_provider c s) t w = (Inr infos, w')"
  shows "\<exists>vs. Local_ListBackups c s w = (Inr vs, w') \<and> (\<exists>bs. bvs_List vs = Inr bs \<and> set infos = backup_info_of ` set bs)"
  using assms
  by (auto simp: service_ListBackups_def rpcE_def local_provider_def bnd_eq_Inr map_err_eq_Inr liftR_eq_Inr ret_def)

text \<open>C23: a backup that the list shows is found under its version afterwards, also by another call
  that reads the directory in another order: \<open>GetBackupByVersion\<close> answers with the very entry of the
  list, and \<open>RestoreBackup\<close> restores the version with its name and date. The directory must be the
  same still, and no two of its files of the same time (the version is a place in the order of
  times).\<close>

theorem listed_version_found:
  fixes w :: "('x, 'm) lp_world_scheme"
  assumes "service_ListBackups (local_provider c s1) s2 w = (Inr infos, w1)" "b \<in> set infos"
    and "Local_ListBackups c s3 v = (Inr vs, v1)" "w_fs v = w_fs w"
    and "rooted (lc_LocalBackupPath c)" "tidy (w_fs w)" "distinct_times (w_fs w) (resolve (lc_LocalBackupPath c))"
  shows "service_GetBackupByVersion (local_provider c s3) (bi_Version b) v = (Inr b, v1) \<and>
    (\<exists>x. backup_info_of x = b \<and> service_RestoreBackup (local_provider c s3) restoreFn (bi_Version b) v =
       rpcE Internal (wrapE ''error restoring backup'' (restoreFn x)) v1)"
proof -
  obtain us bs where us: "Local_ListBackups c s1 w = (Inr us, w1)" and bs: "bvs_List us = Inr bs" "set infos = backup_info_of ` set bs"
    using service_ListBackups_InrD [OF assms(1)] by blast
  obtain files where f: "us = backupVersionsLocal s1 files" using Local_ListBackups_InrD(2) [OF us assms(5,6)] by blast
  note U = Local_ListBackups_unique [OF us assms(3,4) assms(5-7)]
  obtain x where x: "x \<in> set bs" "b = backup_info_of x" using assms(2) bs(2) by blast
  have bs': "bs = local_List s1 files" using bs(1) by (simp add: f backupVersionsLocal_def)
  have "bvs_Get us (bv_version x) = Inr x"
    using local_versions.Get_finds [OF _ _ distinct_local_versions, of s1 files] x(1) bs(1) bs' by (simp add: f)
  then have get: "bvs_Get vs (bv_version x) = Inr x" using U by simp
  have "bv_version x \<noteq> ''''"
  proof -
    have "bv_version x \<in> set (map bv_version (local_List s1 files))" using x(1) bs' by simp
    then obtain k where "bv_version x = FormatInt (int k)" unfolding local_List_versions by auto
    then show ?thesis using nat_str_digits [of k] by (auto simp: FormatInt_def)
  qed
  moreover have "bi_Version b = bv_version x" by (simp add: x(2) backup_info_of_def)
  ultimately show ?thesis using assms(3) get x(2)
    by (auto simp: service_GetBackupByVersion_def service_RestoreBackup_def rpcE_def local_provider_def
        bnd_run map_err_run ret_run)
qed

theorem listed_version_found_witness:
  "\<exists>w1 v1 b. service_ListBackups (local_provider a_local (\<lambda>_. [])) (\<lambda>_. []) (an_init_world lost_disk) = (Inr [b], w1) \<and>
     service_GetBackupByVersion (local_provider a_local (\<lambda>_. [(0, 1)])) (bi_Version b) (an_init_world lost_disk) = (Inr b, v1)"
proof -
  let ?w = "an_init_world lost_disk"
  let ?l = "service_ListBackups (local_provider a_local (\<lambda>_. [])) (\<lambda>_. []) ?w"
  have one: "case fst ?l of Inl _ \<Rightarrow> False | Inr bs \<Rightarrow> length bs = 1" by code_simp
  then obtain b w1 where l: "?l = (Inr [b], w1)"
    by (cases ?l; cases "fst ?l") (auto simp: length_Suc_conv)
  have "\<not> isl (fst (Local_ListBackups a_local (\<lambda>_. [(0, 1)]) ?w))" by code_simp
  then obtain vs v1 where v: "Local_ListBackups a_local (\<lambda>_. [(0, 1)]) ?w = (Inr vs, v1)" using ran_ok by fastforce
  have dir: "rooted (lc_LocalBackupPath a_local)" "resolve (lc_LocalBackupPath a_local) = [''b'']"
    by (simp_all add: a_local_def rooted_def resolve_data)
  have tidy: "tidy (w_fs ?w)" unfolding an_init_world_simps by (rule tidyI) code_simp
  have names: "fs_names lost_disk [''b''] = [''0.tar'']" by code_simp
  have times: "distinct_times (w_fs ?w) (resolve (lc_LocalBackupPath a_local))"
    by (simp add: distinct_times_def dir names)
  show ?thesis
    using listed_version_found [OF l _ v refl dir(1) tidy times, of b] l by auto
qed

end
