(* ===== verification/ConcurrentRestores.thy ===== *)
theory ConcurrentRestores
  imports DataRoundTrip Services
begin

text \<open>
  Restores that run at the same time.  The server runs every call of \<open>RestoreBackup\<close> in a goroutine of its
  own, beside the restore of the start, and unlike \<open>CreateBackup\<close> a restore takes no semaphore.  Here the calls
  are interleaved at the stages of \<open>Restore\<close>, in the way in which \<open>Backup\<close> does it for backups.
\<close>

section \<open>The stages of a restore\<close>

datatype restore_call =
    RAsked version               \<comment> \<open>before the restore directory is removed\<close>
  | RMake version | RDelete version | ROpen version | RFetch version nat | RUnpack nat string | RRecover nat
  | RReturned "err + unit"

text \<open>After an error the call returns; the open file is closed on the way, by the deferred call.\<close>

definition proceeds ::
  "(('x, 'm) world_scheme \<Rightarrow> ('x, 'm) world_scheme) \<Rightarrow> (('x, 'm) world_scheme, 'a) go \<Rightarrow> ('a \<Rightarrow> restore_call) \<Rightarrow> ('x, 'm) world_scheme \<Rightarrow>
   restore_call \<times> ('x, 'm) world_scheme" where
  "proceeds d m k w = (case m w of (r, w') \<Rightarrow> (case r of Inl e \<Rightarrow> (RReturned (Inl e), d w') | Inr x \<Rightarrow> (k x, w')))"

fun restore_stage ::
  "('x, 'm) i_world_scheme archiver \<Rightarrow> (byte list \<Rightarrow> block_fn) \<Rightarrow> ('x, 'm) i_world_scheme initializer \<Rightarrow> restore_call \<Rightarrow>
   ('x, 'm) i_world_scheme \<Rightarrow> restore_call \<times> ('x, 'm) i_world_scheme" where
  "restore_stage ar aes i (RAsked v) w = proceeds id
     (bnd (set_status RESTORING) (\<lambda>_. bnd (set_message ''prepare restore'') (\<lambda>_.
      wrapE ''could not clean restore directory'' (os_RemoveAll RestoreDir)))) (\<lambda>_. RMake v) w"
| "restore_stage ar aes i (RMake v) w = proceeds id
     (wrapE ''could not create restore directory'' (os_MkdirAll RestoreDir)) (\<lambda>_. RDelete v) w"
| "restore_stage ar aes i (RDelete v) w = proceeds id
     (bnd (set_message ''downloading backup'') (\<lambda>_.
      wrapE ''could not delete priorly downloaded file'' (os_RemoveAll (download_path v)))) (\<lambda>_. ROpen v) w"
| "restore_stage ar aes i (ROpen v) w = proceeds id
     (wrapE ''could not open file for writing'' (os_Create (download_path v))) (RFetch v) w"
| "restore_stage ar aes i (RFetch v fd) w = proceeds (file_Close fd) (fetch_backup aes i v fd) (RUnpack fd) w"
| "restore_stage ar aes i (RUnpack fd p) w = proceeds (file_Close fd)
     (bnd (set_message ''uncompressing backup'') (\<lambda>_.
      wrapE ''unable to uncompress backup'' (Compressor_Decompress ar (in_comp i) p))) (\<lambda>_. RRecover fd) w"
| "restore_stage ar aes i (RRecover fd) w = (case
     bnd (set_message ''restoring backup'') (\<lambda>_.
     wrapE ''restoring database was not successful'' (db_Recover (in_db i))) w of (r, w') \<Rightarrow> (RReturned r, file_Close fd w'))"
| "restore_stage ar aes i (RReturned r) w = (RReturned r, w)"

fun restore_stages where
  "restore_stages ar aes i 0 c w = (c, w)"
| "restore_stages ar aes i (Suc n) c w = (case restore_stage ar aes i c w of (c', w') \<Rightarrow> restore_stages ar aes i n c' w')"

lemma stages_returned [simp]: "restore_stages ar aes i n (RReturned r) w = (RReturned r, w)"
  by (induction n) simp_all

lemma stages_add: "restore_stages ar aes i (m + n) c w = (case restore_stages ar aes i m c w of (c', w') \<Rightarrow> restore_stages ar aes i n c' w')"
  by (induction m arbitrary: c w) (simp_all split: prod.split)

text \<open>A call whose stages are not interrupted is \<open>Restore\<close>.\<close>

lemma restore_stages_all:
  "restore_stages ar aes i 7 (RAsked v) w = (case Restore ar aes i v w of (r, w') \<Rightarrow> (RReturned r, w'))"
proof -
  have 7: "7 = Suc (Suc (Suc (Suc (Suc (Suc (Suc 0))))))" by simp
  have eq: "Restore ar aes i v =
     bnd (bnd (set_status RESTORING) (\<lambda>_. bnd (set_message ''prepare restore'') (\<lambda>_. wrapE ''could not clean restore directory'' (os_RemoveAll RestoreDir)))) (\<lambda>_.
     bnd (wrapE ''could not create restore directory'' (os_MkdirAll RestoreDir)) (\<lambda>_.
     bnd (bnd (set_message ''downloading backup'') (\<lambda>_. wrapE ''could not delete priorly downloaded file'' (os_RemoveAll (download_path v)))) (\<lambda>_.
     bnd (wrapE ''could not open file for writing'' (os_Create (download_path v))) (\<lambda>fd. deferred (file_Close fd)
       (bnd (fetch_backup aes i v fd) (\<lambda>p.
        bnd (bnd (set_message ''uncompressing backup'') (\<lambda>_. wrapE ''unable to uncompress backup'' (Compressor_Decompress ar (in_comp i) p))) (\<lambda>_.
        bnd (set_message ''restoring backup'') (\<lambda>_. wrapE ''restoring database was not successful'' (db_Recover (in_db i))))))))))"
    by (simp only: Restore_def bnd_assoc)
  show ?thesis unfolding 7 eq
    by (simp add: proceeds_def bnd_run [of "bnd _ _"] bnd_run [of "wrapE _ _"] bnd_run [of "fetch_backup _ _ _ _"] deferred_run
        del: bnd_run split: prod.split sum.split)
qed

text \<open>The system: any number of calls, and one stage of one of them at a time.\<close>

inductive restores_step for ar aes i where
  asked: "restores_step ar aes i (w, cs) (w, cs @ [RAsked v])"
| staged: "k < length cs \<Longrightarrow> restore_stage ar aes i (cs ! k) w = (c, w') \<Longrightarrow> restores_step ar aes i (w, cs) (w', cs[k := c])"

lemma run_stages:
  "k < length cs \<Longrightarrow> restore_stages ar aes i n (cs ! k) w = (c, w') \<Longrightarrow> (restores_step ar aes i)\<^sup>*\<^sup>* (w, cs) (w', cs[k := c])"
proof (induction n arbitrary: cs w)
  case (Suc n)
  obtain c1 w1 where 1: "restore_stage ar aes i (cs ! k) w = (c1, w1)" by fastforce
  have "restores_step ar aes i (w, cs) (w1, cs[k := c1])" by (rule restores_step.staged [OF Suc.prems(1) 1])
  moreover have "(restores_step ar aes i)\<^sup>*\<^sup>* (w1, cs[k := c1]) (w', (cs[k := c1])[k := c])"
    by (rule Suc.IH) (use Suc.prems 1 in simp_all)
  ultimately show ?case by (simp add: converse_rtranclp_into_rtranclp)
qed (auto simp: list_update_id)

section \<open>A restore between the stages of another\<close>

text \<open>The content of an empty directory.\<close>

definition bare :: "fpath \<Rightarrow> byte list option option" where
  "bare q = (if q = [] then Some None else None)"

lemma tree_restore_empty: "restore_empty f \<Longrightarrow> tree f (resolve RestoreDir) = bare"
  by (rule ext) (auto simp: restore_empty_def tree_def bare_def shape_is_dir strict_prefix_def simp del: resolve_dirs)

lemma orderly_set [simp]:
  "orderly d (w\<lparr>i_status := s\<rparr>) = orderly d w" "orderly d (w\<lparr>i_message := m\<rparr>) = orderly d w"
  for w :: "('x, 'm) i_world_scheme"
  by (simp_all add: orderly_def quiet_def)

text \<open>A call that begins empties the restore directory.\<close>

lemma begins:
  fixes w :: "('x, 'm) i_world_scheme"
  assumes "orderly d w" "\<not> prefix (resolve RestoreDir) d" "is_dir (fs_get (w_fs w) (resolve DownloadDir))"
  shows "\<exists>w'. restore_stages ar aes i 2 (RAsked v) w = (RDelete v, w') \<and> orderly d w' \<and> restore_empty (w_fs w')"
proof -
  let ?w = "w\<lparr>i_status := RESTORING\<rparr>\<lparr>i_message := ''prepare restore''\<rparr>"
  let ?new = "bnd (wrapE ''could not clean restore directory'' (os_RemoveAll RestoreDir))
      (\<lambda>_. wrapE ''could not create restore directory'' (os_MkdirAll RestoreDir)) :: (('x, 'm) i_world_scheme, unit) go"
  have "parents_ok (w_fs ?w) (resolve DownloadDir)" using assms(1,3) by (auto simp: orderly_def tidy_def is_dir_iff)
  moreover have "quiet ?w" "is_dir (fs_get (w_fs ?w) (resolve DownloadDir))" using assms(1,3) by (simp_all add: orderly_def quiet_def)
  ultimately obtain w' where run: "?new ?w = (Inr (), w')" "restore_empty (w_fs w')"
    using meets_quiet [OF meets_new_RestoreDir, of ?w "''could not clean restore directory''" "''could not create restore directory''"] by auto
  have "keeps (orderly d) ?new" using assms(2) by (intro keeps)
  then have "orderly d w'" using run(1) by (rule keepsD) (simp add: assms(1))
  moreover from run(1) obtain u where "os_RemoveAll RestoreDir ?w = (Inr (), u)" "os_MkdirAll RestoreDir u = (Inr (), w')"
    by (auto simp: bnd_eq_Inr wrapE_eq_Inr)
  then have "restore_stages ar aes i 2 (RAsked v) w = (RDelete v, w')"
    by (simp add: numeral_2_eq_2 proceeds_def bnd_run set_status_def set_message_def upd_run wrapE_run)
  ultimately show ?thesis using run(2) by blast
qed

text \<open>A call of the localfs database that recovers from an empty restore directory succeeds, with no data.\<close>

lemma recovers_nothing:
  fixes w :: "('x, 'm) i_world_scheme"
  assumes "in_db i = localfs datadir" "rooted datadir" "resolve datadir \<parallel> resolve RestoreDir"
    and "orderly (resolve datadir) w" "restore_empty (w_fs w)"
  shows "\<exists>w'. restore_stage ar aes i (RRecover fd) w = (RReturned (Inr ()), w') \<and> tree (w_fs w') (resolve datadir) = bare"
proof -
  let ?w = "w\<lparr>i_message := ''restoring backup''\<rparr>"
  have o': "orderly (resolve datadir) ?w" using assms(4) by simp
  moreover have "tree (w_fs ?w) (resolve RestoreDir) = bare" using tree_restore_empty [OF assms(5)] by simp
  ultimately have M: "meets (LocalFS_Recover datadir) (\<lambda>_ w'. tree (w_fs w') (resolve datadir) = bare) ?w"
    by (rule meets_Recover_tree [OF assms(2,3)]) (simp add: bare_def)
  have "quiet ?w" using o' by (simp add: orderly_def)
  from meets_quiet [OF M this] obtain w' where "LocalFS_Recover datadir ?w = (Inr (), w')" "tree (w_fs w') (resolve datadir) = bare"
    by auto
  then show ?thesis using assms(1)
    by (intro exI [of _ "file_Close fd w'"]) (simp add: localfs_def bnd_run set_message_def upd_run wrapE_run)
qed

text \<open>C31: two restores of the localfs database at the same time can lose the data with an answer of success. A
  first client's restore has fetched and unpacked its backup when a second client's restore begins and empties the restore
  directory; the first goes on, recovers from the empty directory, and returns without an error: the data
  directory is empty.\<close>

theorem concurrent_restores_lose_data:
  fixes w :: "('x, 'm) i_world_scheme"
  assumes "in_db i = localfs datadir" "rooted datadir" "resolve datadir \<parallel> resolve DownloadDir"
    and "restore_stages ar aes i 6 (RAsked v) w = (RRecover fd, w1)"
    and "quiet w1" "tidy (w_fs w1)" "is_dir (fs_get (w_fs w1) (resolve datadir))" "is_dir (fs_get (w_fs w1) (resolve DownloadDir))"
  shows "\<exists>w'. (restores_step ar aes i)\<^sup>*\<^sup>* (w, [RAsked v, RAsked u]) (w', [RReturned (Inr ()), RDelete u]) \<and>
    tree (w_fs w') (resolve datadir) = bare"
proof -
  have away: "resolve datadir \<parallel> resolve RestoreDir" "\<not> prefix (resolve RestoreDir) (resolve datadir)"
    using assms(3) unfolding Download_Restore by (meson append_prefixD parallelE parallelI prefix_order.trans prefix_same_cases prefixI)+
  have 1: "(restores_step ar aes i)\<^sup>*\<^sup>* (w, [RAsked v, RAsked u]) (w1, [RRecover fd, RAsked u])"
    using run_stages [of 0 "[RAsked v, RAsked u]" ar aes i 6 w] assms(4) by simp
  have "orderly (resolve datadir) w1" using assms(5-7) by (simp add: orderly_def)
  from begins [OF this away(2) assms(8)] obtain w2 where w2: "restore_stages ar aes i 2 (RAsked u) w1 = (RDelete u, w2)"
    "orderly (resolve datadir) w2" "restore_empty (w_fs w2)" by blast
  have 2: "(restores_step ar aes i)\<^sup>*\<^sup>* (w1, [RRecover fd, RAsked u]) (w2, [RRecover fd, RDelete u])"
    using run_stages [of 1 "[RRecover fd, RAsked u]" ar aes i 2 w1] w2(1) by simp
  from recovers_nothing [OF assms(1,2) away(1) w2(2,3)] obtain w' where
    w': "restore_stage ar aes i (RRecover fd) w2 = (RReturned (Inr ()), w')" "tree (w_fs w') (resolve datadir) = bare" by blast
  have "(restores_step ar aes i)\<^sup>*\<^sup>* (w2, [RRecover fd, RDelete u]) (w', [RReturned (Inr ()), RDelete u])"
    using run_stages [of 0 "[RRecover fd, RDelete u]" ar aes i 1 w2] w'(1) by simp
  with 1 2 w'(2) show ?thesis by (meson rtranclp_trans)
qed

text \<open>No stage plans a failure.\<close>

lemma fault_proceeds: "same w_fault m \<Longrightarrow> (\<And>u. w_fault (d u) = w_fault u) \<Longrightarrow> w_fault (snd (proceeds d m k w)) = w_fault w"
  by (auto simp: proceeds_def same_def split: prod.split sum.split) (metis snd_conv)+

lemma fault_stage:
  fixes w :: "('x, 'm) i_world_scheme"
  assumes "\<And>v fd. same w_fault (fetch_backup aes i v fd)" "\<And>p. same w_fault (archiver_Unarchive ar p DownloadDir)"
    "same w_fault (db_Recover (in_db i))"
  shows "w_fault (snd (restore_stage ar aes i c w)) = w_fault w"
proof -
  have os: "same w_fault (os_RemoveAll p :: (('x, 'm) i_world_scheme, unit) go)" "same w_fault (os_MkdirAll p :: (('x, 'm) i_world_scheme, unit) go)"
    "same w_fault (os_Create p :: (('x, 'm) i_world_scheme, nat) go)" for p
    by (intro same_fault same_surroundings_os)+
  show ?thesis
  proof (cases c)
    case (RRecover fd)
    have "same w_fault (bnd (set_message ''restoring backup'')
        (\<lambda>_. wrapE ''restoring database was not successful'' (db_Recover (in_db i))))"
      by (intro same_bnd same_wrapE same_fault_set assms)
    then show ?thesis unfolding RRecover restore_stage.simps by (simp add: same_def file_Close_def split_beta)
  qed (simp_all only: restore_stage.simps Decompress_target snd_conv,
    (intro fault_proceeds same_bnd same_wrapE same_fault_set assms os; simp add: file_Close_def)+)
qed

lemma fault_stages:
  "(\<And>c w. w_fault (snd (restore_stage ar aes i c w)) = w_fault w) \<Longrightarrow> w_fault (snd (restore_stages ar aes i n c w)) = w_fault w"
  by (induction n arbitrary: c w) (simp, simp add: split_beta)

theorem concurrent_restores_lose_data_witness:
  "\<exists>w1 w2. Restore a_tar (\<lambda>k b. b) an_initializer \<lparr>bv_name = ''0.tar'', bv_version = ''0'', bv_date = 0\<rparr> (an_init_world lost_disk) = (Inr (), w1) \<and>
    file_at (w_fs w1) [''data'', ''dump''] = Some [5] \<and>
    (restores_step a_tar (\<lambda>k b. b) an_initializer)\<^sup>*\<^sup>*
      (an_init_world lost_disk, [RAsked \<lparr>bv_name = ''0.tar'', bv_version = ''0'', bv_date = 0\<rparr>, RAsked \<lparr>bv_name = ''0.tar'', bv_version = ''0'', bv_date = 0\<rparr>])
      (w2, [RReturned (Inr ()), RDelete \<lparr>bv_name = ''0.tar'', bv_version = ''0'', bv_date = 0\<rparr>]) \<and>
    fs_get (w_fs w2) [''data'', ''dump''] = None"
proof -
  let ?v = "\<lparr>bv_name = ''0.tar'', bv_version = ''0'', bv_date = 0\<rparr>" and ?w = "an_init_world lost_disk"
  let ?run = "restore_stages a_tar (\<lambda>k b. b) an_initializer 6 (RAsked ?v) ?w"
  have d: "resolve ''/data'' = [''data'']" "rooted ''/data''" by (simp_all add: resolve_def rooted_def)
  have "(case Restore a_tar (\<lambda>k b. b) an_initializer ?v ?w of (Inr _, u) \<Rightarrow> file_at (w_fs u) [''data'', ''dump''] = Some [5] | _ \<Rightarrow> False)"
    by code_simp
  then obtain w1 where alone: "Restore a_tar (\<lambda>k b. b) an_initializer ?v ?w = (Inr (), w1)" "file_at (w_fs w1) [''data'', ''dump''] = Some [5]"
    by (auto split: prod.splits sum.splits)
  have c: "(case fst ?run of RRecover fd \<Rightarrow> True | _ \<Rightarrow> False)" by code_simp
  obtain fd w0 where run: "?run = (RRecover fd, w0)" using c by (cases ?run) (auto split: restore_call.splits)
  have "tidy (w_fs (snd ?run))" by (rule tidyI) code_simp
  moreover have "is_dir (fs_get (w_fs (snd ?run)) (resolve ''/data''))" by code_simp
  moreover have "is_dir (fs_get (w_fs (snd ?run)) (resolve DownloadDir))" by code_simp
  moreover have "w_fault (snd ?run) = w_fault ?w"
  proof (intro fault_stages fault_stage same_fault_a_tar)
    fix v fd
    show "same w_fault (fetch_backup (\<lambda>k b. b) an_initializer v fd)"
      unfolding fetch_backup_def Let_def an_initializer_def initializer.simps local_provider_def provider.simps Local_DownloadBackup_def
      by (intro same_bnd same_wrapE same_deferred same_option same_if same_ret same_io_Copy same_fault same_surroundings_os same_Decrypt) simp
    show "same w_fault (db_Recover (in_db an_initializer))"
      unfolding an_initializer_def initializer.simps localfs_def database.simps LocalFS_Recover_def
      by (intro same_bnd same_wrapE same_fault) (intro keeps)+
  qed
  ultimately have w0: "tidy (w_fs w0)" "is_dir (fs_get (w_fs w0) (resolve ''/data''))" "is_dir (fs_get (w_fs w0) (resolve DownloadDir))" "quiet w0"
    unfolding run by (simp_all add: quiet_def an_init_world_def b_world.defs m_world.defs lp_world.defs world.defs calm_def)
  have i: "in_db an_initializer = localfs ''/data''" "resolve ''/data'' \<parallel> resolve DownloadDir"
    by (simp_all add: an_initializer_def d parallel_def)
  from concurrent_restores_lose_data [OF i(1) d(2) i(2) run w0(4,1,2,3), of ?v] obtain w2 where
    "(restores_step a_tar (\<lambda>k b. b) an_initializer)\<^sup>*\<^sup>* (?w, [RAsked ?v, RAsked ?v]) (w2, [RReturned (Inr ()), RDelete ?v])"
    and t: "tree (w_fs w2) (resolve ''/data'') = bare" by blast
  moreover have "fs_get (w_fs w2) [''data'', ''dump''] = None"
    using fun_cong [OF t, of "[''dump'']"] by (simp add: tree_def bare_def d)
  ultimately show ?thesis using alone by blast
qed

end
