(* ===== verification/Printer.thy ===== *)
theory Printer
  imports GoStd
begin

text \<open>
  What a list of backups looks like: \<open>cmd/internal/utils/printer.go\<close>, and the text of a time as the
  \<open>String\<close> method of \<open>time.Time\<close> writes it.  A parameter: the table writer library.
\<close>

section \<open>The text of a time\<close>

text \<open>A number with leading zeros.\<close>

definition pad :: "nat \<Rightarrow> nat \<Rightarrow> string" where
  "pad w n = replicate (w - length (nat_str n)) (CHR ''0'') @ nat_str n"

text \<open>The date of a day, counted from 1 January 1970.  The years begin in March here, so that the leap day
  is the last of a year: 400 years, then centuries, then four years, then years.\<close>

definition civil_year :: "int \<Rightarrow> int \<times> nat" where
  "civil_year day =
     (let z = day + 719468; era = z div 146097; doe = nat (z mod 146097);
          c = min 3 (doe div 36524); r = doe - c * 36524;
          q = r div 1461; s = r - q * 1461;
          y = min 3 (s div 365)
      in (era * 400 + int (c * 100 + q * 4 + y), s - y * 365))"

definition civil :: "int \<Rightarrow> int \<times> nat \<times> nat" where
  "civil day =
     (let (year, doy) = civil_year day; mp = (5 * doy + 2) div 153;
          d = doy - (153 * mp + 2) div 5 + 1; m = (if mp < 10 then mp + 3 else mp - 9)
      in (if m \<le> 2 then year + 1 else year, m, d))"

definition days_of :: "int \<Rightarrow> nat \<Rightarrow> nat \<Rightarrow> int" where
  "days_of y m d =
     (let year = (if m \<le> 2 then y - 1 else y); mp = (if m \<le> 2 then m + 9 else m - 3); doy = (153 * mp + 2) div 5 + d - 1;
          yoe = nat (year mod 400)
      in year div 400 * 146097 + int (yoe div 100 * 36524 + yoe mod 100 div 4 * 1461 + yoe mod 4 * 365 + doy) - 719468)"

definition fraction :: "nat \<Rightarrow> string" where
  "fraction ns = (if ns = 0 then '''' else CHR ''.'' # rev (dropWhile ((=) (CHR ''0'')) (rev (pad 9 ns))))"

text \<open>A time is the number of nanoseconds since the beginning of 1970, in UTC.\<close>

definition time_String :: "int \<Rightarrow> string" where
  "time_String t =
     (let sec = t div 1000000000; ns = nat (t mod 1000000000); s = nat (sec mod 86400);
          (y, m, d) = civil (sec div 86400)
      in (if y < 0 then CHR ''-'' # pad 4 (nat (- y)) else pad 4 (nat y)) @ ''-'' @ pad 2 m @ ''-'' @ pad 2 d @ '' '' @
         pad 2 (s div 3600) @ '':'' @ pad 2 (s div 60 mod 60) @ '':'' @ pad 2 (s mod 60) @ fraction ns @ '' +0000 UTC'')"

text \<open>The way back, for years of four digits.\<close>

definition parse_time :: "string \<Rightarrow> int" where
  "parse_time x =
     (let n = (\<lambda>i w. digits_val (take w (drop i x))); r = drop 19 x;
          fr = (if hd r = CHR ''.'' then takeWhile is_digit (tl r) else '''')
      in (days_of (int (n 0 4)) (n 5 2) (n 8 2) * 86400 + int (n 11 2 * 3600 + n 14 2 * 60 + n 17 2)) * 1000000000
         + int (digits_val (fr @ replicate (9 - length fr) (CHR ''0''))))"

lemma length_nat_str: "n < 10 ^ w \<Longrightarrow> 0 < w \<Longrightarrow> length (nat_str n) \<le> w"
proof (induction n arbitrary: w rule: nat_str.induct)
  case (1 n)
  show ?case
  proof (cases "n < 10")
    case False
    then have "w \<noteq> 1" using 1(2) by auto
    then obtain v where v: "w = Suc v" "0 < v" using 1(3) by (cases w) auto
    then have "n div 10 < 10 ^ v" using 1(2) by (simp add: less_mult_imp_div_less mult.commute)
    then show ?thesis using 1(1) False v by (simp add: nat_str.simps)
  qed (use 1 in \<open>simp add: nat_str.simps\<close>)
qed

lemma digits_val_zeros [simp]: "digits_val (replicate k (CHR ''0'') @ s) = digits_val s"
  by (induction k) (simp_all add: digits_val_def)

lemma pad:
  assumes "n < 10 ^ w" "0 < w"
  shows "length (pad w n) = w" "digits_val (pad w n) = n" "list_all is_digit (pad w n)"
proof -
  have z: "is_digit (CHR ''0'')" by (simp add: is_digit_def)
  show "length (pad w n) = w" using length_nat_str [OF assms] by (simp add: pad_def)
  show "digits_val (pad w n) = n" using nat_str_digits [of n] by (simp add: pad_def)
  show "list_all is_digit (pad w n)" using nat_str_digits [of n] z by (auto simp: pad_def list_all_iff)
qed

lemma civil_year_bounds:
  assumes "civil_year day = (year, doy)"
  shows "doy \<le> 365 \<and> year div 400 * 146097 + int (nat (year mod 400) div 100 * 36524 + nat (year mod 400) mod 100 div 4 * 1461 +
    nat (year mod 400) mod 4 * 365 + doy) = day + 719468"
proof -
  define z where "z = day + 719468"
  define doe where "doe = nat (z mod 146097)"
  define c where "c = min 3 (doe div 36524)"
  define r where "r = doe - c * 36524"
  define q where "q = r div 1461"
  define s where "s = r - q * 1461"
  define y where "y = min 3 (s div 365)"
  have eqs: "year = z div 146097 * 400 + int (c * 100 + q * 4 + y)" "doy = s - y * 365"
  proof -
    have "civil_year day = (z div 146097 * 400 + int (c * 100 + q * 4 + y), s - y * 365)"
      unfolding civil_year_def Let_def y_def s_def q_def r_def c_def doe_def z_def by (rule refl)
    then show "year = z div 146097 * 400 + int (c * 100 + q * 4 + y)" "doy = s - y * 365" using assms by (simp_all only: prod.inject)
  qed
  have doe: "doe < 146097" "int doe = z mod 146097" by (simp_all add: doe_def nat_less_iff)
  have c: "c \<le> 3" "c * 36524 \<le> doe" "doe - c * 36524 \<le> 36524" using doe(1) by (auto simp: c_def min_def)
  have q: "q \<le> 24" "q * 1461 \<le> r" "s \<le> 1460" using c(3) unfolding q_def r_def s_def by auto
  have y: "y \<le> 3" "y * 365 \<le> s" "s - y * 365 \<le> 365" using q(3) by (auto simp: y_def min_def)
  have yoe: "nat (year mod 400) = c * 100 + q * 4 + y" "year div 400 = z div 146097"
    using c(1) q(1) y(1) by (simp_all add: eqs(1))
  have "(c * 100 + q * 4 + y) div 100 = c" "(c * 100 + q * 4 + y) mod 100 div 4 = q" "(c * 100 + q * 4 + y) mod 4 = y"
  proof -
    have k: "q * 4 + y < 100" "y < 4" using q(1) y(1) by simp_all
    have e: "c * 100 + q * 4 + y = (q * 4 + y) + c * 100" "c * 100 + q * 4 + y = y + (c * 25 + q) * 4" by simp_all
    show "(c * 100 + q * 4 + y) div 100 = c" "(c * 100 + q * 4 + y) mod 100 div 4 = q" unfolding e(1) using k by simp_all
    show "(c * 100 + q * 4 + y) mod 4 = y" unfolding e(2) mod_mult_self1 using k(2) by simp
  qed
  moreover have "c * 36524 + q * 1461 + y * 365 + doy = doe"
    using c(2) q(2) y(2) unfolding eqs(2) s_def r_def by linarith
  moreover have "z div 146097 * 146097 + int doe = z" unfolding doe(2) by (rule div_mult_mod_eq)
  ultimately show ?thesis using y(3) unfolding yoe eqs(2) z_def by simp
qed

lemma civil_days:
  assumes "civil day = (y, m, d)"
  shows "days_of y m d = day \<and> m < 100 \<and> d < 100"
proof -
  obtain year doy where yd: "civil_year day = (year, doy)" by fastforce
  note b = civil_year_bounds [OF yd]
  define mp where "mp = (5 * doy + 2) div 153"
  have "153 * mp \<le> 5 * doy + 2" "5 * doy + 2 < 153 * mp + 153" "doy \<le> 365" using b unfolding mp_def by simp_all
  moreover have "5 * ((153 * mp + 2) div 5) \<le> 153 * mp + 2" "153 * mp + 2 < 5 * ((153 * mp + 2) div 5) + 5" by linarith+
  ultimately have mp: "mp \<le> 11" "(153 * mp + 2) div 5 \<le> doy" "doy - (153 * mp + 2) div 5 < 99" by linarith+
  have e: "d = doy - (153 * mp + 2) div 5 + 1" "m = (if mp < 10 then mp + 3 else mp - 9)" "y = (if m \<le> 2 then year + 1 else year)"
    using assms by (auto simp: civil_def yd mp_def Let_def split: if_splits)
  have m: "(if m \<le> 2 then m + 9 else m - 3) = mp" "(if m \<le> 2 then y - 1 else y) = year" "m < 100"
    using mp(1) unfolding e(2,3) by auto
  have "(153 * mp + 2) div 5 + d - 1 = doy" using mp(2) unfolding e(1) by simp
  then have "days_of y m d = year div 400 * 146097 + int (nat (year mod 400) div 100 * 36524 + nat (year mod 400) mod 100 div 4 * 1461 +
      nat (year mod 400) mod 4 * 365 + doy) - 719468"
    unfolding days_of_def m(1,2) Let_def by (simp only:)
  then have "days_of y m d = day" unfolding conjunct2 [OF b] by simp
  moreover have "d < 100" using mp(3) unfolding e(1) by linarith
  ultimately show ?thesis using m(3) by blast
qed

lemma take_drop_at: "length p = i \<Longrightarrow> length q = w \<Longrightarrow> take w (drop i (p @ q @ r)) = q"
  by simp

lemma fraction:
  assumes "ns < 1000000000"
  shows "let fr = (if hd (fraction ns @ '' +0000 UTC'') = CHR ''.'' then takeWhile is_digit (tl (fraction ns @ '' +0000 UTC'')) else '''')
    in digits_val (fr @ replicate (9 - length fr) (CHR ''0'')) = ns"
proof (cases "ns = 0")
  case True
  then show ?thesis using digits_val_zeros [of 9 "[]"] by (simp add: fraction_def) (simp add: digits_val_def)
next
  case False
  let ?p = "pad 9 ns"
  define fr where "fr = rev (dropWhile ((=) (CHR ''0'')) (rev ?p))"
  have p: "length ?p = 9" "digits_val ?p = ns" "list_all is_digit ?p" using pad [of ns 9] assms by simp_all
  define k where "k = length (takeWhile ((=) (CHR ''0'')) (rev ?p))"
  have "takeWhile ((=) (CHR ''0'')) (rev ?p) = replicate k (CHR ''0'')"
    unfolding k_def by (rule replicate_eqI [symmetric, THEN sym]) (auto dest: set_takeWhileD)
  then have "rev ?p = replicate k (CHR ''0'') @ rev fr" unfolding fr_def rev_rev_ident by (metis takeWhile_dropWhile_id)
  then have pk: "?p = fr @ replicate k (CHR ''0'')" by (metis rev_append rev_replicate rev_rev_ident)
  then have k: "k = 9 - length fr" using p(1) by (metis add_diff_cancel_left' length_append length_replicate)
  have "list_all is_digit fr" using p(3) pk by (metis list_all_append)
  then have t: "takeWhile is_digit (fr @ '' +0000 UTC'') = fr"
    by (simp add: takeWhile_append list_all_iff is_digit_def)
  have "fraction ns = CHR ''.'' # fr" using False by (simp add: fraction_def fr_def)
  moreover have "digits_val (fr @ replicate (9 - length fr) (CHR ''0'')) = ns" using p(2) unfolding pk k .
  ultimately show ?thesis using t by simp
qed

lemma clock: "s div 3600 * 3600 + s div 60 mod 60 * 60 + s mod 60 = (s :: nat)"
proof -
  have "s div 3600 = s div 60 div 60" by (simp add: div_mult2_eq [symmetric])
  moreover have "s div 60 div 60 * 60 + s div 60 mod 60 = s div 60" "s div 60 * 60 + s mod 60 = s" by simp_all
  ultimately show ?thesis by linarith
qed

definition four_digit_year :: "int \<Rightarrow> bool" where
  "four_digit_year t \<longleftrightarrow> fst (civil (t div 1000000000 div 86400)) \<in> {0..9999}"

text \<open>The text of a time tells the time, for the years 0 to 9999: no two times are written alike.\<close>

theorem parse_time_String:
  assumes "four_digit_year t"
  shows "parse_time (time_String t) = t"
proof -
  let ?sec = "t div 1000000000" and ?ns = "nat (t mod 1000000000)"
  let ?s = "nat (?sec mod 86400)"
  obtain y m d where c: "civil (?sec div 86400) = (y, m, d)" by (cases "civil (?sec div 86400)") auto
  note cd = civil_days [OF c]
  have y: "0 \<le> y" "nat y < 10 ^ 4" using assms c by (auto simp: four_digit_year_def)
  have s: "?s < 86400" by (simp add: nat_less_iff)
  define Y where "Y = pad 4 (nat y)" define M where "M = pad 2 m" define D where "D = pad 2 d"
  define H where "H = pad 2 (?s div 3600)" define N where "N = pad 2 (?s div 60 mod 60)" define S where "S = pad 2 (?s mod 60)"
  define x where "x = fraction ?ns @ '' +0000 UTC''"
  have l: "length Y = 4" "length M = 2" "length D = 2" "length H = 2" "length N = 2" "length S = 2"
    and v: "digits_val Y = nat y" "digits_val M = m" "digits_val D = d" "digits_val H = ?s div 3600"
      "digits_val N = ?s div 60 mod 60" "digits_val S = ?s mod 60"
    using y cd s unfolding Y_def M_def D_def H_def N_def S_def
    by (simp_all add: pad less_mult_imp_div_less)
  have t: "time_String t = Y @ ''-'' @ M @ ''-'' @ D @ '' '' @ H @ '':'' @ N @ '':'' @ S @ x"
    using y(1) unfolding time_String_def Let_def c Y_def M_def D_def H_def N_def S_def x_def by simp
  have parts: "take 4 (drop 0 (time_String t)) = Y" "take 2 (drop 5 (time_String t)) = M" "take 2 (drop 8 (time_String t)) = D"
    "take 2 (drop 11 (time_String t)) = H" "take 2 (drop 14 (time_String t)) = N" "take 2 (drop 17 (time_String t)) = S"
    "drop 19 (time_String t) = x"
    unfolding t by (simp_all add: l)
  have ns: "?ns < 1000000000" by (simp add: nat_less_iff)
  have "?s div 3600 * 3600 + ?s div 60 mod 60 * 60 + ?s mod 60 = ?s" by (rule clock)
  then have "int (?s div 3600 * 3600 + ?s div 60 mod 60 * 60 + ?s mod 60) = ?sec mod 86400" by simp
  moreover have "days_of (int (nat y)) m d = ?sec div 86400" using cd y(1) by simp
  ultimately have "parse_time (time_String t) = (?sec div 86400 * 86400 + ?sec mod 86400) * 1000000000 + int ?ns"
    using fraction [OF ns, folded x_def] unfolding parse_time_def Let_def parts v by (simp only:)
  also have "\<dots> = t" by simp
  finally show ?thesis .
qed

theorem parse_time_String_witness:
  "time_String 1714563000500000000 = ''2024-05-01 11:30:00.5 +0000 UTC'' \<and> parse_time ''2024-05-01 11:30:00.5 +0000 UTC'' = 1714563000500000000"
proof -
  have "(19844 :: int) + 719468 = 739312" "(739312 :: int) div 146097 = 5" "nat (739312 mod 146097) = 8827"
    "min 3 ((8827 :: nat) div 36524) = 0" "(8827 :: nat) - 0 * 36524 = 8827" "(8827 :: nat) div 1461 = 6" "(8827 :: nat) - 6 * 1461 = 61"
    "min 3 ((61 :: nat) div 365) = 0" "(61 :: nat) - 0 * 365 = 61" "(5 :: int) * 400 + int (0 * 100 + 6 * 4 + 0) = 2024" by simp_all
  then have "civil_year 19844 = (2024, 61)" by (simp only: civil_year_def Let_def)
  moreover have "(5 * 61 + 2 :: nat) div 153 = 2" "(61 :: nat) - (153 * 2 + 2) div 5 + 1 = 1" by simp_all
  ultimately have c: "civil 19844 = (2024, 5, 1)" by (simp only: civil_def Let_def prod.case) simp
  have dc: "digit_char 5 = CHR ''5''" "digit_char 0 = CHR ''0''" by code_simp+
  have f: "fraction 500000000 = ''.5''"
    by (simp add: fraction_def pad_def nat_str.simps [of 500000000] nat_str.simps [of 50000000] nat_str.simps [of 5000000]
        nat_str.simps [of 500000] nat_str.simps [of 50000] nat_str.simps [of 5000] nat_str.simps [of 500] nat_str.simps [of 50] nat_str.simps [of 5]
        dc del: digit_char.simps)
  have p: "pad 4 2024 = ''2024''" "pad 2 5 = ''05''" "pad 2 1 = ''01''" "pad 2 11 = ''11''" "pad 2 30 = ''30''" "pad 2 0 = ''00''"
    by code_simp+
  have t: "time_String 1714563000500000000 = ''2024-05-01 11:30:00.5 +0000 UTC''"
    by (simp add: time_String_def Let_def c f p p(3) [unfolded One_nat_def])
  have "four_digit_year 1714563000500000000" by (simp add: four_digit_year_def c)
  from parse_time_String [OF this] show ?thesis by (simp add: t)
qed

section \<open>The table printer\<close>

datatype alignment = AlignLeft

text \<open>What the table writer is told: no borders, lines or separators, empty symbols, and the alignments.\<close>

record table_options =
  to_Center :: string
  to_Column :: string
  to_Row :: string
  to_Borders :: bool
  to_Header_Alignment :: alignment
  to_Row_Alignment :: alignment

record 'w table =
  tb_Header :: "string list \<Rightarrow> ('w, unit) go"
  tb_Bulk :: "string list list \<Rightarrow> ('w, unit) go"
  tb_Render :: "('w, unit) go"

definition NewTablePrinter :: "(table_options \<Rightarrow> 'w table) \<Rightarrow> 'w table" where
  "NewTablePrinter tablewriter_NewTable = tablewriter_NewTable
     \<lparr>to_Center = '''', to_Column = '''', to_Row = '''', to_Borders = False,
      to_Header_Alignment = AlignLeft, to_Row_Alignment = AlignLeft\<rparr>"

definition TablePrinter_Print :: "'w table \<Rightarrow> string list \<Rightarrow> string list list \<Rightarrow> ('w, unit) go" where
  "TablePrinter_Print t headers data =
     bnd (tb_Header t headers) (\<lambda>_. bnd (tb_Bulk t data) (\<lambda>_. tb_Render t))"

end
