(* ===== verification/DbRedis.thy ===== *)
theory DbRedis
  imports Database
begin

text \<open>
  \<open>cmd/internal/database/redis/redis.go\<close> (also used for keydb and valkey).  The calls of the redis
  client are a parameter.
\<close>

definition redisDumpFile :: string where "redisDumpFile = ''dump.rdb''"

record 'w redis_client =
  rc_Info :: "string \<Rightarrow> ('w, string) go"
  rc_Save :: "('w, string) go"
  rc_ConfigGet :: "string \<Rightarrow> ('w, string \<Rightarrow> string option) go"
  rc_Ping :: "('w, string) go"

record redis_options =
  ro_Addr :: string
  ro_Password :: string

definition Redis_New ::
  "(redis_options \<Rightarrow> 'w redis_client) \<Rightarrow> string \<Rightarrow> string \<Rightarrow> string option \<Rightarrow> err + (string \<times> 'w redis_client)" where
  "Redis_New mk datadir addr password =
     (if addr = '''' then Inl (ErrText ''redis addr cannot be empty'')
      else Inr (datadir, mk \<lparr>ro_Addr = addr, ro_Password = (case password of None \<Rightarrow> '''' | Some p \<Rightarrow> p)\<rparr>))"

definition Redis_isMaster :: "'w redis_client \<Rightarrow> ('w, bool) go" where
  "Redis_isMaster cl =
     bnd (wrapE ''unable to get database info'' (rc_Info cl ''replication'')) (\<lambda>info.
     ret (strings_Contains info ''role:master''))"

text \<open>The part of the backup that the master takes.\<close>

definition Redis_dump :: "('x, 'm) world_scheme redis_client \<Rightarrow> (('x, 'm) world_scheme, unit) go" where
  "Redis_dump cl =
     bnd (wrapE ''could not clean backup directory'' (os_RemoveAll BackupDir)) (\<lambda>_.
     bnd (wrapE ''could not create backup directory'' (os_MkdirAll BackupDir)) (\<lambda>_.
     bnd (wrapE ''could not create a dump'' (rc_Save cl)) (\<lambda>_.
     bnd (wrapE ''could not get config'' (rc_ConfigGet cl ''dir'')) (\<lambda>resp.
     let dumpDir = (case resp ''dir'' of None \<Rightarrow> '''' | Some d \<Rightarrow> d);
         dumpFile = path_Join [dumpDir, redisDumpFile] in
     bnd (wrapE ''unable to copy dumpfile to backupdir'' (Copy dumpFile (path_Join [BackupDir, redisDumpFile]))) (\<lambda>_.
     wrapE ''unable to clean up dump'' (os_Remove dumpFile))))))"

definition Redis_Backup :: "('x, 'm) world_scheme redis_client \<Rightarrow> (('x, 'm) world_scheme, unit) go" where
  "Redis_Backup cl = bnd (Redis_isMaster cl) (\<lambda>isMaster. if \<not> isMaster then ret () else Redis_dump cl)"

definition Redis_Check :: "string \<Rightarrow> (('x, 'm) world_scheme, bool) go" where
  "Redis_Check datadir = bnd (IsEmpty datadir) (\<lambda>empty. if empty then ret True else ret False)"

definition Redis_Probe :: "'w redis_client \<Rightarrow> ('w, unit) go" where
  "Redis_Probe cl = bnd (wrapE ''connection error'' (rc_Ping cl)) (\<lambda>_. ret ())"

definition Redis_Recover :: "string \<Rightarrow> (('x, 'm) world_scheme, unit) go" where
  "Redis_Recover datadir =
     (let dump = path_Join [RestoreDir, redisDumpFile] in
      bnd (attempt (os_Stat dump)) (\<lambda>s.
      if isNotExist_result os_IsNotExist s then fail (ErrText (''restore file not present: '' @ dump))
      else
        bnd (wrapE ''could not clean database data directory'' (RemoveContents datadir)) (\<lambda>_.
        wrapE ''unable to recover'' (Copy dump (path_Join [datadir, redisDumpFile])))))"

definition Redis_Upgrade :: "('w, unit) go" where
  "Redis_Upgrade = ret ()"

definition redis :: "string \<Rightarrow> ('x, 'm) world_scheme redis_client \<Rightarrow> ('x, 'm) world_scheme database" where
  "redis datadir cl = \<lparr>db_Check = Redis_Check datadir, db_Recover = Redis_Recover datadir,
     db_Upgrade = Redis_Upgrade, db_Probe = Redis_Probe cl, db_Backup = Redis_Backup cl\<rparr>"

interpretation redis_check: restore_check "Redis_Check d" d for d
  by unfold_locales (unfold Redis_Check_def, rule Check_by_IsEmpty)

section \<open>Properties\<close>

lemma redis_paths: "resolve (path_Join [RestoreDir, redisDumpFile]) = resolve RestoreDir @ [redisDumpFile]"
  "resolve (path_Join [BackupDir, redisDumpFile]) = resolve BackupDir @ [redisDumpFile]"
  "plain_name redisDumpFile"
  by (simp_all add: redisDumpFile_def plain_name_def)

text \<open>C26: a recovery of redis that succeeds leaves the data directory with the dump that was
  restored, under the name redis loads at its start, and with nothing else.\<close>

theorem Redis_Recover_correct:
  assumes "Redis_Recover datadir w = (Inr u, w')" "rooted datadir" "tidy (w_fs w)"
    and "file_at (w_fs w) (resolve RestoreDir @ [redisDumpFile]) = Some c"
    and "\<not> prefix (resolve datadir) (resolve RestoreDir @ [redisDumpFile])"
  shows "file_at (w_fs w') (resolve datadir @ [redisDumpFile]) = Some c \<and>
    (\<forall>q. strict_prefix (resolve datadir) q \<and> q \<noteq> resolve datadir @ [redisDumpFile] \<longrightarrow> fs_get (w_fs w') q = None) \<and>
    (\<forall>q. \<not> strict_prefix (resolve datadir) q \<longrightarrow> fs_get (w_fs w') q = fs_get (w_fs w) q)"
proof -
  let ?src = "path_Join [RestoreDir, redisDumpFile]" and ?dst = "path_Join [datadir, redisDumpFile]"
  from assms(1) obtain s w1 w2 where 1: "attempt (os_Stat ?src) w = (Inr s, w1)"
    and 2: "RemoveContents datadir w1 = (Inr (), w2)" and 3: "Copy ?src ?dst w2 = (Inr u, w')"
    unfolding Redis_Recover_def Let_def
    by (auto simp: bnd_eq_Inr wrapE_eq_Inr fail_def split: if_splits)
  have fs1: "w_fs w1 = w_fs w"
  proof (cases s)
    case (Inl e)
    then show ?thesis using 1 by (auto simp: attempt_eq_Inr os_Stat_def sysE_def sys_def Let_def fail_def
        split: option.splits sum.splits)
  next
    case (Inr n)
    then show ?thesis using 1 os_Stat_InrD(1) [of ?src w n w1] by (simp add: attempt_eq_Inr)
  qed
  have rd: "resolve ?dst = resolve datadir @ [redisDumpFile]" using assms(2) redis_paths(3) by simp
  have get2: "fs_get (w_fs w2) q = (if strict_prefix (resolve datadir) q then None else fs_get (w_fs w) q)" for q
    using RemoveContents_InrD [OF 2 assms(2), of q] assms(3) fs1 by simp
  have src: "file_at (w_fs w2) (resolve ?src) = Some c"
    using assms(4,5) unfolding redis_paths file_at_def get2 by (auto simp: strict_prefix_def)
  have ne: "resolve ?src \<noteq> resolve ?dst" using assms(5) unfolding redis_paths rd by (metis prefixI)
  from Copy_InrD [OF 3 ne src] obtain t where
    w': "fs_get (w_fs w') = (fs_get (w_fs w2))(resolve ?dst \<mapsto> File c t)" by blast
  show ?thesis unfolding w' rd file_at_def using get2 by auto
qed

definition a_dump :: fs where
  "a_dump = [([''data''], Dir 0), ([''data'', ''old''], File [9] 0), ([''backup''], Dir 0), ([''backup'', ''restore''], Dir 0),
     ([''backup'', ''restore'', ''files''], Dir 0), ([''backup'', ''restore'', ''files'', ''dump.rdb''], File [1, 2] 0)]"

theorem Redis_Recover_correct_witness:
  "\<exists>w'. Redis_Recover ''/data'' (calm a_dump ()) = (Inr (), w') \<and>
     file_at (w_fs w') [''data'', ''dump.rdb''] = Some [1, 2] \<and> fs_get (w_fs w') [''data'', ''old''] = None"
proof -
  have "\<not> isl (fst (Redis_Recover ''/data'' (calm a_dump ())))" by code_simp
  from ran_ok [OF this] obtain w' where run: "Redis_Recover ''/data'' (calm a_dump ()) = (Inr (), w')" by auto
  have d: "resolve ''/data'' = [''data'']" "rooted ''/data''" by code_simp+
  have t: "tidy (w_fs (calm a_dump ()))" by (rule tidyI) code_simp
  have f: "file_at (w_fs (calm a_dump ())) (resolve RestoreDir @ [redisDumpFile]) = Some [1, 2]" by code_simp
  have p: "\<not> prefix (resolve ''/data'') (resolve RestoreDir @ [redisDumpFile])" by code_simp
  from Redis_Recover_correct [OF run d(2) t f p] show ?thesis
    using run unfolding d redisDumpFile_def by auto
qed

text \<open>C36: a redis instance that is not the master reports a successful backup without having
  touched the backup directory.\<close>

theorem Redis_replica_backup_is_empty_success:
  assumes "rc_Info cl ''replication'' w = (Inr info, w')" "\<not> strings_Contains info ''role:master''"
  shows "Redis_Backup cl w = (Inr (), w')"
  using assms by (simp add: Redis_Backup_def Redis_isMaster_def run)

definition a_replica :: "'w redis_client" where
  "a_replica = \<lparr>rc_Info = (\<lambda>_. ret ''role:slave''), rc_Save = ret ''OK'', rc_ConfigGet = (\<lambda>_. ret (\<lambda>_. None)), rc_Ping = ret ''PONG''\<rparr>"

theorem Redis_replica_backup_is_empty_success_witness:
  "Redis_Backup a_replica (calm a_dump ()) = (Inr (), calm a_dump ())"
  by (rule Redis_replica_backup_is_empty_success [where info = "''role:slave''"])
    (simp add: a_replica_def run, code_simp)

section \<open>A torn dump\<close>

text \<open>A copy that fails after the target was created has written a part of the source.\<close>

lemma io_Copy_torn:
  assumes "io_Copy (file_Write o') (file_reader i) w = (Inl x, w')"
    and "w_fds w i = Some hi" "h_rd hi" "h_off hi = 0" "fs_get (w_fs w) (h_path hi) = Some (File c s)"
    and "w_fds w o' = Some ho" "h_wr ho" "h_off ho = 0" "fs_get (w_fs w) (h_path ho) = Some (File [] t)" "i \<noteq> o'"
  shows "\<not> unwinds x \<and> (\<exists>n t. fs_get (w_fs w') (h_path ho) = Some (File (take n c) t))"
proof -
  obtain r w1 where rd: "file_reader i w = (r, w1)" by fastforce
  have r: "\<exists>n y. r = Inr (take n c, y) \<and> (\<forall>z. y = Some z \<longrightarrow> \<not> unwinds z)" "w_fs w1 = w_fs w" "w_fds w1 o' = w_fds w o'"
    using rd assms(2-5,10)
    by (auto simp: file_reader_def sys_def Let_def fd_content_def set_off_def split: option.splits intro: exI [of _ "length c"])
  then obtain n y where y: "r = Inr (take n c, y)" "\<And>z. y = Some z \<Longrightarrow> \<not> unwinds z" by blast
  note run = assms(1) [unfolded io_Copy_def bnd_run rd y(1), simplified]
  show ?thesis
  proof (cases "take n c = []")
    case True
    then have "y = Some x" "w' = w1" using run by (auto simp: ret_def fail_def split: option.splits)
    then show ?thesis using y(2) r(2) assms(9) by (auto intro: exI [of _ 0])
  next
    case False
    obtain q w2 where wr: "file_Write o' (take n c) w1 = (q, w2)" by fastforce
    have fs: "\<exists>k u. fs_get (w_fs w2) (h_path ho) = Some (File (take k c) u)" "\<And>z. q = Inl z \<Longrightarrow> \<not> unwinds z"
    proof -
      have "h_path ho \<noteq> []" if "fs_get (w_fs w1) (h_path ho) = Some (File b u)" for b u using that by (cases "h_path ho") auto
      then show "\<exists>k u. fs_get (w_fs w2) (h_path ho) = Some (File (take k c) u)" "\<And>z. q = Inl z \<Longrightarrow> \<not> unwinds z"
        using wr assms(6-9) r(2,3)
        by (auto simp: file_Write_def sys_def Let_def do_write_def set_off_def set_fs_def overwrite_def fs_get_put split: option.splits)
    qed
    have "w' = w2 \<and> (q = Inl x \<or> y = Some x)"
      using run False wr by (cases q) (auto simp: bnd_run ret_def fail_def split: option.splits)
    then show ?thesis using fs y(2) by auto
  qed
qed

text \<open>C37: a recovery of redis that fails while it copies the dump, after it has created the file in the data
  directory, leaves a part of the dump there under the name redis loads, and every later \<open>Check\<close> reports
  that no restore is needed: the database would be started on the torn dump.\<close>

theorem Redis_failed_recovery_not_retried:
  defines "src \<equiv> path_Join [RestoreDir, redisDumpFile]"
  assumes "attempt (os_Stat src) w = (Inr s, w1)" "\<not> isNotExist_result os_IsNotExist s" "RemoveContents datadir w1 = (Inr u, w2)"
    and "os_Open src w2 = (Inr i, w3)" "os_Create (path_Join [datadir, redisDumpFile]) w3 = (Inr o', w4)"
    and "io_Copy (file_Write o') (file_reader i) w4 = (Inl x, w5)"
    and "rooted datadir" "file_at (w_fs w2) (resolve src) = Some c" "\<not> prefix (resolve datadir) (resolve src)"
  shows "\<exists>w'. Redis_Recover datadir w = (Inl (ErrWrap ''unable to recover'' x), w') \<and>
    (\<exists>n. file_at (w_fs w') (resolve datadir @ [redisDumpFile]) = Some (take n c)) \<and>
    (\<forall>b v. Redis_Check datadir w' = (Inr b, v) \<longrightarrow> \<not> b)"
proof -
  let ?dst = "path_Join [datadir, redisDumpFile]"
  have rd: "resolve ?dst = resolve datadir @ [redisDumpFile]" using assms(8) redis_paths(3) by simp
  have ne: "resolve src \<noteq> resolve ?dst" using assms(10) unfolding rd by (metis prefixI)
  note o1 = os_Open_InrD [OF assms(5)] os_Open_nfd [OF assms(5)] and o2 = open_write_InrD [OF assms(6)]
  obtain t where t: "fs_get (w_fs w2) (resolve src) = Some (File c t)" using assms(9) by (auto simp: file_at_Some)
  obtain t2 where fs: "w_fs w4 = fs_put (resolve ?dst) (File [] t2) (w_fs w2)" using o1 o2(1) by auto
  have h: "w_fds w4 i = Some \<lparr>h_path = resolve src, h_off = 0, h_rd = True, h_wr = False\<rparr>"
    "w_fds w4 o' = Some \<lparr>h_path = resolve ?dst, h_off = 0, h_rd = True, h_wr = True\<rparr>" "i \<noteq> o'"
    using o1 o2 by auto
  have "resolve src \<noteq> []" using t by auto
  then have "fs_get (w_fs w4) (resolve src) = Some (File c t)" "fs_get (w_fs w4) (resolve ?dst) = Some (File [] t2)"
    using t ne o2(2) by (simp_all add: fs fs_get_put)
  then have torn: "\<not> unwinds x \<and> (\<exists>n t. fs_get (w_fs w5) (resolve ?dst) = Some (File (take n c) t))"
    using io_Copy_torn [OF assms(7) h(1) _ _ _ h(2) _ _ _ h(3)] by simp
  let ?w = "file_Close i (file_Close o' w5)"
  have copy: "Copy src ?dst w2 = (Inl x, ?w)"
    using assms(5-7) by (simp add: Copy_def bnd_run deferred_run)
  then have "Redis_Recover datadir w = (Inl (ErrWrap ''unable to recover'' x), ?w)"
    using assms(2-4) torn unfolding src_def by (simp add: Redis_Recover_def Let_def bnd_run wrapE_run)
  moreover have "\<exists>n. file_at (w_fs ?w) (resolve datadir @ [redisDumpFile]) = Some (take n c)"
    using torn unfolding rd by (auto simp: file_at_def)
  moreover have "\<not> b" if "Redis_Check datadir ?w = (Inr b, v)" for b v
  proof -
    have "redisDumpFile \<in> set (fs_names (w_fs ?w) (resolve datadir))" using torn unfolding rd by (auto simp: set_fs_names)
    then show ?thesis using redis_check.check_correct [OF that] by auto
  qed
  ultimately show ?thesis by blast
qed

text \<open>A disk that fails in the middle of the copy.\<close>

definition torn_copy :: "unit world" where
  "torn_copy = (calm a_dump ())\<lparr>w_fault := (\<lambda>t. if t = 6 then Some \<lparr>flt_errno = EIO, flt_part = 1, flt_sel = (\<lambda>_. False)\<rparr> else None)\<rparr>"

theorem Redis_failed_recovery_not_retried_witness:
  "\<exists>x w1 w2. Redis_Recover ''/data'' torn_copy = (Inl (ErrWrap ''unable to recover'' x), w1) \<and>
     file_at (w_fs w1) [''data'', ''dump.rdb''] = Some [1] \<and> Redis_Check ''/data'' w1 = (Inr False, w2)"
proof -
  let ?src = "path_Join [RestoreDir, redisDumpFile]" and ?dst = "path_Join [''/data'', redisDumpFile]"
  let ?a = "attempt (os_Stat ?src) torn_copy" let ?b = "RemoveContents ''/data'' (snd ?a)"
  let ?c = "os_Open ?src (snd ?b)" let ?d = "os_Create ?dst (snd ?c)"
  let ?e = "io_Copy (file_Write (projr (fst ?d))) (file_reader (projr (fst ?c))) (snd ?d)"
  have ok: "\<not> isl (fst ?a)" "\<not> isNotExist_result os_IsNotExist (projr (fst ?a))" "\<not> isl (fst ?b)" "\<not> isl (fst ?c)" "\<not> isl (fst ?d)" "isl (fst ?e)"
    by code_simp+
  have c: "file_at (w_fs (snd ?b)) (resolve ?src) = Some [1, 2]" "\<not> prefix (resolve ''/data'') (resolve ?src)" "rooted ''/data''" by code_simp+
  have eq: "(Inr (projr (fst p)), snd p) = p" if "\<not> isl (fst p)" for p :: "('q + 'r) \<times> 's" using that by (cases p; cases "fst p") auto
  have eqE: "(Inl (projl (fst p)), snd p) = p" if "isl (fst p)" for p :: "('q + 'r) \<times> 's" using that by (cases p; cases "fst p") auto
  obtain w1 where r: "Redis_Recover ''/data'' torn_copy = (Inl (ErrWrap ''unable to recover'' (projl (fst ?e))), w1)"
    and no: "\<And>b v. Redis_Check ''/data'' w1 = (Inr b, v) \<Longrightarrow> \<not> b"
    using Redis_failed_recovery_not_retried [OF eq [OF ok(1), symmetric] ok(2) eq [OF ok(3), symmetric] eq [OF ok(4), symmetric]
      eq [OF ok(5), symmetric] eqE [OF ok(6), symmetric] c(3,1,2)] by blast
  have "file_at (w_fs (snd (Redis_Recover ''/data'' torn_copy))) [''data'', ''dump.rdb''] = Some [1]"
    "\<not> isl (fst (Redis_Check ''/data'' (snd (Redis_Recover ''/data'' torn_copy))))" by code_simp+
  moreover from ran_ok [OF this(2)] r obtain b v where "Redis_Check ''/data'' w1 = (Inr b, v)" by auto
  ultimately show ?thesis using r no by fastforce
qed

end
