(* ===== verification/DbEtcd.thy ===== *)
theory DbEtcd
  imports Database
begin

text \<open>\<open>cmd/internal/database/etcd/etcd.go\<close>.  The programs \<open>etcdctl\<close> and \<open>etcdutl\<close> are run through
  the executor, a parameter.\<close>

definition etcdctlCommand :: string where "etcdctlCommand = ''etcdctl''"
definition etcdutlCommand :: string where "etcdutlCommand = ''etcdutl''"

record etcd =
  et_datadir :: string
  et_caCert :: string
  et_cert :: string
  et_key :: string
  et_endpoints :: string
  et_name :: string

definition Etcd_New :: "string \<Rightarrow> string \<Rightarrow> string \<Rightarrow> string \<Rightarrow> string \<Rightarrow> string \<Rightarrow> etcd" where
  "Etcd_New datadir caCert cert key endpoints name =
     \<lparr>et_datadir = datadir, et_caCert = caCert, et_cert = cert, et_key = key, et_endpoints = endpoints, et_name = name\<rparr>"

definition Etcd_connectionArgs :: "etcd \<Rightarrow> string list" where
  "Etcd_connectionArgs db =
     (if et_endpoints db \<noteq> '''' then [''--endpoints'', et_endpoints db] else []) @
     (if et_caCert db \<noteq> '''' then [''--cacert'', et_caCert db] else []) @
     (if et_cert db \<noteq> '''' then [''--cert'', et_cert db] else []) @
     (if et_key db \<noteq> '''' then [''--key'', et_key db] else []) @
     [''--dial-timeout=10s'', ''--command-timeout=30s'']"

definition etcdctl ::
  "('x, 'm) world_scheme exec \<Rightarrow> etcd \<Rightarrow> bool \<Rightarrow> string list \<Rightarrow> (('x, 'm) world_scheme, string \<times> err option) go" where
  "etcdctl xe db withConnectionArgs args =
     bnd (ExecuteCommandWithOutput xe etcdctlCommand []
        (args @ (if withConnectionArgs then Etcd_connectionArgs db else []))) (\<lambda>(out, e).
     ret (out, case e of None \<Rightarrow> None | Some _ \<Rightarrow> Some (ErrText (''error running etcdctl command: '' @ out))))"

definition etcdutl ::
  "('x, 'm) world_scheme exec \<Rightarrow> etcd \<Rightarrow> string list \<Rightarrow> (('x, 'm) world_scheme, string \<times> err option) go" where
  "etcdutl xe db args =
     bnd (ExecuteCommandWithOutput xe etcdutlCommand [] args) (\<lambda>(out, e).
     ret (out, case e of None \<Rightarrow> None | Some _ \<Rightarrow> Some (ErrText (''error running etcdutl command: '' @ out))))"

definition Etcd_Check :: "etcd \<Rightarrow> (('x, 'm) world_scheme, bool) go" where
  "Etcd_Check db = bnd (IsEmpty (et_datadir db)) (\<lambda>empty. if empty then ret True else ret False)"

definition snapshotFile :: "string \<Rightarrow> string" where
  "snapshotFile d = path_Join [d, ''snapshot.db'']"

definition Etcd_Backup :: "('x, 'm) world_scheme exec \<Rightarrow> etcd \<Rightarrow> (('x, 'm) world_scheme, unit) go" where
  "Etcd_Backup xe db =
     (let snapshotFileName = snapshotFile BackupDir in
      bnd (wrapE ''could not clean backup directory'' (os_RemoveAll BackupDir)) (\<lambda>_.
      bnd (wrapE ''could not create backup directory'' (os_MkdirAll BackupDir)) (\<lambda>_.
      bnd (etcdctl xe db True [''snapshot'', ''save'', snapshotFileName]) (\<lambda>(out, e).
      if e \<noteq> None then fail (ErrText (''error running backup command: '' @ out)) else
      bnd (attempt (os_Stat snapshotFileName)) (\<lambda>s.
      if isNotExist_result os_IsNotExist s then fail (ErrText (''backup file was not created: '' @ snapshotFileName)) else
      bnd (etcdctl xe db False [''snapshot'', ''status'', ''--write-out'', ''json'', snapshotFileName]) (\<lambda>(out, e).
      if e \<noteq> None then fail (ErrText (''backup was not created correct: '' @ out)) else ret ()))))))"

definition Etcd_Recover :: "('x, 'm) world_scheme exec \<Rightarrow> etcd \<Rightarrow> (('x, 'm) world_scheme, unit) go" where
  "Etcd_Recover xe db =
     (let snapshotFileName = snapshotFile RestoreDir in
      bnd (attempt (os_Stat snapshotFileName)) (\<lambda>s.
      if isNotExist_result os_IsNotExist s then fail (ErrText (''restore file is not present: '' @ snapshotFileName)) else
      bnd (etcdutl xe db [''snapshot'', ''status'', ''--write-out'', ''json'', snapshotFileName]) (\<lambda>(out, e).
      if e \<noteq> None then fail (ErrText (''restored backup file was not created correct: '' @ out)) else
      bnd (wrapE ''could not clean database data directory'' (RemoveContents (et_datadir db))) (\<lambda>_.
      bnd (wrapE ''could not remove database data directory'' (os_Remove (et_datadir db))) (\<lambda>_.
      bnd (etcdutl xe db [''snapshot'', ''restore'', ''--data-dir'', et_datadir db, snapshotFileName]) (\<lambda>(out, e).
      case e of
        Some x \<Rightarrow> fail (ErrWrap ''unable to restore:'' x)
      | None \<Rightarrow> wrapE ''could not remove snapshot'' (os_RemoveAll snapshotFileName)))))))"

definition Etcd_Probe :: "('x, 'm) world_scheme exec \<Rightarrow> etcd \<Rightarrow> (('x, 'm) world_scheme, unit) go" where
  "Etcd_Probe xe db =
     bnd (etcdctl xe db True [''get'', ''foo'']) (\<lambda>(out, e). case e of
       Some x \<Rightarrow> fail (ErrWrap (''unable to retrieve key:'' @ out) x)
     | None \<Rightarrow> ret ())"

definition Etcd_Upgrade :: "('w, unit) go" where
  "Etcd_Upgrade = ret ()"

definition etcd_db :: "('x, 'm) world_scheme exec \<Rightarrow> etcd \<Rightarrow> ('x, 'm) world_scheme database" where
  "etcd_db xe db = \<lparr>db_Check = Etcd_Check db, db_Recover = Etcd_Recover xe db,
     db_Upgrade = Etcd_Upgrade, db_Probe = Etcd_Probe xe db, db_Backup = Etcd_Backup xe db\<rparr>"

interpretation etcd_check: restore_check "Etcd_Check db" "et_datadir db" for db
  by unfold_locales (unfold Etcd_Check_def, rule Check_by_IsEmpty)

section \<open>Properties\<close>

lemma same_etcdutl: "(\<And>c. same g (look_path xe c)) \<Longrightarrow> (\<And>p en a. same g (run_cmd xe p en a)) \<Longrightarrow> same g (etcdutl xe db args)"
  unfolding etcdutl_def ExecuteCommandWithOutput_def by (intro keeps) auto

text \<open>What the code relies on: \<open>etcdutl snapshot status\<close> only reads, finding a program on the path changes nothing, and
  a run of a program gives its output and its error; anything else is a panic.\<close>

definition etcd_env :: "('x, 'm) world_scheme exec \<Rightarrow> fpath \<Rightarrow> bool" where
  "etcd_env xe d \<longleftrightarrow> (\<forall>q c. strict_prefix d q \<longrightarrow> keeps (absent q) (look_path xe c)) \<and>
     (\<forall>q p en a. strict_prefix d q \<longrightarrow> take 2 a = [''snapshot'', ''status''] \<longrightarrow> keeps (absent q) (run_cmd xe p en a)) \<and>
     (\<forall>p en a w e w'. run_cmd xe p en a w = (Inl e, w') \<longrightarrow> unwinds e)"

definition restore_args :: "etcd \<Rightarrow> string list" where
  "restore_args db = [''snapshot'', ''restore'', ''--data-dir'', et_datadir db, snapshotFile RestoreDir]"

lemma etcdutl_cases:
  assumes "etcdutl xe db args w = (r, w')"
  obtains e where "look_path xe etcdutlCommand w = (Inl e, w')" "unwinds e" "r = Inl e"
  | e where "look_path xe etcdutlCommand w = (Inl e, w')" "\<not> unwinds e" "\<exists>out x. r = Inr (out, Some x)"
  | p w1 e where "look_path xe etcdutlCommand w = (Inr p, w1)" "run_cmd xe p [] args w1 = (Inl e, w')" "r = Inl e"
  | p w1 out e where "look_path xe etcdutlCommand w = (Inr p, w1)" "run_cmd xe p [] args w1 = (Inr (out, e), w')"
      "r = Inr (strings_TrimSpace out, map_option (\<lambda>_. ErrText (''error running etcdutl command: '' @ strings_TrimSpace out)) e)"
  using assms that unfolding etcdutl_def ExecuteCommandWithOutput_def
  by (auto simp: bnd_run attempt_run ret_run option.map_comp split: sum.splits prod.splits option.splits if_splits)

text \<open>C25: a recovery of etcd into an empty data directory that fails and does not panic.  If it failed
  before the snapshot was restored, the data directory is still empty, and the next start asks for the restore
  again.  If \<open>etcdutl snapshot restore\<close> itself failed, the recovery ends as it left the disk: nothing is
  cleaned up, and if it left anything in the data directory (it writes the database before it verifies it), the
  next \<open>Check\<close> asks for no restore.  The one other failure is that of removing the snapshot in the end.\<close>

theorem Etcd_failed_recovery:
  assumes "etcd_env xe (resolve (et_datadir db))" "nothing_below (et_datadir db) w"
    and "Etcd_Recover xe db w = (Inl e, w')" "\<not> unwinds e" "\<And>x. e \<noteq> ErrWrap ''could not remove snapshot'' x"
  shows "((\<forall>x. e \<noteq> ErrWrap ''unable to restore:'' x) \<longrightarrow>
      (\<forall>w1 b w2. os_MkdirAll (et_datadir db) w' = (Inr (), w1) \<longrightarrow> Etcd_Check db w1 = (Inr b, w2) \<longrightarrow> b)) \<and>
    ((\<exists>x. e = ErrWrap ''unable to restore:'' x) \<longrightarrow>
      (\<exists>v. nothing_below (et_datadir db) v \<and> ((\<exists>x. look_path xe etcdutlCommand v = (Inl x, w')) \<or>
         (\<exists>p v' out x. look_path xe etcdutlCommand v = (Inr p, v') \<and> run_cmd xe p [] (restore_args db) v' = (Inr (out, Some x), w')))) \<and>
      (\<forall>n b w1. fs_get (w_fs w') (resolve (et_datadir db) @ [n]) \<noteq> None \<longrightarrow> Etcd_Check db w' = (Inr b, w1) \<longrightarrow> \<not> b))"
proof -
  let ?d = "et_datadir db" and ?s = "snapshotFile RestoreDir"
  let ?st = "[''snapshot'', ''status'', ''--write-out'', ''json'', ?s]"
  have os: "keeps (nothing_below ?d) (attempt (os_Stat ?s :: (('a, 'b) world_scheme, node) go))"
    "keeps (nothing_below ?d) (wrapE t (RemoveContents ?d) :: (('a, 'b) world_scheme, unit) go)"
    "keeps (nothing_below ?d) (wrapE t (os_Remove ?d) :: (('a, 'b) world_scheme, unit) go)" for t
    by (intro keeps_nothing_below keeps)+
  have status: "keeps (nothing_below ?d) (etcdutl xe db ?st)"
    using assms(1) unfolding etcdutl_def ExecuteCommandWithOutput_def etcd_env_def
    by (intro keeps_nothing_below keeps_bnd keeps_attempt keeps_sum keeps_prod keeps_ret) auto
  have restore: "\<exists>v. nothing_below ?d v \<and> ((\<exists>x. look_path xe etcdutlCommand v = (Inl x, v')) \<or>
      (\<exists>p u out x. look_path xe etcdutlCommand v = (Inr p, u) \<and> run_cmd xe p [] (restore_args db) u = (Inr (out, Some x), v')))"
    if "nothing_below ?d v" "etcdutl xe db (restore_args db) v = (Inr (out, Some x), v')" for v v' out x
    using that(2) by (cases rule: etcdutl_cases) (use that(1) in auto)
  have cmd: "unwinds x" if "run_cmd xe p en a v = (Inl x, v')" for p en a x v v'
    using assms(1) that unfolding etcd_env_def by blast
  have panic: "unwinds x" if "etcdutl xe db args v = (Inl x, v')" for args x v v'
    using that by (cases rule: etcdutl_cases) (auto dest: cmd)
  let ?E = "\<lambda>v'. \<exists>v. nothing_below ?d v \<and> ((\<exists>x. look_path xe etcdutlCommand v = (Inl x, v')) \<or>
      (\<exists>p u out x. look_path xe etcdutlCommand v = (Inr p, u) \<and> run_cmd xe p [] (restore_args db) u = (Inr (out, Some x), v')))"
  have last: "(\<exists>x. e = ErrWrap ''unable to restore:'' x) \<and> ?E w'"
    if "nothing_below ?d v" "bnd (etcdutl xe db (restore_args db)) (\<lambda>(out, e). case e of
        Some x \<Rightarrow> fail (ErrWrap ''unable to restore:'' x)
      | None \<Rightarrow> wrapE ''could not remove snapshot'' (os_RemoveAll ?s)) v = (Inl e, w')" for v :: "('a, 'b) world_scheme"
  proof -
    obtain r v' where r: "etcdutl xe db (restore_args db) v = (r, v')" by fastforce
    show ?thesis
    proof (cases r)
      case (Inl x)
      then show ?thesis using that(2) r panic [of "restore_args db" v x v'] assms(4) by (simp add: bnd_run)
    next
      case (Inr oe)
      obtain out y where oe: "oe = (out, y)" by fastforce
      show ?thesis
      proof (cases y)
        case None
        then have "wrapE ''could not remove snapshot'' (os_RemoveAll ?s) v' = (Inl e, w')" using that(2) r Inr oe by (simp add: bnd_run)
        then obtain x where x: "os_RemoveAll ?s v' = (Inl x, w')" "e = (if unwinds x then x else ErrWrap ''could not remove snapshot'' x)"
          unfolding wrapE_eq_Inl by blast
        show ?thesis using os_RemoveAll_Inl [OF x(1)] x(2) assms(5) by simp
      next
        case (Some x)
        then have "e = ErrWrap ''unable to restore:'' x" "w' = v'" using that(2) r Inr oe by (auto simp: bnd_run fail_run)
        then show ?thesis using restore [OF that(1), of out x v'] r Inr oe Some by auto
      qed
    qed
  qed
  have wrapped: "y \<noteq> ErrWrap ''unable to restore:'' x" if "wrapE t m v = (Inl y, v')" "\<not> unwinds y" "t \<noteq> ''unable to restore:''"
    for t and m :: "(('a, 'b) world_scheme, unit) go" and v y v' x
    using that by (auto simp: wrapE_eq_Inl split: if_splits)
  have first: "nothing_below ?d w' \<and> (\<forall>x. e \<noteq> ErrWrap ''unable to restore:'' x) \<or>
      (\<exists>x. e = ErrWrap ''unable to restore:'' x) \<and> ?E w'"
  proof -
    let ?c = "wrapE ''could not clean database data directory'' (RemoveContents ?d) :: (('a, 'b) world_scheme, unit) go"
    let ?m = "wrapE ''could not remove database data directory'' (os_Remove ?d) :: (('a, 'b) world_scheme, unit) go"
    obtain s w1 where A: "attempt (os_Stat ?s) w = (s, w1)" by fastforce
    obtain r2 w2 where B: "etcdutl xe db ?st w1 = (r2, w2)" by fastforce
    obtain r3 w3 where C: "?c w2 = (r3, w3)" by fastforce
    obtain r4 w4 where D: "?m w3 = (r4, w4)" by fastforce
    note n1 = keepsD [OF os(1) A assms(2)]
    note n2 = keepsD [OF status B n1] note n3 = keepsD [OF os(2) C n2] note n4 = keepsD [OF os(3) D n3]
    have run: "(case s of Inl x \<Rightarrow> (Inl x, w1) | Inr n \<Rightarrow>
        if isNotExist_result os_IsNotExist n then (Inl (ErrText (''restore file is not present: '' @ ?s)), w1) else
        case r2 of Inl x \<Rightarrow> (Inl x, w2) | Inr oe \<Rightarrow>
        if snd oe \<noteq> None then (Inl (ErrText (''restored backup file was not created correct: '' @ fst oe)), w2) else
        case r3 of Inl x \<Rightarrow> (Inl x, w3) | Inr u \<Rightarrow>
        case r4 of Inl x \<Rightarrow> (Inl x, w4) | Inr u \<Rightarrow> bnd (etcdutl xe db (restore_args db)) (\<lambda>(out, e). case e of
            Some x \<Rightarrow> fail (ErrWrap ''unable to restore:'' x)
          | None \<Rightarrow> wrapE ''could not remove snapshot'' (os_RemoveAll ?s)) w4) = (Inl e, w')"
      using assms(3) A B C D unfolding Etcd_Recover_def Let_def restore_args_def [symmetric]
      by (cases s; cases r2; cases r3; cases r4)
        (simp_all add: bnd_run [of "attempt _"] bnd_run [of "etcdutl xe db ?st"] bnd_run [of "wrapE _ _"] fail_run split_beta
          split: if_splits del: bnd_run)
    show ?thesis
    proof (cases s)
      case (Inl x)
      then show ?thesis using run A assms(4) by (simp add: attempt_eq_Inl)
    next
      case s: (Inr n)
      show ?thesis
      proof (cases "isNotExist_result os_IsNotExist n")
        case True
        then show ?thesis using run s n1 by auto
      next
        case False
        note run = run [unfolded s sum.case if_not_P [OF False]]
        show ?thesis
        proof (cases r2)
          case (Inl x)
          then show ?thesis using run panic [OF B [unfolded Inl]] assms(4) by simp
        next
          case r2: (Inr oe)
          note run = run [unfolded r2 sum.case]
          show ?thesis
          proof (cases "snd oe \<noteq> None")
            case True
            then show ?thesis using run n2 by auto
          next
            case False
            note run = run [unfolded if_not_P [OF False]]
            show ?thesis
            proof (cases r3)
              case (Inl x)
              then show ?thesis using run wrapped [OF C [unfolded Inl]] n3 assms(4) by simp
            next
              case r3: (Inr u)
              show ?thesis
              proof (cases r4)
                case (Inl x)
                then show ?thesis using run r3 wrapped [OF D [unfolded Inl]] n4 assms(4) by simp
              next
                case (Inr u')
                then show ?thesis using run r3 by (intro disjI2 last [OF n4]) simp
              qed
            qed
          qed
        qed
      qed
    qed
  qed
  have torn: "\<not> b" if "fs_get (w_fs w') (resolve ?d @ [n]) \<noteq> None" "Etcd_Check db w' = (Inr b, w1)" for n b w1
  proof -
    have "n \<in> set (fs_names (w_fs w') (resolve ?d))" using that(1) by (simp add: set_fs_names)
    then show ?thesis using etcd_check.check_correct [OF that(2)] by auto
  qed
  have again: "b" if "nothing_below ?d w'" "os_MkdirAll ?d w' = (Inr (), w1)" "Etcd_Check db w1 = (Inr b, w2)" for w1 w2 b
    by (rule next_Check [OF that(1,2) that(3) [unfolded Etcd_Check_def]])
  from first show ?thesis
  proof (elim disjE)
    assume n: "nothing_below ?d w' \<and> (\<forall>x. e \<noteq> ErrWrap ''unable to restore:'' x)"
    show ?thesis by (intro conjI impI allI) (use n again in \<open>blast+\<close>)
  next
    assume r: "(\<exists>x. e = ErrWrap ''unable to restore:'' x) \<and> ?E w'"
    show ?thesis
    proof (intro conjI impI allI notI)
      show "?E w'" using r by blast
    qed (use r torn in \<open>blast+\<close>)
  qed
qed

text \<open>\<open>etcdutl\<close> finds a snapshot in order, writes the database and then fails on its hash.\<close>

definition torn_restore :: "('x, 'm) world_scheme exec" where
  "torn_restore = \<lparr>look_path = (\<lambda>c. ret c),
     run_cmd = (\<lambda>p en a. if take 2 a = [''snapshot'', ''status''] then ret (''{}'', None)
       else bnd (upd (\<lambda>w. set_fs (fs_put [''data'', ''member''] (Dir 0) (fs_put [''data''] (Dir 0) (w_fs w))) w))
         (\<lambda>_. ret (''expected sha256'', Some (ErrText ''exit status 1''))))\<rparr>"

definition an_etcd :: etcd where
  "an_etcd = Etcd_New ''/data'' '''' '''' '''' '''' ''''"

definition a_snapshot :: "unit world" where
  "a_snapshot = calm [([''data''], Dir 0), ([''backup''], Dir 0), ([''backup'', ''restore''], Dir 0),
     ([''backup'', ''restore'', ''files''], Dir 0), ([''backup'', ''restore'', ''files'', ''snapshot.db''], File [1, 2] 0)] ()"

theorem Etcd_failed_recovery_witness:
  "\<exists>x w' w1. Etcd_Recover torn_restore an_etcd a_snapshot = (Inl (ErrWrap ''unable to restore:'' x), w') \<and>
     Etcd_Check an_etcd w' = (Inr False, w1)"
proof -
  let ?r = "Etcd_Recover torn_restore an_etcd a_snapshot"
  have c: "case fst ?r of Inl (ErrWrap t x) \<Rightarrow> t = ''unable to restore:'' \<and> \<not> unwinds (ErrWrap t x) | _ \<Rightarrow> False"
    "fs_get (w_fs (snd ?r)) ([''data''] @ [''member'']) \<noteq> None" "\<not> isl (fst (Etcd_Check an_etcd (snd ?r)))" by code_simp+
  obtain x w' where r: "?r = (Inl (ErrWrap ''unable to restore:'' x), w')" and u: "\<not> unwinds (ErrWrap ''unable to restore:'' x)"
    using c(1) by (cases ?r; cases "fst ?r") (auto split: err.splits)
  obtain b w1 where k: "Etcd_Check an_etcd w' = (Inr b, w1)" using ran_ok [OF c(3)] r by auto
  have d: "et_datadir an_etcd = ''/data''" "resolve ''/data'' = [''data'']" by code_simp+
  have env: "etcd_env (torn_restore :: unit world exec) (resolve (et_datadir an_etcd))"
    by (auto simp: etcd_env_def torn_restore_def ret_def keeps_def bnd_run upd_run)
  have "nothing_below (et_datadir an_etcd) a_snapshot"
    by (auto simp: nothing_below_def d absent_def a_snapshot_def fs_get_def)
  from Etcd_failed_recovery [OF env this r u] have "\<not> b" using k c(2) r unfolding d by auto
  then show ?thesis using r k by auto
qed

end
