(* ===== verification/DbRethink.thy ===== *)
theory DbRethink
  imports Database ProbeWait
begin

text \<open>
  \<open>cmd/internal/database/rethinkdb/rethinkdb.go\<close>.  Parameters: the executor, the database driver,
  and the server process that a recovery runs beside itself (its start, the terminating signal,
  the kill by the cancelled context, and the wait for its end).  What the process does to the world
  happens within these calls and those of the driver; once it was waited for it does nothing.
\<close>

definition rethinkDBDumpCmd :: string where "rethinkDBDumpCmd = ''rethinkdb-dump''"
definition rethinkDBRestoreCmd :: string where "rethinkDBRestoreCmd = ''rethinkdb-restore''"
definition rethinkDBBackupFilePath :: string where "rethinkDBBackupFilePath = path_Join [BackupDir, ''rethinkdb'']"
definition rethinkDBRestoreFilePath :: string where "rethinkDBRestoreFilePath = path_Join [RestoreDir, ''rethinkdb'']"

record rethinkdb =
  rt_datadir :: string
  rt_url :: string
  rt_passwordFile :: string

definition RethinkDB_New :: "string \<Rightarrow> string \<Rightarrow> string \<Rightarrow> rethinkdb" where
  "RethinkDB_New datadir url passwordFile = \<lparr>rt_datadir = datadir, rt_url = url, rt_passwordFile = passwordFile\<rparr>"

record 'w rethink_driver =
  rq_Connect :: "string \<Rightarrow> string \<Rightarrow> ('w, nat) go"
  rq_server_status :: "nat \<Rightarrow> ('w, unit) go"

record 'w rethink_server =
  rs_run :: "string list \<Rightarrow> 'w \<Rightarrow> 'w"
  rs_Signal :: "('w, unit) go"
  rs_cancel :: "'w \<Rightarrow> 'w"
  rs_Wait :: "'w \<Rightarrow> err option \<times> 'w"

definition RethinkDB_Check :: "rethinkdb \<Rightarrow> (('x, 'm) world_scheme, bool) go" where
  "RethinkDB_Check db = bnd (IsEmpty (rt_datadir db)) (\<lambda>empty. if empty then ret True else ret False)"

definition RethinkDB_Backup :: "('x, 'm) world_scheme exec \<Rightarrow> rethinkdb \<Rightarrow> (('x, 'm) world_scheme, unit) go" where
  "RethinkDB_Backup xe db =
     bnd (wrapE ''could not clean backup directory'' (os_RemoveAll BackupDir)) (\<lambda>_.
     bnd (wrapE ''could not create backup directory'' (os_MkdirAll BackupDir)) (\<lambda>_.
     let args = [''-f'', rethinkDBBackupFilePath] @
       (if rt_passwordFile db \<noteq> '''' then [''--password-file='' @ rt_passwordFile db] else []) @
       (if rt_url db \<noteq> '''' then [''--connect='' @ rt_url db] else []) in
     bnd (ExecuteCommandWithOutput xe rethinkDBDumpCmd [] args) (\<lambda>(out, e).
     case e of
       Some x \<Rightarrow> fail (ErrWrap ''error running backup command'' x)
     | None \<Rightarrow>
       if strings_Contains out ''0 rows exported from 0 tables, with 0 secondary indexes, and 0 hook functions''
       then fail (ErrText ''the database is empty, taking a backup is not yet possible'')
       else bnd (attempt (os_Stat rethinkDBBackupFilePath)) (\<lambda>s.
         if isNotExist_result os_IsNotExist s
         then fail (ErrText (''backup file was not created: '' @ rethinkDBBackupFilePath)) else ret ()))))"

definition RethinkDB_Probe ::
  "('x, 'm) world_scheme rethink_driver \<Rightarrow> rethinkdb \<Rightarrow> (('x, 'm) world_scheme, unit) go" where
  "RethinkDB_Probe dr db =
     bnd (wrapE (''unable to read rethinkdb password file at '' @ rt_passwordFile db) (os_ReadFile (rt_passwordFile db))) (\<lambda>raw.
     bnd (wrapE ''cannot create rethinkdb client'' (rq_Connect dr (rt_url db) (strings_TrimSpace (bytes_string raw)))) (\<lambda>session.
     wrapE ''error retrieving rethinkdb server status'' (rq_server_status dr session)))"

definition server_Wait :: "'w rethink_server \<Rightarrow> ('w, err option) go" where
  "server_Wait sv = (\<lambda>w. case rs_Wait sv w of (e, w') \<Rightarrow> (Inr e, w'))"

text \<open>Any recovery error after the server was started goes through here.\<close>

definition handleFailedRecovery ::
  "('x, 'm) world_scheme rethink_server \<Rightarrow> rethinkdb \<Rightarrow> err \<Rightarrow> (('x, 'm) world_scheme, unit) go" where
  "handleFailedRecovery sv db restoreErr =
     bnd (upd (rs_cancel sv)) (\<lambda>_.
     bnd (server_Wait sv) (\<lambda>_.
     bnd (attempt (os_RemoveAll (rt_datadir db))) (\<lambda>_.
     fail restoreErr)))"

text \<open>The end of a recovery that has restored the data: the server is asked to stop, and killed if
  the signal cannot be sent.\<close>

definition stop_server :: "('x, 'm) world_scheme rethink_server \<Rightarrow> (('x, 'm) world_scheme, unit) go" where
  "stop_server sv =
     bnd (attempt (rs_Signal sv)) (\<lambda>r.
     bnd (case r of Inl _ \<Rightarrow> upd (rs_cancel sv) | Inr _ \<Rightarrow> ret ()) (\<lambda>_.
     bnd (server_Wait sv) (\<lambda>_. ret ())))"

text \<open>What happens once the server was started.\<close>

definition restore_running ::
  "('x, 'm) world_scheme exec \<Rightarrow> ('x, 'm) world_scheme rethink_driver \<Rightarrow> ('x, 'm) world_scheme rethink_server \<Rightarrow>
   event list \<Rightarrow> rethinkdb \<Rightarrow> (('x, 'm) world_scheme, unit) go" where
  "restore_running xe dr sv evs db =
     (let restoreDB = RethinkDB_New (rt_datadir db) ''localhost:1'' (rt_passwordFile db);
          args = (if rt_url db \<noteq> '''' then [''--connect='' @ rt_url restoreDB] else []) @
           (if rt_passwordFile db \<noteq> '''' then [''--password-file='' @ rt_passwordFile db] else []) @
           [rethinkDBRestoreFilePath] in
       bnd (attempt (probe_Start evs (RethinkDB_Probe dr restoreDB))) (\<lambda>p. case p of
         Inl e \<Rightarrow> handleFailedRecovery sv db (ErrWrap ''rethinkdb did not come up'' e)
       | Inr _ \<Rightarrow>
         bnd (ExecuteCommandWithOutput xe rethinkDBRestoreCmd [] args) (\<lambda>(out, e). case e of
           Some x \<Rightarrow> handleFailedRecovery sv db (ErrWrap ''error running restore command'' x)
         | None \<Rightarrow> stop_server sv)))"

definition RethinkDB_Recover ::
  "('x, 'm) world_scheme exec \<Rightarrow> ('x, 'm) world_scheme rethink_driver \<Rightarrow> ('x, 'm) world_scheme rethink_server \<Rightarrow>
   event list \<Rightarrow> rethinkdb \<Rightarrow> (('x, 'm) world_scheme, unit) go" where
  "RethinkDB_Recover xe dr sv evs db =
     bnd (attempt (os_Stat rethinkDBRestoreFilePath)) (\<lambda>s.
     if isNotExist_result os_IsNotExist s
     then fail (ErrText (''restore file not present: '' @ rethinkDBRestoreFilePath)) else
     bnd (wrapE (''unable to read rethinkdb password file at '' @ rt_passwordFile db) (os_ReadFile (rt_passwordFile db))) (\<lambda>raw.
     deferred (rs_cancel sv)
       (bnd (upd (rs_run sv [''--bind'', ''all'', ''--driver-port'', ''1'', ''--directory'', rt_datadir db,
          ''--initial-password'', strings_TrimSpace (bytes_string raw)])) (\<lambda>_.
        restore_running xe dr sv evs db))))"

definition RethinkDB_Upgrade :: "('w, unit) go" where
  "RethinkDB_Upgrade = ret ()"

definition rethink_db ::
  "('x, 'm) world_scheme exec \<Rightarrow> ('x, 'm) world_scheme rethink_driver \<Rightarrow> ('x, 'm) world_scheme rethink_server \<Rightarrow>
   event list \<Rightarrow> rethinkdb \<Rightarrow> ('x, 'm) world_scheme database" where
  "rethink_db xe dr sv evs db = \<lparr>db_Check = RethinkDB_Check db, db_Recover = RethinkDB_Recover xe dr sv evs db,
     db_Upgrade = RethinkDB_Upgrade, db_Probe = RethinkDB_Probe dr db, db_Backup = RethinkDB_Backup xe db\<rparr>"

interpretation rethink_check: restore_check "RethinkDB_Check db" "rt_datadir db" for db
  by unfold_locales (unfold RethinkDB_Check_def, rule Check_by_IsEmpty)

section \<open>Properties\<close>

text \<open>What the code relies on: cancelling a context writes no files and makes no calls, and a run of a program gives
  its output and its error; anything else is a panic.  Which calls of the sidecar fail is not up to the server, the
  driver and the programs.\<close>

definition rethink_env ::
  "('x, 'm) world_scheme exec \<Rightarrow> ('x, 'm) world_scheme rethink_driver \<Rightarrow> ('x, 'm) world_scheme rethink_server \<Rightarrow> bool" where
  "rethink_env xe dr sv \<longleftrightarrow> (\<forall>w. w_fs (rs_cancel sv w) = w_fs w \<and> w_tick (rs_cancel sv w) = w_tick w) \<and>
     (\<forall>p en a w e w'. run_cmd xe p en a w = (Inl e, w') \<longrightarrow> unwinds e) \<and>
     (\<forall>c. same w_fault (look_path xe c)) \<and> (\<forall>p en a. same w_fault (run_cmd xe p en a)) \<and>
     (\<forall>u k. same w_fault (rq_Connect dr u k)) \<and> (\<forall>c. same w_fault (rq_server_status dr c)) \<and>
     (\<forall>a w. w_fault (rs_run sv a w) = w_fault w) \<and> (\<forall>w. w_fault (rs_cancel sv w) = w_fault w) \<and>
     (\<forall>w. w_fault (snd (rs_Wait sv w)) = w_fault w)"

text \<open>The removal of the data directory, the last call of the sidecar, has failed.\<close>

definition removal_failed :: "string \<Rightarrow> (nat \<Rightarrow> fault option) \<Rightarrow> ('x, 'm) world_scheme \<Rightarrow> bool" where
  "removal_failed d flt w \<longleftrightarrow> (\<exists>t. Suc t = w_tick w \<and> flt t \<noteq> None) \<or> fs_walk (w_fs w) [] (resolve d) = Some ENOTDIR"

lemma removal_failed: "os_RemoveAll d w = (Inl e, w') \<Longrightarrow> removal_failed d (w_fault w) w'"
  by (auto simp: removal_failed_def os_RemoveAll_def sys_def Let_def ret_def set_fs_def split: option.splits if_splits)

lemma handleFailedRecovery_Inl:
  assumes "handleFailedRecovery sv db x w = (Inl e, w')" "rt_datadir db \<noteq> ''''" "rethink_env xe dr sv"
  shows "(\<forall>q. q \<noteq> [] \<longrightarrow> prefix (resolve (rt_datadir db)) q \<longrightarrow> absent q w') \<or> removal_failed (rt_datadir db) (w_fault w) w'"
proof -
  let ?v = "snd (rs_Wait sv (rs_cancel sv w))"
  have flt: "w_fault ?v = w_fault w" using assms(3) by (simp add: rethink_env_def)
  show ?thesis
  proof (cases "os_RemoveAll (rt_datadir db) ?v")
    case (Pair r v')
    have "w' = v'"
      using assms(1) Pair os_RemoveAll_Inl [of "rt_datadir db" ?v]
      by (auto simp: handleFailedRecovery_def server_Wait_def run split: prod.splits sum.splits if_splits)
    then show ?thesis
      using Pair os_RemoveAll_InrD [of "rt_datadir db" ?v _ v'] removal_failed [of "rt_datadir db" ?v _ v'] assms(2) flt
      by (cases r) (auto simp: absent_def fs_get_drop)
  qed
qed

text \<open>A deferred function and a test of the result do not hide what came before.\<close>

lemma exec_Inl: "rethink_env xe dr sv \<Longrightarrow> ExecuteCommandWithOutput xe c en a w = (Inl e, w') \<Longrightarrow>
  unwinds e"
proof -
  assume env: "rethink_env xe dr sv" and run: "ExecuteCommandWithOutput xe c en a w = (Inl e, w')"
  obtain r w1 where l: "attempt (look_path xe c) w = (r, w1)" by fastforce
  show "unwinds e"
  proof (cases r)
    case (Inl x)
    then show ?thesis using run l by (simp add: ExecuteCommandWithOutput_def bnd_run attempt_eq_Inl)
  next
    case (Inr p)
    have cmd: "run_cmd xe q en a v = (Inl e, v') \<Longrightarrow> unwinds e" for q v v'
      using env unfolding rethink_env_def by blast
    show ?thesis using run l Inr
      by (cases p) (auto simp: ExecuteCommandWithOutput_def bnd_run ret_run split: prod.splits sum.splits dest: cmd)
  qed
qed

lemma stop_server_Inl: "stop_server sv w = (Inl e, w') \<Longrightarrow> unwinds e"
proof -
  assume s: "stop_server sv w = (Inl e, w')"
  obtain r w1 where 1: "attempt (rs_Signal sv) w = (r, w1)" by fastforce
  show "unwinds e"
  proof (cases r)
    case (Inl x)
    then show ?thesis using s 1 by (simp add: stop_server_def bnd_run attempt_eq_Inl)
  next
    case (Inr x)
    then show ?thesis using s 1
      by (cases x) (simp_all add: stop_server_def bnd_run server_Wait_def upd_run ret_run split_beta)
  qed
qed

lemma running_Inl:
  fixes w :: "('x, 'm) world_scheme"
  assumes "rethink_env xe dr sv" "restore_running xe dr sv evs db w = (Inl e, w')" "\<not> unwinds e" "rt_datadir db \<noteq> ''''"
  shows "(\<forall>q. q \<noteq> [] \<longrightarrow> prefix (resolve (rt_datadir db)) q \<longrightarrow> absent q w') \<or> removal_failed (rt_datadir db) (w_fault w) w'"
proof -
  have "\<exists>x v. w_fault v = w_fault w \<and> handleFailedRecovery sv db x v = (Inl e, w')"
  proof -
    note env = assms(1) [unfolded rethink_env_def]
    have rd: "same w_fault (os_ReadFile f :: (('x, 'm) world_scheme, byte list) go)" for f by (intro keeps)
    have sp: "same w_fault (attempt (probe_Start evs (RethinkDB_Probe dr d)))" for d
      unfolding RethinkDB_Probe_def by (intro same_attempt same_probe_Start same_bnd same_wrapE rd) (use env in blast)+
    have sx: "same w_fault (ExecuteCommandWithOutput xe c en a)" for c en a
      unfolding ExecuteCommandWithOutput_def by (intro same_bnd same_attempt same_sum same_prod same_ret) (use env in blast)+
    let ?db = "RethinkDB_New (rt_datadir db) ''localhost:1'' (rt_passwordFile db)"
    obtain p v where p: "attempt (probe_Start evs (RethinkDB_Probe dr ?db)) w = (p, v)" by fastforce
    have v: "w_fault v = w_fault w" by (rule sameD [OF sp p])
    show ?thesis
    proof (cases p)
      case (Inl x)
      then show ?thesis using assms(2,3) p by (simp add: restore_running_def Let_def bnd_run attempt_eq_Inl)
    next
      case (Inr q)
      show ?thesis
      proof (cases q)
        case (Inl x)
        then show ?thesis using assms(2) p Inr v by (auto simp: restore_running_def Let_def bnd_run)
      next
        case q: (Inr u)
        obtain r v' where 2: "ExecuteCommandWithOutput xe rethinkDBRestoreCmd []
          ((if rt_url db \<noteq> '''' then [''--connect='' @ rt_url ?db] else []) @
           (if rt_passwordFile db \<noteq> '''' then [''--password-file='' @ rt_passwordFile db] else []) @
           [rethinkDBRestoreFilePath]) v = (r, v')" by fastforce
        have v': "w_fault v' = w_fault w" using sameD [OF sx 2] v by simp
        have rest: "(case r of Inl y \<Rightarrow> (Inl y, v') | Inr oe \<Rightarrow> (case snd oe of
           Some x \<Rightarrow> handleFailedRecovery sv db (ErrWrap ''error running restore command'' x)
         | None \<Rightarrow> stop_server sv) v') = (Inl e, w')"
          using assms(2) p Inr q 2 by (cases r) (simp_all add: restore_running_def Let_def bnd_run split_beta)
        show ?thesis
        proof (cases r)
          case (Inl y)
          then have "y = e" using rest by simp
          then show ?thesis using exec_Inl [OF assms(1)] 2 assms(3) Inl by blast
        next
          case (Inr oe)
          show ?thesis
          proof (cases "snd oe")
            case None
            then show ?thesis using rest Inr stop_server_Inl assms(3) by fastforce
          next
            case (Some x)
            then show ?thesis using rest Inr v' by auto
          qed
        qed
      qed
    qed
  qed
  then show ?thesis using handleFailedRecovery_Inl [OF _ assms(4,1)] by metis
qed


definition a_server :: "unit world rethink_server" where
  "a_server = \<lparr>rs_run = (\<lambda>_ w. set_fs (fs_put [''data'', ''log''] (File [0] 0) (w_fs w)) w), rs_Signal = ret (),
     rs_cancel = (\<lambda>w. w), rs_Wait = (\<lambda>w. (None, w))\<rparr>"

definition a_driver :: "'w rethink_driver" where
  "a_driver = \<lparr>rq_Connect = (\<lambda>_ _. ret 0), rq_server_status = (\<lambda>_. ret ())\<rparr>"

definition failing_restore :: "'w exec" where
  "failing_restore = \<lparr>look_path = ret, run_cmd = (\<lambda>p en a. ret (''no such table'', Some (ErrText ''exit status 1'')))\<rparr>"

definition a_rethink_world :: "unit world" where
  "a_rethink_world = calm [([''data''], Dir 0), ([''pw''], File [112] 0), ([''backup''], Dir 0), ([''backup'', ''restore''], Dir 0),
     ([''backup'', ''restore'', ''files''], Dir 0), ([''backup'', ''restore'', ''files'', ''rethinkdb''], File [1, 2] 0)] ()"


end
