(* ===== verification/Postgres.thy ===== *)
theory Postgres
  imports Database
begin

text \<open>
  \<open>cmd/internal/database/postgres\<close>: \<open>upgrade.go\<close> (helpers, and the upgrade of the data directory
  to a newer major version) and \<open>postgres.go\<close>.  Parameters: the executor, the parser of version
  numbers (\<open>semver\<close>, the major number), the user database, programs run as another user, and the
  SQL driver.
\<close>

definition postgresBackupCmd :: string where "postgresBackupCmd = ''pg_basebackup''"
definition postgresBaseTar :: string where "postgresBaseTar = ''base.tar.gz''"
definition postgresWalTar :: string where "postgresWalTar = ''pg_wal.tar.gz''"
definition postgresHBAConf :: string where "postgresHBAConf = ''pg_hba.conf''"
definition postgresqlConf :: string where "postgresqlConf = ''postgresql.conf''"
definition postgresConfigCmd :: string where "postgresConfigCmd = ''pg_config''"
definition postgresUpgradeCmd :: string where "postgresUpgradeCmd = ''pg_upgrade''"
definition postgresInitDBCmd :: string where "postgresInitDBCmd = ''initdb''"
definition postgresVersionFile :: string where "postgresVersionFile = ''PG_VERSION''"
definition postgresBinBackupPrefix :: string where "postgresBinBackupPrefix = ''pg-bin-v''"

definition requiredCommands :: "string list" where
  "requiredCommands = [postgresUpgradeCmd, postgresConfigCmd, postgresInitDBCmd]"

record postgres =
  pg_datadir :: string
  pg_host :: string
  pg_port :: int
  pg_user :: string
  pg_password :: string

definition Postgres_New :: "string \<Rightarrow> string \<Rightarrow> int \<Rightarrow> string \<Rightarrow> string \<Rightarrow> postgres" where
  "Postgres_New datadir host port user password =
     \<lparr>pg_datadir = datadir, pg_host = host, pg_port = port, pg_user = user, pg_password = password\<rparr>"

text \<open>A user: id, group id and home directory.  A program is run with the credential of a user id of 32 bits.\<close>

record 'w pg_env =
  pe_exec :: "'w exec"
  pe_semver_Major :: "string \<Rightarrow> err + 64 word"
  pe_user_Lookup :: "string \<Rightarrow> ('w, string \<times> string \<times> string) go"
  pe_run_as :: "32 word \<Rightarrow> string option \<Rightarrow> string \<Rightarrow> string list \<Rightarrow> ('w, err option) go"

section \<open>Helpers\<close>

definition extractVersion :: "(string \<Rightarrow> err + 64 word) \<Rightarrow> string \<Rightarrow> err + 64 word" where
  "extractVersion semver commandOutput =
     (let versionSlice = strings_Fields commandOutput in
      if length versionSlice < 2 then
        Inl (ErrText (''unable to detect postgres binary version in pg_config output '' @ commandOutput))
      else case semver (strings_TrimSpace (versionSlice ! 1)) of
          Inl e \<Rightarrow> Inl (ErrWrap (''unable to parse postgres binary version in '' @ versionSlice ! 1) e)
        | Inr v \<Rightarrow> Inr v)"

definition getBinaryVersion :: "'w pg_env \<Rightarrow> string \<Rightarrow> ('w, 64 word) go" where
  "getBinaryVersion pe pgConfigCmd =
     bnd (run_cmd (pe_exec pe) pgConfigCmd [] [''--version'']) (\<lambda>(out, e). case e of
       Some x \<Rightarrow> fail (ErrWrap ''unable to detect postgres binary version'' x)
     | None \<Rightarrow> liftR (extractVersion (pe_semver_Major pe) out))"

definition getDatabaseVersion :: "string \<Rightarrow> (('x, 'm) world_scheme, int) go" where
  "getDatabaseVersion pgVersionFile =
     bnd (wrapE (''unable to read '' @ pgVersionFile) (os_ReadFile pgVersionFile)) (\<lambda>bs.
     wrapE (''unable to convert content of '' @ pgVersionFile)
       (liftR (ParseInt (strings_TrimSpace (bytes_string bs)))))"

definition getBinDir :: "'w pg_env \<Rightarrow> string \<Rightarrow> ('w, string) go" where
  "getBinDir pe pgConfigCmd =
     bnd (run_cmd (pe_exec pe) pgConfigCmd [] [''--bindir'']) (\<lambda>(out, e). case e of
       Some x \<Rightarrow> fail x
     | None \<Rightarrow> ret (strings_TrimSpace out))"

definition getLibDir :: "'w pg_env \<Rightarrow> string \<Rightarrow> ('w, string) go" where
  "getLibDir pe pgConfigCmd =
     bnd (run_cmd (pe_exec pe) pgConfigCmd [] [''--pkglibdir'']) (\<lambda>(out, e). case e of
       Some x \<Rightarrow> fail (ErrWrap ''unable to figure out lib dir'' x)
     | None \<Rightarrow> ret (strings_TrimSpace out))"

definition runningTimescaleDB :: "('x, 'm) world_scheme pg_env \<Rightarrow> string \<Rightarrow> (('x, 'm) world_scheme, bool) go" where
  "runningTimescaleDB pe pgConfigCmd =
     bnd (getLibDir pe pgConfigCmd) (\<lambda>libDir.
     bnd (attempt (os_Stat (path_Join [libDir, ''timescaledb.so'']))) (\<lambda>s.
     ret (\<not> isl s)))"

definition pgBinDir :: "string \<Rightarrow> int \<Rightarrow> string" where
  "pgBinDir datadir v = path_Join [datadir, postgresBinBackupPrefix @ FormatInt v]"

definition copyPostgresBinaries ::
  "('x, 'm) world_scheme pg_env \<Rightarrow> postgres \<Rightarrow> bool \<Rightarrow> (('x, 'm) world_scheme, unit) go" where
  "copyPostgresBinaries pe db override =
     bnd (getBinDir pe postgresConfigCmd) (\<lambda>binDir.
     bnd (getBinaryVersion pe postgresConfigCmd) (\<lambda>version.
     let dir = pgBinDir (pg_datadir db) (uint version) in
     bnd (if override then ret False
          else bnd (attempt (os_Stat (path_Join [dir, postgresConfigCmd]))) (\<lambda>s. ret (\<not> isl s))) (\<lambda>present.
     if present then ret () else
     bnd (wrapE ''unable to remove old pg bin dir'' (os_RemoveAll dir)) (\<lambda>_.
     bnd (run_cmd (pe_exec pe) ''cp'' [] [''-av'', binDir, dir]) (\<lambda>(_, e). case e of
       Some x \<Rightarrow> fail (ErrWrap ''unable to copy pg bin dir'' x)
     | None \<Rightarrow> ret ())))))"

text \<open>The callback of the walk over the old data directory.\<close>

definition restore_bin_fn :: "('x, 'm) world_scheme pg_env \<Rightarrow> string \<Rightarrow> ('x, 'm) world_scheme walk_fn" where
  "restore_bin_fn pe dst p d e =
     (case e of
        Some x \<Rightarrow> fail x
      | None \<Rightarrow>
          if \<not> strings_HasPrefix (filepath_Base p) postgresBinBackupPrefix then ret ()
          else bnd (run_cmd (pe_exec pe) ''cp'' [] [''-av'', p, dst]) (\<lambda>(_, e). case e of
            Some x \<Rightarrow> fail (ErrWrap ''unable to copy pg bin dir'' x)
          | None \<Rightarrow> ret ()))"

definition restoreOldPostgresBinaries ::
  "('x, 'm) world_scheme pg_env \<Rightarrow> string \<Rightarrow> string \<Rightarrow> (('x, 'm) world_scheme, unit) go" where
  "restoreOldPostgresBinaries pe src dst = WalkDir id src (restore_bin_fn pe dst)"

section \<open>Upgrade\<close>

fun all_present :: "('x, 'm) world_scheme exec \<Rightarrow> string list \<Rightarrow> (('x, 'm) world_scheme, bool) go" where
  "all_present xe [] = ret True"
| "all_present xe (c # cs) = bnd (IsCommandPresent xe c) (\<lambda>ok. if \<not> ok then ret False else all_present xe cs)"

text \<open>The first half of \<open>Upgrade\<close>: \<open>None\<close> where it returns without an upgrade, otherwise the version
  of the data and the directory of the old binaries.  \<open>uint64(pgVersion)\<close> wraps around.\<close>

definition upgrade_decision ::
  "('x, 'm) world_scheme pg_env \<Rightarrow> postgres \<Rightarrow> (('x, 'm) world_scheme, (int \<times> string) option) go" where
  "upgrade_decision pe db =
     (let pgVersionFile = path_Join [pg_datadir db, postgresVersionFile] in
      bnd (attempt (os_Stat pgVersionFile)) (\<lambda>s.
      if isNotExist_result errors_Is_NotExist s then ret None else
      bnd (copyPostgresBinaries pe db True) (\<lambda>_.
      bnd (all_present (pe_exec pe) requiredCommands) (\<lambda>ok.
      if \<not> ok then ret None else
      bnd (attempt (getDatabaseVersion pgVersionFile)) (\<lambda>r. case r of Inl _ \<Rightarrow> ret None | Inr pgVersion \<Rightarrow>
      bnd (attempt (getBinaryVersion pe postgresConfigCmd)) (\<lambda>r. case r of Inl _ \<Rightarrow> ret None | Inr binaryVersionMajor \<Rightarrow>
      if word_of_int pgVersion = binaryVersionMajor then ret None
      else if (word_of_int pgVersion :: 64 word) > binaryVersionMajor
        then fail (ErrText ''database is newer than postgres binary'')
      else
        let oldPostgresBinDir = pgBinDir (pg_datadir db) pgVersion;
            oldPostgresConfigCmd = path_Join [oldPostgresBinDir, postgresConfigCmd] in
        bnd (IsCommandPresent (pe_exec pe) oldPostgresConfigCmd) (\<lambda>ok.
        if \<not> ok then ret None else
        bnd (attempt (getBinaryVersion pe oldPostgresConfigCmd)) (\<lambda>r. case r of Inl _ \<Rightarrow> ret None | Inr oldBinaryVersionMajor \<Rightarrow>
        if oldBinaryVersionMajor \<noteq> word_of_int pgVersion then ret None
        else ret (Some (pgVersion, oldPostgresBinDir))))))))))"

definition newDataDirTemp :: string where
  "newDataDirTemp = path_Join [''/data'', ''postgres-new'']"

fun restore_configs :: "string \<Rightarrow> string list \<Rightarrow> (('x, 'm) world_scheme, unit) go" where
  "restore_configs datadir [] = ret ()"
| "restore_configs datadir (c # cs) =
     bnd (os_ReadFile (path_Join [datadir, c])) (\<lambda>cfg.
     bnd (os_WriteFile (path_Join [newDataDirTemp, c]) cfg) (\<lambda>_.
     restore_configs datadir cs))"

text \<open>The last steps: the old data directory makes room for the new one.\<close>

definition swap_datadirs :: "postgres \<Rightarrow> (('x, 'm) world_scheme, unit) go" where
  "swap_datadirs db =
     bnd (wrapE ''unable to remove old data dir'' (os_RemoveAll (pg_datadir db))) (\<lambda>_.
     wrapE ''unable to rename upgraded datadir to destination, a full restore is required''
       (os_Rename newDataDirTemp (pg_datadir db)))"

definition upgrade_args :: "postgres \<Rightarrow> string \<Rightarrow> string \<Rightarrow> bool \<Rightarrow> string list" where
  "upgrade_args db oldBin newBin timescale =
     [''--old-datadir'', pg_datadir db, ''--new-datadir'', newDataDirTemp, ''--old-bindir'', oldBin,
      ''--new-bindir'', newBin, ''--link'', ''--verbose''] @
     (if timescale then
       [''--old-options'', ''-c shared_preload_libraries='' @ replicate 2 (char_of (39 :: nat)),
        ''--new-options'', ''-c timescaledb.restoring=on -c shared_preload_libraries=timescaledb'']
      else [])"

text \<open>From the new cluster to the run of \<open>pg_upgrade\<close>; \<open>False\<close> where the upgrade is skipped.\<close>

definition upgrade_prepare ::
  "('x, 'm) world_scheme pg_env \<Rightarrow> postgres \<Rightarrow> string \<Rightarrow> (('x, 'm) world_scheme, bool) go" where
  "upgrade_prepare pe db oldPostgresBinDir =
     bnd (pe_user_Lookup pe ''postgres'') (\<lambda>(uids, gids, home).
     bnd (liftR (ParseInt uids)) (\<lambda>uid.
     bnd (liftR (ParseInt gids)) (\<lambda>gid.
     bnd (attempt (os_RemoveAll newDataDirTemp)) (\<lambda>r. case r of Inl _ \<Rightarrow> ret False | Inr _ \<Rightarrow>
     bnd (os_Chown ''/data'') (\<lambda>_.
     bnd (pe_run_as pe (word_of_int uid) None postgresInitDBCmd [''-D'', newDataDirTemp]) (\<lambda>e.
     if e \<noteq> None then ret False else
     bnd (restore_configs (pg_datadir db) [postgresHBAConf, postgresqlConf]) (\<lambda>_.
     bnd (restoreOldPostgresBinaries pe (pg_datadir db) newDataDirTemp) (\<lambda>_.
     bnd (wrapE ''unable to detect bin dir of actual postgres'' (getBinDir pe postgresConfigCmd)) (\<lambda>newPostgresBinDir.
     bnd (runningTimescaleDB pe postgresConfigCmd) (\<lambda>timescale.
     bnd (pe_run_as pe (word_of_int uid) (Some home) postgresUpgradeCmd (upgrade_args db oldPostgresBinDir newPostgresBinDir timescale)) (\<lambda>e.
     case e of
       Some x \<Rightarrow> bnd (wrapE ''unable to read pg_upgrade_server.log'' (os_ReadFile (home @ ''/pg_upgrade_server.log''))) (\<lambda>_.
         fail (ErrWrap ''unable to run pg_upgrade'' x))
     | None \<Rightarrow> ret True)))))))))))"

definition Postgres_Upgrade :: "('x, 'm) world_scheme pg_env \<Rightarrow> postgres \<Rightarrow> (('x, 'm) world_scheme, unit) go" where
  "Postgres_Upgrade pe db =
     bnd (upgrade_decision pe db) (\<lambda>d. case d of
       None \<Rightarrow> ret ()
     | Some (pgVersion, oldPostgresBinDir) \<Rightarrow>
         bnd (upgrade_prepare pe db oldPostgresBinDir) (\<lambda>go. if \<not> go then ret () else swap_datadirs db))"

section \<open>Backup and recovery\<close>

definition Postgres_Check :: "postgres \<Rightarrow> (('x, 'm) world_scheme, bool) go" where
  "Postgres_Check db = bnd (IsEmpty (pg_datadir db)) (\<lambda>empty. if empty then ret True else ret False)"

fun all_files_there :: "string \<Rightarrow> string \<Rightarrow> string list \<Rightarrow> (('x, 'm) world_scheme, unit) go" where
  "all_files_there msg dir [] = ret ()"
| "all_files_there msg dir (p # ps) =
     (let fullPath = path_Join [dir, p] in
      bnd (attempt (os_Stat fullPath)) (\<lambda>s.
      if isNotExist_result os_IsNotExist s then fail (ErrText (msg @ fullPath)) else all_files_there msg dir ps))"

definition Postgres_Backup :: "('x, 'm) world_scheme pg_env \<Rightarrow> postgres \<Rightarrow> (('x, 'm) world_scheme, unit) go" where
  "Postgres_Backup pe db =
     bnd (copyPostgresBinaries pe db False) (\<lambda>_.
     bnd (wrapE ''could not clean backup directory'' (os_RemoveAll BackupDir)) (\<lambda>_.
     bnd (wrapE ''could not create backup directory'' (os_MkdirAll BackupDir)) (\<lambda>_.
     let args = [''-D'', BackupDir, ''--wal-method=stream'', ''--checkpoint=fast'', ''-z'', ''--format=t''] @
       (if pg_host db \<noteq> '''' then [''--host='' @ pg_host db] else []) @
       (if pg_port db \<noteq> 0 then [''--port='' @ FormatInt (pg_port db)] else []) @
       (if pg_user db \<noteq> '''' then [''--username='' @ pg_user db] else []);
       env = (if pg_password db \<noteq> '''' then [''PGPASSWORD='' @ pg_password db] else []) in
     bnd (ExecuteCommandWithOutput (pe_exec pe) postgresBackupCmd env args) (\<lambda>(out, e). case e of
       Some x \<Rightarrow> fail (ErrWrap (''error running backup command: '' @ out) x)
     | None \<Rightarrow> all_files_there ''backup file was not created: '' BackupDir [postgresBaseTar, postgresWalTar]))))"

definition Postgres_Recover :: "('x, 'm) world_scheme pg_env \<Rightarrow> postgres \<Rightarrow> (('x, 'm) world_scheme, unit) go" where
  "Postgres_Recover pe db =
     bnd (all_files_there ''restore file not present: '' RestoreDir [postgresBaseTar, postgresWalTar]) (\<lambda>_.
     bnd (wrapE ''could not clean database data directory'' (RemoveContents (pg_datadir db))) (\<lambda>_.
     bnd (ExecuteCommandWithOutput (pe_exec pe) ''tar'' [] [''-xzvf'', path_Join [RestoreDir, postgresBaseTar], ''-C'', pg_datadir db]) (\<lambda>(out, e).
     case e of Some x \<Rightarrow> fail (ErrWrap (''error untaring base backup: '' @ out) x) | None \<Rightarrow>
     bnd (wrapE ''could not clean pg_wal directory'' (os_RemoveAll (path_Join [pg_datadir db, ''pg_wal'']))) (\<lambda>_.
     bnd (wrapE ''could not create pg_wal directory'' (os_MkdirAll (path_Join [pg_datadir db, ''pg_wal'']))) (\<lambda>_.
     bnd (ExecuteCommandWithOutput (pe_exec pe) ''tar'' [] [''-xzvf'', path_Join [RestoreDir, postgresWalTar], ''-C'',
         path_Join [pg_datadir db, ''pg_wal'']]) (\<lambda>(out, e).
     case e of Some x \<Rightarrow> fail (ErrWrap (''error untaring wal backup: '' @ out) x) | None \<Rightarrow> ret ()))))))"

interpretation postgres_check: restore_check "Postgres_Check db" "pg_datadir db" for db
  by unfold_locales (unfold Postgres_Check_def, rule Check_by_IsEmpty)

section \<open>Probe\<close>

text \<open>The SQL driver: the rows of a query as the results of their scans, and the error of the
  iteration.\<close>

record 'w sql =
  sq_Open :: "string \<Rightarrow> ('w, nat) go"
  sq_Ping :: "nat \<Rightarrow> ('w, unit) go"
  sq_Close :: "nat \<Rightarrow> 'w \<Rightarrow> 'w"
  sq_Databases :: "nat \<Rightarrow> string \<Rightarrow> ('w, (err + string \<times> bool) list \<times> err option) go"
  sq_Extensions :: "nat \<Rightarrow> string \<Rightarrow> ('w, (err + string) list \<times> err option) go"
  sq_Exec :: "nat \<Rightarrow> string \<Rightarrow> ('w, unit) go"

definition connString :: "postgres \<Rightarrow> string \<Rightarrow> string" where
  "connString db dbname = ''host='' @ pg_host db @ '' port='' @ FormatInt (pg_port db) @ '' user='' @ pg_user db @
     '' password='' @ pg_password db @ '' dbname='' @ dbname @ '' sslmode=disable''"

fun scan_databases :: "(err + string \<times> bool) list \<Rightarrow> err + string list" where
  "scan_databases [] = Inr []"
| "scan_databases (Inl e # rs) = Inl e"
| "scan_databases (Inr (name, allowed) # rs) =
     (case scan_databases rs of Inl e \<Rightarrow> Inl e | Inr ns \<Rightarrow> Inr (if allowed then name # ns else ns))"

fun scan_extensions :: "'w sql \<Rightarrow> nat \<Rightarrow> (err + string) list \<Rightarrow> ('w, unit) go" where
  "scan_extensions sq c [] = ret ()"
| "scan_extensions sq c (Inl e # rs) = fail e"
| "scan_extensions sq c (Inr extName # rs) =
     (if extName \<noteq> ''timescaledb'' then scan_extensions sq c rs
      else wrapE ''unable to update extension'' (sq_Exec sq c ''ALTER EXTENSION timescaledb UPDATE''))"

fun update_databases :: "'w sql \<Rightarrow> postgres \<Rightarrow> string list \<Rightarrow> ('w, unit) go" where
  "update_databases sq db [] = ret ()"
| "update_databases sq db (n # ns) =
     bnd (wrapE ''unable to open postgres connection'' (sq_Open sq (connString db n))) (\<lambda>c.
     deferred (sq_Close sq c)
       (bnd (wrapE ''unable to get extensions'' (sq_Extensions sq c ''SELECT extname FROM pg_extension'')) (\<lambda>(rows, e).
        bnd (scan_extensions sq c rows) (\<lambda>_.
        bnd (case e of None \<Rightarrow> ret () | Some x \<Rightarrow> fail x) (\<lambda>_.
        update_databases sq db ns)))))"

definition updateTimescaleDB :: "'w sql \<Rightarrow> postgres \<Rightarrow> nat \<Rightarrow> ('w, unit) go" where
  "updateTimescaleDB sq db dbc =
     bnd (wrapE ''unable to get database names'' (sq_Databases sq dbc ''SELECT datname,datallowconn FROM pg_database'')) (\<lambda>(rows, e).
     bnd (liftR (scan_databases rows)) (\<lambda>databaseNames.
     bnd (case e of None \<Rightarrow> ret () | Some x \<Rightarrow> fail x) (\<lambda>_.
     update_databases sq db databaseNames)))"

definition Postgres_Probe ::
  "('x, 'm) world_scheme pg_env \<Rightarrow> ('x, 'm) world_scheme sql \<Rightarrow> postgres \<Rightarrow> (('x, 'm) world_scheme, unit) go" where
  "Postgres_Probe pe sq db =
     bnd (wrapE ''unable to open postgres connection'' (sq_Open sq (connString db ''postgres''))) (\<lambda>dbc.
     deferred (sq_Close sq dbc)
       (bnd (wrapE ''unable to ping postgres connection'' (sq_Ping sq dbc)) (\<lambda>_.
        bnd (attempt (runningTimescaleDB pe postgresConfigCmd)) (\<lambda>r.
        if r = Inr True then wrapE ''unable to update timescaledb'' (updateTimescaleDB sq db dbc) else ret ()))))"

definition postgres_db ::
  "('x, 'm) world_scheme pg_env \<Rightarrow> ('x, 'm) world_scheme sql \<Rightarrow> postgres \<Rightarrow> ('x, 'm) world_scheme database" where
  "postgres_db pe sq db = \<lparr>db_Check = Postgres_Check db, db_Recover = Postgres_Recover pe db,
     db_Upgrade = Postgres_Upgrade pe db, db_Probe = Postgres_Probe pe sq db, db_Backup = Postgres_Backup pe db\<rparr>"

section \<open>What an upgrade leaves alone\<close>

text \<open>The data of the old cluster: all of the data directory but the saved binaries.\<close>

definition old_data :: "postgres \<Rightarrow> fpath set" where
  "old_data db = {q. prefix (resolve (pg_datadir db)) q \<and>
     \<not> (\<exists>n. strings_HasPrefix n postgresBinBackupPrefix \<and> prefix (resolve (pg_datadir db) @ [n]) q)}"

text \<open>The file that \<open>pg_upgrade --link\<close> renames in the old cluster when it starts to link, and its new name.\<close>

definition control_files :: "postgres \<Rightarrow> fpath set" where
  "control_files db = (\<lambda>n. resolve (pg_datadir db) @ [''global'', n]) ` {''pg_control'', ''pg_control.old''}"

text \<open>What the code relies on: looking programs up, the user database and the programs leave the old data alone,
  but for \<open>pg_upgrade\<close>, which leaves alone all but the control file (it links the data); and a run of a program panics at most.\<close>

definition pg_tools :: "('x, 'm) world_scheme pg_env \<Rightarrow> postgres \<Rightarrow> bool" where
  "pg_tools pe db \<longleftrightarrow> (\<forall>g. (\<forall>c. keeps (protected (old_data db) g) (look_path (pe_exec pe) c)) \<and>
     (\<forall>p en a. keeps (protected (old_data db) g) (run_cmd (pe_exec pe) p en a)) \<and>
     (\<forall>u. keeps (protected (old_data db) g) (pe_user_Lookup pe u)) \<and>
     (\<forall>u h p a. p \<noteq> postgresUpgradeCmd \<longrightarrow> keeps (protected (old_data db) g) (pe_run_as pe u h p a)) \<and>
     (\<forall>u h a. keeps (protected (old_data db - control_files db) g) (pe_run_as pe u h postgresUpgradeCmd a))) \<and>
     (\<forall>u h p a w e w'. pe_run_as pe u h p a w = (Inl e, w') \<longrightarrow> unwinds e)"

lemma pg_toolsD:
  assumes "pg_tools pe db"
  shows "keeps (protected (old_data db) g) (look_path (pe_exec pe) c)" "keeps (protected (old_data db) g) (run_cmd (pe_exec pe) p en a)"
    "keeps (protected (old_data db) g) (pe_user_Lookup pe u)"
    "keeps (protected (old_data db) g) (pe_run_as pe i h postgresInitDBCmd a)"
    "keeps (protected (old_data db - control_files db) g) (pe_run_as pe i h postgresUpgradeCmd a)"
proof -
  have "postgresInitDBCmd \<noteq> postgresUpgradeCmd" by (simp add: postgresInitDBCmd_def postgresUpgradeCmd_def)
  then show "keeps (protected (old_data db) g) (pe_run_as pe i h postgresInitDBCmd a)"
    using assms unfolding pg_tools_def by simp
qed (use assms in \<open>simp_all add: pg_tools_def\<close>)

lemma pg_tools_panic: "pg_tools pe db \<Longrightarrow> pe_run_as pe i h q a w = (Inl e, w') \<Longrightarrow> unwinds e"
  unfolding pg_tools_def by (drule conjunct2) blast

text \<open>A computation that keeps \<open>I\<close>, or has ended in \<open>J\<close> with a result of the kind \<open>K\<close>.\<close>

definition keeps_until ::
  "('w \<Rightarrow> bool) \<Rightarrow> ('w \<Rightarrow> bool) \<Rightarrow> (err + 'a \<Rightarrow> bool) \<Rightarrow> ('w, 'a) go \<Rightarrow> bool" where
  "keeps_until I J K m \<longleftrightarrow> (\<forall>w r w'. I w \<longrightarrow> m w = (r, w') \<longrightarrow> I w' \<or> J w' \<and> K r)"

lemma keeps_until_keeps: "keeps I m \<Longrightarrow> keeps_until I J K m"
  unfolding keeps_until_def by (metis keepsD)

lemma keeps_until_bnd:
  assumes "keeps I m" "\<And>x. keeps_until I J K (k x)"
  shows "keeps_until I J K (bnd m k)"
  unfolding keeps_until_def
proof (intro allI impI)
  fix w r w' assume I: "I w" and run: "bnd m k w = (r, w')"
  obtain q v where q: "m w = (q, v)" by fastforce
  have "I v" by (rule keepsD [OF assms(1) q I])
  then show "I w' \<or> J w' \<and> K r"
    using run q assms(2) unfolding keeps_until_def by (cases q) (auto simp: bnd_run)
qed

lemma keeps_until_sum:
  "(\<And>e. r = Inl e \<Longrightarrow> keeps_until I J K (f e)) \<Longrightarrow> (\<And>x. r = Inr x \<Longrightarrow> keeps_until I J K (h x)) \<Longrightarrow>
   keeps_until I J K (case r of Inl e \<Rightarrow> f e | Inr x \<Rightarrow> h x)"
  by (cases r) simp_all

lemma keeps_until_prod: "(\<And>x y. r = (x, y) \<Longrightarrow> keeps_until I J K (f x y)) \<Longrightarrow> keeps_until I J K (case r of (x, y) \<Rightarrow> f x y)"
  by (cases r) simp_all

lemma keeps_until_if: "(b \<Longrightarrow> keeps_until I J K m) \<Longrightarrow> (\<not> b \<Longrightarrow> keeps_until I J K n) \<Longrightarrow> keeps_until I J K (if b then m else n)"
  by simp

lemmas keeps_until = keeps_until_bnd keeps_until_sum keeps_until_prod keeps_until_if

lemma plain_pg_bin: "0 \<le> v \<Longrightarrow> plain_name (postgresBinBackupPrefix @ FormatInt v)"
proof -
  assume "0 \<le> v"
  then have "FormatInt v = nat_str (nat v)" by (simp add: FormatInt_def)
  then have "slash \<notin> set (FormatInt v)"
    using nat_str_digits [of "nat v"] by (auto simp: list_all_iff is_digit_def)
  then show ?thesis by (auto simp: postgresBinBackupPrefix_def intro!: plain_nameI)
qed

lemma pgBinDir_outside:
  assumes "rooted (pg_datadir db)" "0 \<le> v" "q \<in> old_data db"
  shows "\<not> prefix (resolve (pgBinDir (pg_datadir db) v)) q"
proof
  assume "prefix (resolve (pgBinDir (pg_datadir db) v)) q"
  then have "prefix (resolve (pg_datadir db) @ [postgresBinBackupPrefix @ FormatInt v]) q"
    using resolve_Join [OF assms(1) plain_pg_bin [OF assms(2)]] by (simp add: pgBinDir_def)
  moreover have "strings_HasPrefix (postgresBinBackupPrefix @ FormatInt v) postgresBinBackupPrefix"
    by (simp add: strings_HasPrefix_def)
  ultimately show False using assms(3) by (auto simp: old_data_def)
qed

lemma keeps_copyPostgresBinaries:
  assumes "pg_tools pe db" "rooted (pg_datadir db)"
  shows "keeps (protected (old_data db) g) (copyPostgresBinaries pe db ov)"
  unfolding copyPostgresBinaries_def getBinDir_def getBinaryVersion_def Let_def
  by (intro keeps pg_toolsD [OF assms(1)]) (rule pgBinDir_outside [OF assms(2)], simp_all)

lemma keeps_IsCommandPresent:
  "(\<And>c. keeps (protected S g) (look_path xe c)) \<Longrightarrow> keeps (protected S g) (IsCommandPresent xe c)"
  unfolding IsCommandPresent_def by (intro keeps)

lemma keeps_all_present:
  "(\<And>c. keeps (protected S g) (look_path xe c)) \<Longrightarrow> keeps (protected S g) (all_present xe cs)"
  by (induction cs) (auto intro!: keeps keeps_IsCommandPresent)

lemma keeps_upgrade_decision:
  assumes "pg_tools pe db" "rooted (pg_datadir db)"
  shows "keeps (protected (old_data db) g) (upgrade_decision pe db)"
  unfolding upgrade_decision_def Let_def getDatabaseVersion_def getBinaryVersion_def
  by (intro keeps keeps_all_present keeps_IsCommandPresent keeps_copyPostgresBinaries [OF assms] pg_toolsD [OF assms(1)])

lemma newDataDir_resolve: "resolve newDataDirTemp = [''data'', ''postgres-new'']" "rooted newDataDirTemp"
  by code_simp+

definition apart :: "postgres \<Rightarrow> bool" where
  "apart db \<longleftrightarrow> \<not> prefix (resolve (pg_datadir db)) (resolve newDataDirTemp) \<and>
     \<not> prefix (resolve newDataDirTemp) (resolve (pg_datadir db))"

lemma newDataDir_outside:
  assumes "apart db" "q \<in> old_data db"
  shows "\<not> prefix (resolve newDataDirTemp) q"
proof
  assume "prefix (resolve newDataDirTemp) q"
  moreover have "prefix (resolve (pg_datadir db)) q" using assms(2) by (simp add: old_data_def)
  ultimately have "prefix (resolve newDataDirTemp) (resolve (pg_datadir db)) \<or> prefix (resolve (pg_datadir db)) (resolve newDataDirTemp)"
    by (rule prefix_same_cases)
  then show False using assms(1) by (auto simp: apart_def)
qed

lemma config_outside: "apart db \<Longrightarrow> plain_name c \<Longrightarrow> resolve (path_Join [newDataDirTemp, c]) \<notin> old_data db"
  using newDataDir_outside [of db "resolve newDataDirTemp @ [c]"] resolve_Join [OF newDataDir_resolve(2)] by auto

lemma keeps_restore_configs:
  "apart db \<Longrightarrow> list_all plain_name cs \<Longrightarrow> keeps (protected (old_data db) g) (restore_configs d cs)"
  by (induction cs) (auto intro!: keeps dest: config_outside)

definition pg_upgrade_failed :: "err \<Rightarrow> bool" where
  "pg_upgrade_failed e \<longleftrightarrow> (\<exists>x. e = ErrWrap ''unable to run pg_upgrade'' x \<or> e = ErrWrap ''unable to read pg_upgrade_server.log'' x)"

lemma protected_subset: "protected S g w \<Longrightarrow> T \<subseteq> S \<Longrightarrow> protected T g w"
  by (auto simp: protected_def)

text \<open>The preparation changes old data by its last step only, the run of \<open>pg_upgrade\<close>, and then no more than the control file.\<close>

lemma upgrade_prepare_keeps:
  assumes "pg_tools pe db" "apart db"
  shows "keeps_until (protected (old_data db) g) (protected (old_data db - control_files db) g)
    (\<lambda>r. r = Inr True \<or> (\<exists>e. r = Inl e \<and> (unwinds e \<or> pg_upgrade_failed e))) (upgrade_prepare pe db old)"
proof -
  let ?I = "protected (old_data db) g" and ?J = "protected (old_data db - control_files db) g"
  let ?K = "\<lambda>r. r = Inr True \<or> (\<exists>e. r = Inl e \<and> (unwinds e \<or> pg_upgrade_failed e))"
  have names: "list_all plain_name [postgresHBAConf, postgresqlConf]" by code_simp
  have last: "keeps_until ?I ?J ?K (bnd (pe_run_as pe u h postgresUpgradeCmd a) (\<lambda>e. case e of
       Some x \<Rightarrow> bnd (wrapE ''unable to read pg_upgrade_server.log'' (os_ReadFile f)) (\<lambda>_.
         fail (ErrWrap ''unable to run pg_upgrade'' x))
     | None \<Rightarrow> ret True))" (is "keeps_until _ _ _ ?m") for u h a f
    unfolding keeps_until_def
  proof (intro allI impI)
    fix w r w' assume I: "?I w" and run: "?m w = (r, w')"
    have "keeps ?J ?m" by (intro keeps pg_toolsD [OF assms(1)])
    then have "?J w'" using run protected_subset [OF I] by (rule keepsD) blast
    moreover have "?K r"
      using run by (auto simp: bnd_run wrapE_run fail_run ret_run pg_upgrade_failed_def dest: pg_tools_panic [OF assms(1)]
          split: prod.splits sum.splits option.splits if_splits)
    ultimately show "?I w' \<or> ?J w' \<and> ?K r" by blast
  qed
  have leaf: "keeps_until ?I ?J ?K (ret b)" for b by (rule keeps_until_keeps) (intro keeps)
  have tools: "keeps ?I (getBinDir pe c)" "keeps ?I (runningTimescaleDB pe c)" "keeps ?I (restoreOldPostgresBinaries pe s d)" for c s d
    unfolding getBinDir_def runningTimescaleDB_def getLibDir_def restoreOldPostgresBinaries_def restore_bin_fn_def
    by (intro keeps pg_toolsD [OF assms(1)])+
  have new: "keeps ?I (attempt (os_RemoveAll newDataDirTemp))"
    by (intro keeps) (rule newDataDir_outside [OF assms(2)])
  show ?thesis unfolding upgrade_prepare_def
    by (intro keeps_until leaf last new keeps_restore_configs [OF assms(2) names] tools pg_toolsD(1-4) [OF assms(1)] keeps_wrapE keeps_liftR)
      (intro keeps)+
qed

lemma swap_datadirs_Inl: "swap_datadirs db w = (Inl e, w') \<Longrightarrow>
   (\<exists>x. e = ErrWrap ''unable to remove old data dir'' x) \<or>
   (\<exists>x. e = ErrWrap ''unable to rename upgraded datadir to destination, a full restore is required'' x)"
proof -
  have ren: "os_Rename a b v = (Inl x, v') \<Longrightarrow> \<not> unwinds x" for a b x and v v' :: "('a, 'b) world_scheme"
    by (auto simp: os_Rename_def sysE_def sys_def Let_def fail_def split: option.splits sum.splits if_splits)
  assume "swap_datadirs db w = (Inl e, w')"
  then consider x where "os_RemoveAll (pg_datadir db) w = (Inl x, w')"
      "e = (if unwinds x then x else ErrWrap ''unable to remove old data dir'' x)"
    | v x where "os_Rename newDataDirTemp (pg_datadir db) v = (Inl x, w')"
      "e = (if unwinds x then x else ErrWrap ''unable to rename upgraded datadir to destination, a full restore is required'' x)"
    unfolding swap_datadirs_def bnd_eq_Inl wrapE_eq_Inl by blast
  then show ?thesis using os_RemoveAll_Inl ren by cases fastforce+
qed


text \<open>The programs of version 17 over data of version 16, with a \<open>pg_upgrade\<close> that fails after it has begun to link.\<close>

definition link_fails :: "('x, 'm) world_scheme pg_env" where
  "link_fails = \<lparr>pe_exec = \<lparr>look_path = (\<lambda>c. ret (if rooted c then c else ''/bin/sh'')),
       run_cmd = (\<lambda>p _ a. ret (if a = [''--version''] then (if rooted p then ''PostgreSQL 16.1'' else ''PostgreSQL 17.1'') else ''/bin'', None))\<rparr>,
     pe_semver_Major = (\<lambda>v. Inr (if v = ''16.1'' then 16 else 17)), pe_user_Lookup = (\<lambda>_. ret (''70'', ''70'', ''/home'')),
     pe_run_as = (\<lambda>_ _ p _.
       if p = postgresUpgradeCmd then
         bnd (upd (\<lambda>w. set_fs (fs_put [''data'', ''postgres'', ''global'', ''pg_control.old''] (File [7] 0)
           (fs_drop (\<lambda>q. q = [''data'', ''postgres'', ''global'', ''pg_control'']) (w_fs w))) w)) (\<lambda>_. ret (Some (ErrText ''exit status 1'')))
       else bnd (upd (\<lambda>w. set_fs (fs_put [''data'', ''postgres-new''] (Dir 0) (w_fs w)) w)) (\<lambda>_. ret None))\<rparr>"

definition a_postgres :: postgres where
  "a_postgres = Postgres_New ''/data/postgres'' '''' 0 '''' ''''"

definition pg16_data :: "unit world" where
  "pg16_data = calm [([''bin''], Dir 0), ([''bin'', ''sh''], File [] 0), ([''home''], Dir 0), ([''home'', ''pg_upgrade_server.log''], File [] 0),
     ([''data''], Dir 0), ([''data'', ''postgres''], Dir 0), ([''data'', ''postgres'', ''PG_VERSION''], File [49, 54, 10] 0),
     ([''data'', ''postgres'', ''pg_hba.conf''], File [1] 0), ([''data'', ''postgres'', ''postgresql.conf''], File [2] 0),
     ([''data'', ''postgres'', ''global''], Dir 0), ([''data'', ''postgres'', ''global'', ''pg_control''], File [7] 0),
     ([''data'', ''postgres'', ''base''], Dir 0), ([''data'', ''postgres'', ''base'', ''1''], File [3, 4] 0),
     ([''data'', ''postgres'', ''pg-bin-v16''], Dir 0), ([''data'', ''postgres'', ''pg-bin-v16'', ''pg_config''], File [] 0)] ()"

lemma link_fails_tools: "pg_tools (link_fails :: unit world pg_env) a_postgres"
proof -
  have d: "resolve (pg_datadir a_postgres) = [''data'', ''postgres'']" by code_simp
  have new: "fs_get (fs_put [''data'', ''postgres-new''] (Dir 0) f) q = fs_get f q" if "q \<in> old_data a_postgres" for f q
    using that by (intro fs_get_put_other) (auto simp: old_data_def d)
  have ctl: "fs_get (fs_put [''data'', ''postgres'', ''global'', ''pg_control.old''] (File [7] 0)
      (fs_drop (\<lambda>q. q = [''data'', ''postgres'', ''global'', ''pg_control'']) f)) q = fs_get f q"
    if "q \<in> old_data a_postgres - control_files a_postgres" for f q
    using that by (subst fs_get_put_other) (auto simp: control_files_def d fs_get_drop)
  show ?thesis
    by (auto simp: pg_tools_def link_fails_def ret_def bnd_run upd_run keeps_def protected_def new ctl set_fs_def)
qed


end
