(* ===== verification/S3Provider.thy ===== *)
theory S3Provider
  imports Providers Utils
begin

text \<open>
  \<open>cmd/internal/backup/providers/s3\<close>: backups as versions of one object in an S3 bucket.  The
  calls of the AWS client are a parameter (\<open>s3_client\<close>); a call may change the world and fail in
  any way.  \<open>GetBucketLifecycleConfiguration\<close> gives its output and its error side by side, because
  the code looks at both.
\<close>

definition s3_defaultBackupName :: string where "s3_defaultBackupName = ''db''"
definition checksumWhenSupported :: string where "checksumWhenSupported = ''when_supported''"
definition checksumWhenRequired :: string where "checksumWhenRequired = ''when_required''"

record s3_config =
  s3_BucketName :: string
  s3_Endpoint :: string
  s3_Region :: string
  s3_AccessKey :: string
  s3_SecretKey :: string
  s3_BackupName :: string
  s3_InsecureSkipVerify :: "bool option"
  s3_TrustedCaCert :: "string option"
  s3_ObjectPrefix :: string
  s3_ObjectsToKeep :: "32 word"
  s3_ObjectDaysToKeep :: "32 word option"
  s3_Suffix :: string
  s3_RequestChecksumCalculation :: "string option"

text \<open>A lifecycle rule; what the sidecar does not set is in \<open>r_rest\<close>.\<close>

record s3_rule =
  r_ID :: "string option"
  r_Prefix :: "string option"
  r_Enabled :: bool
  r_NewerNoncurrentVersions :: "32 word option"
  r_NoncurrentDays :: "32 word option"
  r_rest :: nat

record s3_object =
  so_Key :: "string option"
  so_VersionId :: "string option"
  so_LastModified :: "int option"

record 'w s3_client =
  s3_ListBuckets :: "('w, string option list) go"
  s3_CreateBucket :: "string \<Rightarrow> ('w, unit) go"
  s3_PutBucketVersioning :: "string \<Rightarrow> bool \<Rightarrow> ('w, unit) go"
  s3_GetBucketLifecycle :: "string \<Rightarrow> ('w, s3_rule list option \<times> err option) go"
  s3_PutBucketLifecycle :: "string \<Rightarrow> s3_rule list \<Rightarrow> ('w, unit) go"
  s3_Download :: "string \<Rightarrow> string \<Rightarrow> string \<Rightarrow> (byte list \<Rightarrow> int \<Rightarrow> ('w, unit) go) \<Rightarrow> ('w, unit) go"
  s3_Upload :: "string \<Rightarrow> string \<Rightarrow> 'w reader \<Rightarrow> ('w, unit) go"
  s3_ListObjectVersions :: "string \<Rightarrow> string \<Rightarrow> ('w, s3_object list) go"

section \<open>The provider\<close>

definition s3_validate :: "s3_config \<Rightarrow> err option" where
  "s3_validate c =
     (if s3_BucketName c = '''' then Some (ErrText ''s3 bucket name must not be empty'')
      else if s3_Endpoint c = '''' then Some (ErrText ''s3 endpoint must not be empty'')
      else if s3_AccessKey c = '''' then Some (ErrText ''s3 accesskey must not be empty'')
      else if s3_SecretKey c = '''' then Some (ErrText ''s3 secretkey must not be empty'')
      else if s3_InsecureSkipVerify c = Some True \<and> s3_TrustedCaCert c \<noteq> None then
        Some (ErrText ''s3 skip verify certificate and trusted CA certificate cannot be set at the same time'')
      else (case s3_RequestChecksumCalculation c of
          None \<Rightarrow> None
        | Some r \<Rightarrow> if r = checksumWhenRequired \<or> r = checksumWhenSupported then None
            else Some (ErrText ''s3 request checksum calculation must be when_required or when_supported'')))"

text \<open>What the client is made from: the transport, the credentials and the options.\<close>

datatype s3_transport = DefaultTransport | SkipVerify | TrustedCA string

record s3_options =
  o_transport :: s3_transport
  o_AccessKey :: string
  o_SecretKey :: string
  o_Region :: string
  o_BaseEndpoint :: string
  o_UsePathStyle :: bool
  o_Checksum :: "string option"

definition s3_New ::
  "(s3_options \<Rightarrow> err + 'w s3_client) \<Rightarrow> s3_config option \<Rightarrow> err + ('w s3_client \<times> s3_config)" where
  "s3_New mk cfg = (case cfg of
     None \<Rightarrow> Inl (ErrText ''s3 backup provider requires a provider config'')
   | Some c0 \<Rightarrow>
      let c = c0\<lparr>s3_ObjectsToKeep := if s3_ObjectsToKeep c0 = 0 then word_of_int DefaultObjectsToKeep else s3_ObjectsToKeep c0,
                 s3_BackupName := if s3_BackupName c0 = '''' then s3_defaultBackupName else s3_BackupName c0\<rparr>
      in (case s3_validate c of
            Some e \<Rightarrow> Inl e
          | None \<Rightarrow>
             let t1 = (if s3_InsecureSkipVerify c = Some True then SkipVerify else DefaultTransport);
                 t2 = (case s3_TrustedCaCert c of Some ca \<Rightarrow> TrustedCA ca | None \<Rightarrow> t1)
             in (case mk \<lparr>o_transport = t2, o_AccessKey = s3_AccessKey c, o_SecretKey = s3_SecretKey c,
                     o_Region = s3_Region c, o_BaseEndpoint = s3_Endpoint c, o_UsePathStyle = True,
                     o_Checksum = s3_RequestChecksumCalculation c\<rparr> of
                   Inl e \<Rightarrow> Inl e
                 | Inr cl \<Rightarrow> Inr (cl, c))))"

text \<open>\<open>errors.As\<close> finds an error type of the client anywhere in the chain.\<close>

fun errors_As_Ext :: "string \<Rightarrow> err \<Rightarrow> bool" where
  "errors_As_Ext n (ErrExt m _) = (m = n)"
| "errors_As_Ext n (ErrWrap _ e) = errors_As_Ext n e"
| "errors_As_Ext n _ = False"

definition lifecycleRuleID :: "s3_config \<Rightarrow> string" where
  "lifecycleRuleID c = s3_ObjectPrefix c @ ''-backup-restore-lifecycle''"

definition s3_own_rule :: "s3_config \<Rightarrow> s3_rule" where
  "s3_own_rule c = \<lparr>r_ID = Some (lifecycleRuleID c), r_Prefix = Some (s3_ObjectPrefix c @ ''/''), r_Enabled = True,
     r_NewerNoncurrentVersions = Some (s3_ObjectsToKeep c), r_NoncurrentDays = s3_ObjectDaysToKeep c, r_rest = 0\<rparr>"

definition s3_rules :: "s3_config \<Rightarrow> s3_rule list option \<Rightarrow> s3_rule list" where
  "s3_rules c out = s3_own_rule c #
     (case out of None \<Rightarrow> []
      | Some rs \<Rightarrow> filter (\<lambda>r. case r_ID r of None \<Rightarrow> False | Some i \<Rightarrow> i \<noteq> lifecycleRuleID c) rs)"

definition s3_EnsureBackupBucket :: "'w s3_client \<Rightarrow> s3_config \<Rightarrow> ('w, unit) go" where
  "s3_EnsureBackupBucket cl c =
     bnd (wrapE ''unable to list backup buckets'' (s3_ListBuckets cl)) (\<lambda>buckets.
     let alreadyExists = list_ex (\<lambda>b. case b of None \<Rightarrow> False | Some n \<Rightarrow> n = s3_BucketName c) buckets in
     bnd (if alreadyExists then ret ()
          else bnd (attempt (s3_CreateBucket cl (s3_BucketName c))) (\<lambda>r. case r of
             Inr _ \<Rightarrow> ret ()
           | Inl e \<Rightarrow> if \<not> errors_As_Ext ''BucketAlreadyExists'' e \<and> \<not> errors_As_Ext ''BucketAlreadyOwnedByYou'' e
                      then fail e else ret ())) (\<lambda>_.
     bnd (s3_PutBucketVersioning cl (s3_BucketName c) True) (\<lambda>_.
     bnd (s3_GetBucketLifecycle cl (s3_BucketName c)) (\<lambda>(out, e).
     bnd (case (out, e) of (Some _, Some x) \<Rightarrow> fail x | _ \<Rightarrow> ret ()) (\<lambda>_.
     s3_PutBucketLifecycle cl (s3_BucketName c) (s3_rules c out))))))"

definition s3_CleanupBackups :: "'w s3_client \<Rightarrow> s3_config \<Rightarrow> ('w, unit) go" where
  "s3_CleanupBackups cl c = ret ()"

definition s3_DownloadBackup :: "'w s3_client \<Rightarrow> s3_config \<Rightarrow> version \<Rightarrow> 'w writer \<Rightarrow> ('w, unit) go" where
  "s3_DownloadBackup cl c v wr =
     s3_Download cl (s3_BucketName c) (bv_name v) (bv_version v) (SequentialWriterAt_WriteAt wr)"

text \<open>The key of an uploaded object: the fixed name \<open>db\<close>, whatever \<open>BackupName\<close> says.\<close>

definition s3_key :: "s3_config \<Rightarrow> string" where
  "s3_key c = (let destination = s3_defaultBackupName @ s3_Suffix c in
     if s3_ObjectPrefix c \<noteq> '''' then s3_ObjectPrefix c @ ''/'' @ destination else destination)"

definition s3_UploadBackup :: "'w s3_client \<Rightarrow> s3_config \<Rightarrow> 'w reader \<Rightarrow> ('w, unit) go" where
  "s3_UploadBackup cl c rd = s3_Upload cl (s3_BucketName c) (s3_key c) rd"

definition s3_GetNextBackupName :: "s3_config \<Rightarrow> ('w, string) go" where
  "s3_GetNextBackupName c = ret (s3_BackupName c)"

fun s3_versions :: "s3_object list \<Rightarrow> err + version list" where
  "s3_versions [] = Inr []"
| "s3_versions (a # as) =
     (case (so_Key a, so_VersionId a, so_LastModified a) of
        (Some k, Some v, Some t) \<Rightarrow>
          (case s3_versions as of Inl e \<Rightarrow> Inl e
           | Inr vs \<Rightarrow> Inr (\<lparr>bv_name = k, bv_version = v, bv_date = t\<rparr> # vs))
      | _ \<Rightarrow> Inl (Panic ''nil pointer dereference''))"

definition s3_List :: "ties \<Rightarrow> s3_object list \<Rightarrow> err + version list" where
  "s3_List sws as = (case s3_versions as of Inl e \<Rightarrow> Inl e | Inr vs \<Rightarrow> Inr (Sort sws vs))"

definition backupVersionsS3 :: "ties \<Rightarrow> s3_object list \<Rightarrow> backup_versions" where
  "backupVersionsS3 sws as =
     \<lparr>bvs_Latest = (case s3_List sws as of Inl e \<Rightarrow> Inl e | Inr vs \<Rightarrow> Inr (common_Latest sws vs)),
      bvs_List = s3_List sws as,
      bvs_Get = (\<lambda>k. case s3_List sws as of Inl e \<Rightarrow> Inl e | Inr vs \<Rightarrow> common_Get vs k)\<rparr>"

definition s3_ListBackups :: "'w s3_client \<Rightarrow> s3_config \<Rightarrow> ties \<Rightarrow> ('w, backup_versions) go" where
  "s3_ListBackups cl c sws =
     bnd (s3_ListObjectVersions cl (s3_BucketName c) (s3_ObjectPrefix c)) (\<lambda>as.
     ret (backupVersionsS3 sws as))"

definition s3_provider :: "'w s3_client \<Rightarrow> s3_config \<Rightarrow> ties \<Rightarrow> 'w provider" where
  "s3_provider cl c sws =
     \<lparr>bp_EnsureBackupBucket = s3_EnsureBackupBucket cl c,
      bp_ListBackups = s3_ListBackups cl c sws,
      bp_CleanupBackups = s3_CleanupBackups cl c,
      bp_GetNextBackupName = s3_GetNextBackupName c,
      bp_DownloadBackup = s3_DownloadBackup cl c,
      bp_UploadBackup = s3_UploadBackup cl c\<rparr>"

section \<open>Facts\<close>

definition s3_items :: "s3_object list \<Rightarrow> (string \<times> int) set" where
  "s3_items as = {(k, t). \<exists>a\<in>set as. so_Key a = Some k \<and> so_LastModified a = Some t}"

lemma s3_versions_items: "s3_versions as = Inr vs \<Longrightarrow> item ` set vs = s3_items as"
proof (induction as arbitrary: vs)
  case (Cons a as)
  then obtain k v t us where a: "so_Key a = Some k" "so_VersionId a = Some v" "so_LastModified a = Some t"
    "s3_versions as = Inr us" "vs = \<lparr>bv_name = k, bv_version = v, bv_date = t\<rparr> # us"
    by (auto split: option.splits sum.splits)
  then have "item ` set us = s3_items as" using Cons.IH by blast
  then show ?case using a by (auto simp: s3_items_def item_def image_iff)
qed (simp add: s3_items_def)

interpretation s3_versions: version_list "backupVersionsS3 sws" sws s3_items for sws
proof
  show "item ` set vs = s3_items x" if "bvs_List (backupVersionsS3 sws x) = Inr vs" for x vs
    using that s3_versions_items [of x] by (auto simp: backupVersionsS3_def s3_List_def split: sum.splits)
qed (auto simp: backupVersionsS3_def s3_List_def split: sum.splits)

text \<open>The rules that are put: the sidecar's own one first and once, then those of others.\<close>

lemma s3_rules_own: "filter (\<lambda>r. r_ID r = Some (lifecycleRuleID c)) (s3_rules c out) = [s3_own_rule c]"
  by (auto simp: s3_rules_def s3_own_rule_def filter_empty_conv split: option.splits)

lemma s3_rules_others:
  "filter (\<lambda>r. r_ID r \<noteq> Some (lifecycleRuleID c)) (s3_rules c (Some rs)) =
   filter (\<lambda>r. r_ID r \<noteq> None \<and> r_ID r \<noteq> Some (lifecycleRuleID c)) rs"
  by (auto simp: s3_rules_def s3_own_rule_def intro!: filter_cong split: option.splits)

lemma s3_rules_again: "s3_rules c (Some (s3_rules c out)) = s3_rules c out"
  by (auto simp: s3_rules_def s3_own_rule_def split: option.split)

section \<open>Properties\<close>

text \<open>What the code relies on: \<open>cfg\<close> is the lifecycle configuration of the bucket, which the get
  reads (or fails without an output), the put replaces, and the other calls leave alone.\<close>

definition lifecycle_store :: "'w s3_client \<Rightarrow> string \<Rightarrow> ('w \<Rightarrow> s3_rule list option) \<Rightarrow> bool" where
  "lifecycle_store cl b cfg \<longleftrightarrow>
     same cfg (s3_ListBuckets cl) \<and> same cfg (s3_CreateBucket cl b) \<and> same cfg (s3_PutBucketVersioning cl b True) \<and>
     (\<forall>w out e w'. s3_GetBucketLifecycle cl b w = (Inr (out, e), w') \<longrightarrow>
        cfg w' = cfg w \<and> (out = cfg w \<or> out = None \<and> e \<noteq> None)) \<and>
     (\<forall>rs w u w'. s3_PutBucketLifecycle cl b rs w = (Inr u, w') \<longrightarrow> cfg w' = Some rs)"

text \<open>C28: when \<open>EnsureBackupBucket\<close> succeeds, the lifecycle configuration of the bucket holds the
  sidecar's rule once, in front of exactly those earlier rules of others that carry an ID, in their
  order; the only other outcome is that the rules of others are lost, because a failing get
  without an output is taken for a bucket without rules.\<close>

theorem s3_Ensure_rules:
  assumes "lifecycle_store cl (s3_BucketName c) cfg" "s3_EnsureBackupBucket cl c w = (Inr u, w')"
  shows "\<exists>others. cfg w' = Some (s3_own_rule c # others) \<and>
     filter (\<lambda>r. r_ID r = Some (lifecycleRuleID c)) others = [] \<and>
     (others = filter (\<lambda>r. r_ID r \<noteq> None \<and> r_ID r \<noteq> Some (lifecycleRuleID c))
        (case cfg w of None \<Rightarrow> [] | Some rs \<Rightarrow> rs) \<or>
      others = [] \<and> (\<exists>w0 e w1. s3_GetBucketLifecycle cl (s3_BucketName c) w0 = (Inr (None, Some e), w1)))"
proof -
  from assms(2) obtain bs w1 w2 w3 out e w4 w5 where
    1: "s3_ListBuckets cl w = (Inr bs, w1)"
    and 2: "(if list_ex (\<lambda>b. case b of None \<Rightarrow> False | Some n \<Rightarrow> n = s3_BucketName c) bs then ret ()
          else bnd (attempt (s3_CreateBucket cl (s3_BucketName c))) (\<lambda>r. case r of
             Inr _ \<Rightarrow> ret ()
           | Inl e \<Rightarrow> if \<not> errors_As_Ext ''BucketAlreadyExists'' e \<and> \<not> errors_As_Ext ''BucketAlreadyOwnedByYou'' e
                      then fail e else ret ())) w1 = (Inr (), w2)"
    and 3: "s3_PutBucketVersioning cl (s3_BucketName c) True w2 = (Inr (), w3)"
    and 4: "s3_GetBucketLifecycle cl (s3_BucketName c) w3 = (Inr (out, e), w4)"
    and 5: "(case (out, e) of (Some _, Some x) \<Rightarrow> fail x | _ \<Rightarrow> ret ()) w4 = (Inr (), w5)"
    and 6: "s3_PutBucketLifecycle cl (s3_BucketName c) (s3_rules c out) w5 = (Inr u, w')"
    unfolding s3_EnsureBackupBucket_def Let_def by (auto simp: bnd_eq_Inr wrapE_eq_Inr split: prod.splits)
  note st = assms(1) [unfolded lifecycle_store_def]
  have "cfg w1 = cfg w" using st 1 by (auto simp: same_run)
  moreover have "cfg w2 = cfg w1"
  proof -
    have "same cfg (if list_ex (\<lambda>b. case b of None \<Rightarrow> False | Some n \<Rightarrow> n = s3_BucketName c) bs then ret ()
          else bnd (attempt (s3_CreateBucket cl (s3_BucketName c))) (\<lambda>r. case r of
             Inr _ \<Rightarrow> ret ()
           | Inl e \<Rightarrow> if \<not> errors_As_Ext ''BucketAlreadyExists'' e \<and> \<not> errors_As_Ext ''BucketAlreadyOwnedByYou'' e
                      then fail e else ret ()))"
      by (intro keeps) (use st in auto)
    then show ?thesis using 2 unfolding same_run by blast
  qed
  moreover have "cfg w3 = cfg w2" using st 3 by (auto simp: same_run)
  ultimately have out: "out = cfg w \<or> out = None \<and> e \<noteq> None" using st 4 by metis
  have put: "cfg w' = Some (s3_rules c out)" using st 6 by blast
  show ?thesis
  proof (intro exI conjI)
    show "cfg w' = Some (s3_own_rule c # tl (s3_rules c out))" using put by (simp add: s3_rules_def)
    show "filter (\<lambda>r. r_ID r = Some (lifecycleRuleID c)) (tl (s3_rules c out)) = []"
      using s3_rules_own [of c out] by (auto simp: s3_rules_def filter_empty_conv split: option.splits)
    have "tl (s3_rules c x) = filter (\<lambda>r. r_ID r \<noteq> None \<and> r_ID r \<noteq> Some (lifecycleRuleID c))
        (case x of None \<Rightarrow> [] | Some rs \<Rightarrow> rs)" for x
      by (auto simp: s3_rules_def intro!: filter_cong split: option.splits)
    then show "tl (s3_rules c out) = filter (\<lambda>r. r_ID r \<noteq> None \<and> r_ID r \<noteq> Some (lifecycleRuleID c))
        (case cfg w of None \<Rightarrow> [] | Some rs \<Rightarrow> rs) \<or>
      tl (s3_rules c out) = [] \<and> (\<exists>w0 e w1. s3_GetBucketLifecycle cl (s3_BucketName c) w0 = (Inr (None, Some e), w1))"
      using out 4 by (auto simp: s3_rules_def)
  qed
qed

text \<open>A bucket for concrete runs: the world is its lifecycle configuration.\<close>

definition a_bucket :: "s3_rule list option s3_client" where
  "a_bucket = \<lparr>s3_ListBuckets = ret [Some ''b''], s3_CreateBucket = (\<lambda>_. ret ()), s3_PutBucketVersioning = (\<lambda>_ _. ret ()),
     s3_GetBucketLifecycle = (\<lambda>_. asks (\<lambda>w. (w, None))), s3_PutBucketLifecycle = (\<lambda>_ rs. upd (\<lambda>_. Some rs)),
     s3_Download = (\<lambda>_ _ _ _. ret ()), s3_Upload = (\<lambda>_ _ _. ret ()), s3_ListObjectVersions = (\<lambda>_ _. ret [])\<rparr>"

definition a_s3 :: s3_config where
  "a_s3 = \<lparr>s3_BucketName = ''b'', s3_Endpoint = ''e'', s3_Region = '''', s3_AccessKey = ''a'', s3_SecretKey = ''s'',
     s3_BackupName = ''db'', s3_InsecureSkipVerify = None, s3_TrustedCaCert = None, s3_ObjectPrefix = ''p'',
     s3_ObjectsToKeep = 20, s3_ObjectDaysToKeep = None, s3_Suffix = ''.tar'', s3_RequestChecksumCalculation = None\<rparr>"

definition a_rule :: "string \<Rightarrow> s3_rule" where
  "a_rule i = \<lparr>r_ID = Some i, r_Prefix = None, r_Enabled = True, r_NewerNoncurrentVersions = None, r_NoncurrentDays = None, r_rest = 7\<rparr>"

lemma a_bucket_run: "s3_EnsureBackupBucket a_bucket a_s3 w = (Inr (), Some (s3_rules a_s3 w))"
  by (cases w) (simp_all add: s3_EnsureBackupBucket_def a_bucket_def a_s3_def run)

theorem s3_Ensure_rules_witness:
  "snd (s3_EnsureBackupBucket a_bucket a_s3 (Some [a_rule ''x''])) = Some [s3_own_rule a_s3, a_rule ''x'']"
proof -
  have "lifecycle_store a_bucket (s3_BucketName a_s3) id"
    by (auto simp: lifecycle_store_def a_bucket_def same_def run)
  from s3_Ensure_rules [OF this a_bucket_run, of "Some [a_rule ''x'']"]
  have "s3_rules a_s3 (Some [a_rule ''x'']) = [s3_own_rule a_s3, a_rule ''x'']"
    by (auto simp: a_bucket_def a_rule_def lifecycleRuleID_def a_s3_def asks_def)
  then show ?thesis by (simp add: a_bucket_run)
qed

text \<open>The uploads of a sidecar are found by its listing, but the lifecycle rule that is to clean
  them up covers them only if an object prefix is configured: without one the rule's prefix is a
  slash, with which the key of an upload does not begin.\<close>

theorem s3_lifecycle_covers_uploads:
  "strings_HasPrefix (s3_key c) (s3_ObjectPrefix c) \<and>
   ((\<exists>p. r_Prefix (s3_own_rule c) = Some p \<and> strings_HasPrefix (s3_key c) p) \<longleftrightarrow> s3_ObjectPrefix c \<noteq> '''')"
  by (auto simp: s3_key_def s3_own_rule_def strings_HasPrefix_def s3_defaultBackupName_def Let_def)

text \<open>The version that a complete object version stands for.\<close>

definition s3_version :: "s3_object \<Rightarrow> version" where
  "s3_version a = \<lparr>bv_name = the (so_Key a), bv_version = the (so_VersionId a), bv_date = the (so_LastModified a)\<rparr>"

lemma s3_versions_complete:
  "list_all (\<lambda>a. so_Key a \<noteq> None \<and> so_VersionId a \<noteq> None \<and> so_LastModified a \<noteq> None) objs \<Longrightarrow>
   s3_versions objs = Inr (map s3_version objs)"
  by (induction objs) (auto simp: s3_version_def)

text \<open>C29: of complete object versions, the list has exactly one version for each, with the object's key as its name, the
  version id as its version and the time of its modification, the newest first.  \<open>Latest\<close> is one of them than
  which none is newer, and absent only if there are none.  \<open>Get\<close> gives a version of the list with the version string asked for
  whenever there is one, and with different version ids it finds every version.\<close>

theorem s3_versions_correct:
  assumes "list_all (\<lambda>a. so_Key a \<noteq> None \<and> so_VersionId a \<noteq> None \<and> so_LastModified a \<noteq> None) objs"
  shows "\<exists>latest vs. bvs_List (backupVersionsS3 sws objs) = Inr vs \<and> mset vs = mset (map s3_version objs) \<and> newest_first vs \<and>
     bvs_Latest (backupVersionsS3 sws objs) = Inr latest \<and> (latest = None \<longleftrightarrow> objs = []) \<and>
     (\<forall>v. latest = Some v \<longrightarrow> v \<in> set vs \<and> (\<forall>u\<in>set vs. bv_date u \<le> bv_date v)) \<and>
     (\<forall>k v. bvs_Get (backupVersionsS3 sws objs) k = Inr v \<longrightarrow> bv_version v = k \<and> v \<in> set vs) \<and>
     (\<forall>k e. bvs_Get (backupVersionsS3 sws objs) k = Inl e \<longrightarrow> k \<notin> bv_version ` set vs) \<and>
     (distinct (map so_VersionId objs) \<longrightarrow> (\<forall>v\<in>set vs. bvs_Get (backupVersionsS3 sws objs) (bv_version v) = Inr v))"
proof -
  let ?bv = "backupVersionsS3 sws objs" and ?vs = "Sort sws (map s3_version objs)"
  note us = s3_versions_complete [OF assms]
  have eq: "bvs_List ?bv = Inr ?vs" "bvs_Latest ?bv = Inr (common_Latest sws ?vs)" "bvs_Get ?bv = common_Get ?vs"
    by (simp_all add: backupVersionsS3_def s3_List_def us)
  have newest: "\<forall>v. common_Latest sws ?vs = Some v \<longrightarrow> v \<in> set ?vs \<and> (\<forall>u\<in>set ?vs. bv_date u \<le> bv_date v)"
    using Latest_newest by blast
  have found: "\<forall>k v. common_Get ?vs k = Inr v \<longrightarrow> bv_version v = k \<and> v \<in> set ?vs"
    using in_set_conv_decomp [of _ ?vs] by (auto simp: Get_Inr simp del: set_Sort)
  have absent: "\<forall>k e. common_Get ?vs k = Inl e \<longrightarrow> k \<notin> bv_version ` set ?vs"
    using Get_Inl by blast
  have every: "distinct (map so_VersionId objs) \<longrightarrow> (\<forall>v\<in>set ?vs. common_Get ?vs (bv_version v) = Inr v)"
  proof (intro impI ballI)
    fix v assume d: "distinct (map so_VersionId objs)" and v: "v \<in> set ?vs"
    have "map so_VersionId objs = map Some (map bv_version (map s3_version objs))"
      using assms by (auto simp: list_all_iff s3_version_def)
    then have "distinct (map bv_version (map s3_version objs))" using d by (simp only: distinct_map)
    moreover have "mset (map bv_version ?vs) = mset (map bv_version (map s3_version objs))" by (simp add: multiset.map_comp)
    ultimately have "distinct (map bv_version ?vs)" by (metis mset_eq_imp_distinct_iff)
    then show "common_Get ?vs (bv_version v) = Inr v" using s3_versions.Get_finds [OF eq(1) v] eq(3) by simp
  qed
  have lat: "common_Latest sws ?vs = None \<longleftrightarrow> objs = []" by simp
  show ?thesis unfolding eq
    by (intro exI [of _ "common_Latest sws ?vs"] exI [of _ ?vs] conjI refl mset_Sort newest_first_Sort lat newest found absent every)
qed

theorem s3_versions_correct_witness:
  "\<exists>v vs. bvs_List (backupVersionsS3 (\<lambda>_. [])
     [\<lparr>so_Key = Some ''p/db'', so_VersionId = Some ''x'', so_LastModified = Some 3\<rparr>,
      \<lparr>so_Key = Some ''p/db'', so_VersionId = Some ''y'', so_LastModified = Some 5\<rparr>]) = Inr vs \<and>
     mset vs = {# \<lparr>bv_name = ''p/db'', bv_version = ''x'', bv_date = 3\<rparr>, \<lparr>bv_name = ''p/db'', bv_version = ''y'', bv_date = 5\<rparr> #} \<and>
     bvs_Latest (backupVersionsS3 (\<lambda>_. [])
     [\<lparr>so_Key = Some ''p/db'', so_VersionId = Some ''x'', so_LastModified = Some 3\<rparr>,
      \<lparr>so_Key = Some ''p/db'', so_VersionId = Some ''y'', so_LastModified = Some 5\<rparr>]) = Inr (Some v) \<and> bv_version v = ''y''"
proof -
  let ?objs = "[\<lparr>so_Key = Some ''p/db'', so_VersionId = Some ''x'', so_LastModified = Some 3\<rparr>,
      \<lparr>so_Key = Some ''p/db'', so_VersionId = Some ''y'', so_LastModified = Some (5 :: int)\<rparr>]"
  have "list_all (\<lambda>a. so_Key a \<noteq> None \<and> so_VersionId a \<noteq> None \<and> so_LastModified a \<noteq> None) ?objs" "?objs \<noteq> []" by simp_all
  from s3_versions_correct [OF this(1), of "\<lambda>_. []"] this(2) obtain latest vs where
    l: "bvs_List (backupVersionsS3 (\<lambda>_. []) ?objs) = Inr vs" "mset vs = mset (map s3_version ?objs)"
    "bvs_Latest (backupVersionsS3 (\<lambda>_. []) ?objs) = Inr latest" "latest \<noteq> None"
    "\<And>v. latest = Some v \<Longrightarrow> v \<in> set vs \<and> (\<forall>u\<in>set vs. bv_date u \<le> bv_date v)" by blast
  obtain v where v: "latest = Some v" using l(4) by blast
  have s: "set vs = set (map s3_version ?objs)" using l(2) by (metis set_mset_mset)
  have "v \<in> set (map s3_version ?objs) \<and> (\<forall>u\<in>set (map s3_version ?objs). bv_date u \<le> bv_date v)"
    using l(5) [OF v] unfolding s .
  then have "bv_version v = ''y''" by (auto simp: s3_version_def)
  then show ?thesis using l(1-3) v by (intro exI [of _ v] exI [of _ vs]) (simp add: s3_version_def)
qed

end
