(* ===== verification/GcpProvider.thy ===== *)
theory GcpProvider
  imports Providers Utils
begin

text \<open>
  \<open>cmd/internal/backup/providers/gcp\<close>: backups as generations of one object in a Google Cloud
  Storage bucket.  The calls of the storage client are a parameter (\<open>gcp_client\<close>).  An object
  writer stores the object only when it is closed; the close is a call of its own, with its own
  error.
\<close>

definition gcp_defaultBackupName :: string where "gcp_defaultBackupName = ''db''"

record gcp_config =
  gcp_BucketName :: string
  gcp_BucketLocation :: string
  gcp_BackupName :: string
  gcp_ObjectPrefix :: string
  gcp_ObjectsToKeep :: int
  gcp_ProjectID :: string
  gcp_ClientOpts :: "nat option list"
  gcp_Suffix :: string

text \<open>A lifecycle rule; what the sidecar does not set is in \<open>g_rest\<close>.\<close>

record gcp_rule =
  g_NumNewerVersions :: int
  g_MatchesPrefix :: "string list"
  g_Action :: string
  g_rest :: nat

record gcp_object =
  go_Name :: string
  go_Generation :: "64 word"
  go_Updated :: int

record 'w gcp_client =
  gc_Create :: "string \<Rightarrow> string \<Rightarrow> string \<Rightarrow> gcp_rule list \<Rightarrow> ('w, unit) go"
  gc_Attrs :: "string \<Rightarrow> ('w, int \<times> gcp_rule list) go"
  gc_Update :: "string \<Rightarrow> int \<Rightarrow> bool \<Rightarrow> gcp_rule list \<Rightarrow> ('w, unit) go"
  gc_NewReader :: "string \<Rightarrow> string \<Rightarrow> int \<Rightarrow> ('w, 'w reader) go"
  gc_NewWriter :: "string \<Rightarrow> string \<Rightarrow> ('w, nat) go"
  gc_Write :: "nat \<Rightarrow> 'w writer"
  gc_Close :: "nat \<Rightarrow> ('w, unit) go"
  gc_Next :: "string \<Rightarrow> string \<Rightarrow> nat \<Rightarrow> ('w, gcp_object option) go"

section \<open>The provider\<close>

definition gcp_validate :: "gcp_config \<Rightarrow> err option" where
  "gcp_validate c =
     (if gcp_BucketName c = '''' then Some (ErrText ''gcp bucket name must not be empty'')
      else if gcp_ProjectID c = '''' then Some (ErrText ''gcp project id must not be empty'')
      else if list_ex (\<lambda>o'. o' = None) (gcp_ClientOpts c) then Some (ErrText ''option can not be nil'')
      else None)"

definition gcp_New ::
  "(nat option list \<Rightarrow> err + 'w gcp_client) \<Rightarrow> gcp_config option \<Rightarrow> err + ('w gcp_client \<times> gcp_config)" where
  "gcp_New mk config = (case config of
     None \<Rightarrow> Inl (ErrText ''gcp backup provider requires a provider config'')
   | Some c0 \<Rightarrow>
      let c = c0\<lparr>gcp_ObjectsToKeep := if gcp_ObjectsToKeep c0 = 0 then DefaultObjectsToKeep else gcp_ObjectsToKeep c0,
                 gcp_BackupName := if gcp_BackupName c0 = '''' then gcp_defaultBackupName else gcp_BackupName c0\<rparr>
      in (case gcp_validate c of
            Some e \<Rightarrow> Inl e
          | None \<Rightarrow> (case mk (gcp_ClientOpts c) of Inl e \<Rightarrow> Inl e | Inr cl \<Rightarrow> Inr (cl, c))))"

definition gcp_own_rule :: "gcp_config \<Rightarrow> gcp_rule" where
  "gcp_own_rule c = \<lparr>g_NumNewerVersions = gcp_ObjectsToKeep c, g_MatchesPrefix = [gcp_ObjectPrefix c],
     g_Action = ''Delete'', g_rest = 0\<rparr>"

text \<open>\<open>slices.IndexFunc\<close> and the replacement of the first rule that names the own prefix.\<close>

definition names_prefix :: "gcp_config \<Rightarrow> gcp_rule \<Rightarrow> bool" where
  "names_prefix c r \<longleftrightarrow> list_ex (\<lambda>p. p = gcp_ObjectPrefix c) (g_MatchesPrefix r)"

fun index_from :: "('a \<Rightarrow> bool) \<Rightarrow> nat \<Rightarrow> 'a list \<Rightarrow> nat option" where
  "index_from P i [] = None"
| "index_from P i (x # xs) = (if P x then Some i else index_from P (Suc i) xs)"

definition gcp_rules :: "gcp_config \<Rightarrow> gcp_rule list \<Rightarrow> gcp_rule list" where
  "gcp_rules c rules = (case index_from (names_prefix c) 0 rules of
     Some idx \<Rightarrow> rules[idx := gcp_own_rule c]
   | None \<Rightarrow> rules @ [gcp_own_rule c])"

text \<open>An error of type \<open>googleapi.Error\<close> is \<open>ErrExt "googleapi.Error"\<close> with its code.\<close>

fun errors_As_google :: "err \<Rightarrow> int option" where
  "errors_As_google (ErrExt m code) = (if m = ''googleapi.Error'' then Some code else None)"
| "errors_As_google (ErrWrap _ e) = errors_As_google e"
| "errors_As_google _ = None"

definition StatusConflict :: int where "StatusConflict = 409"

definition gcp_EnsureBackupBucket :: "'w gcp_client \<Rightarrow> gcp_config \<Rightarrow> ('w, unit) go" where
  "gcp_EnsureBackupBucket cl c =
     bnd (attempt (gc_Create cl (gcp_BucketName c) (gcp_ProjectID c) (gcp_BucketLocation c) [gcp_own_rule c])) (\<lambda>r.
     bnd (case r of
            Inr _ \<Rightarrow> ret ()
          | Inl e \<Rightarrow> (case errors_As_google e of
              Some code \<Rightarrow> if code \<noteq> StatusConflict then fail e else ret ()
            | None \<Rightarrow> fail e)) (\<lambda>_.
     bnd (gc_Attrs cl (gcp_BucketName c)) (\<lambda>(meta, rules).
     gc_Update cl (gcp_BucketName c) meta True (gcp_rules c rules))))"

definition gcp_CleanupBackups :: "'w gcp_client \<Rightarrow> gcp_config \<Rightarrow> ('w, unit) go" where
  "gcp_CleanupBackups cl c = ret ()"

definition gcp_DownloadBackup :: "'w gcp_client \<Rightarrow> gcp_config \<Rightarrow> version \<Rightarrow> 'w writer \<Rightarrow> ('w, unit) go" where
  "gcp_DownloadBackup cl c v wr =
     bnd (liftR (ParseInt (bv_version v))) (\<lambda>gen.
     bnd (wrapE ''backup not found'' (gc_NewReader cl (gcp_BucketName c) (bv_name v) gen)) (\<lambda>r.
     wrapE ''error writing file from gcp to filesystem'' (io_Copy wr r)))"

definition gcp_key :: "gcp_config \<Rightarrow> string" where
  "gcp_key c = (let destination = gcp_defaultBackupName @ gcp_Suffix c in
     if gcp_ObjectPrefix c \<noteq> '''' then gcp_ObjectPrefix c @ ''/'' @ destination else destination)"

text \<open>The close is deferred after the copy, and its error is dropped.\<close>

definition gcp_UploadBackup :: "'w gcp_client \<Rightarrow> gcp_config \<Rightarrow> 'w reader \<Rightarrow> ('w, unit) go" where
  "gcp_UploadBackup cl c rd =
     bnd (gc_NewWriter cl (gcp_BucketName c) (gcp_key c)) (\<lambda>w.
     bnd (io_Copy (gc_Write cl w) rd) (\<lambda>_.
     bnd (attempt (gc_Close cl w)) (\<lambda>_. ret ())))"

definition gcp_GetNextBackupName :: "gcp_config \<Rightarrow> ('w, string) go" where
  "gcp_GetNextBackupName c = ret (gcp_BackupName c)"

text \<open>The first object of each generation.\<close>

fun gcp_versions :: "64 word set \<Rightarrow> gcp_object list \<Rightarrow> version list" where
  "gcp_versions seen [] = []"
| "gcp_versions seen (a # as) =
     (if go_Generation a \<in> seen then gcp_versions seen as
      else \<lparr>bv_name = go_Name a, bv_version = FormatInt (sint (go_Generation a)), bv_date = go_Updated a\<rparr>
           # gcp_versions (insert (go_Generation a) seen) as)"

definition gcp_List :: "ties \<Rightarrow> gcp_object list \<Rightarrow> version list" where
  "gcp_List sws as = Sort sws (gcp_versions {} as)"

definition backupVersionsGCP :: "ties \<Rightarrow> gcp_object list \<Rightarrow> backup_versions" where
  "backupVersionsGCP sws as =
     \<lparr>bvs_Latest = Inr (common_Latest sws (gcp_List sws as)),
      bvs_List = Inr (gcp_List sws as),
      bvs_Get = common_Get (gcp_List sws as)\<rparr>"

text \<open>The iterator: \<open>None\<close> is \<open>iterator.Done\<close>.  The fuel bounds the number of objects.\<close>

fun gcp_objects :: "nat \<Rightarrow> (nat \<Rightarrow> ('w, gcp_object option) go) \<Rightarrow> nat \<Rightarrow> ('w, gcp_object list) go" where
  "gcp_objects 0 next i = fail Diverges"
| "gcp_objects (Suc n) next i =
     bnd (next i) (\<lambda>r. case r of
       None \<Rightarrow> ret []
     | Some a \<Rightarrow> bnd (gcp_objects n next (Suc i)) (\<lambda>as. ret (a # as)))"

definition gcp_ListBackups :: "nat \<Rightarrow> 'w gcp_client \<Rightarrow> gcp_config \<Rightarrow> ties \<Rightarrow> ('w, backup_versions) go" where
  "gcp_ListBackups fuel cl c sws =
     bnd (gcp_objects fuel (gc_Next cl (gcp_BucketName c) (gcp_ObjectPrefix c)) 0) (\<lambda>as.
     ret (backupVersionsGCP sws as))"

definition gcp_provider :: "nat \<Rightarrow> 'w gcp_client \<Rightarrow> gcp_config \<Rightarrow> ties \<Rightarrow> 'w provider" where
  "gcp_provider fuel cl c sws =
     \<lparr>bp_EnsureBackupBucket = gcp_EnsureBackupBucket cl c,
      bp_ListBackups = gcp_ListBackups fuel cl c sws,
      bp_CleanupBackups = gcp_CleanupBackups cl c,
      bp_GetNextBackupName = gcp_GetNextBackupName c,
      bp_DownloadBackup = gcp_DownloadBackup cl c,
      bp_UploadBackup = gcp_UploadBackup cl c\<rparr>"

section \<open>Facts\<close>

definition gcp_items :: "gcp_object list \<Rightarrow> (string \<times> int) set" where
  "gcp_items as = item ` set (gcp_versions {} as)"

interpretation gcp_versions: version_list "backupVersionsGCP sws" sws gcp_items for sws
  by unfold_locales
    (auto simp: backupVersionsGCP_def gcp_List_def gcp_items_def)

lemma gcp_versions_sound:
  "v \<in> set (gcp_versions seen as) \<Longrightarrow>
   \<exists>a\<in>set as. go_Generation a \<notin> seen \<and> v = \<lparr>bv_name = go_Name a,
     bv_version = FormatInt (sint (go_Generation a)), bv_date = go_Updated a\<rparr>"
  by (induction seen as rule: gcp_versions.induct) (auto split: if_splits)

lemma gcp_versions_complete:
  "go_Generation a \<notin> seen \<Longrightarrow> a \<in> set as \<Longrightarrow>
   \<exists>v\<in>set (gcp_versions seen as). bv_version v = FormatInt (sint (go_Generation a))"
proof (induction seen as rule: gcp_versions.induct)
  case (2 seen b bs)
  show ?case
  proof (cases "go_Generation b \<in> seen \<or> go_Generation a = go_Generation b")
    case True
    then show ?thesis using 2 by auto
  next
    case False
    moreover from this have "a \<in> set bs" using 2(4) by auto
    ultimately show ?thesis using 2(2,3) by auto
  qed
qed simp

lemma ParseInt_generation: "ParseInt (FormatInt (sint (g :: 64 word))) = Inr (sint g)"
  by (rule ParseInt_FormatInt) (use sint_ge [of g] sint_less [of g] in simp_all)

lemma FormatInt_sint_inj: "FormatInt (sint (g :: 64 word)) = FormatInt (sint h) \<longleftrightarrow> g = h"
proof
  assume "FormatInt (sint g) = FormatInt (sint h)"
  then have "Inr (sint g) = (Inr (sint h) :: err + int)" by (simp flip: ParseInt_generation)
  then have "(of_int (sint g) :: 64 word) = of_int (sint h)" by simp
  then show "g = h" by (simp only: of_int_sint scast_id id_apply)
qed simp

lemma distinct_gcp_versions: "distinct (map bv_version (gcp_versions seen as))"
proof (induction seen as rule: gcp_versions.induct)
  case (2 seen a as)
  have "FormatInt (sint (go_Generation a)) \<notin> bv_version ` set (gcp_versions (insert (go_Generation a) seen) as)"
    using gcp_versions_sound [of _ "insert (go_Generation a) seen" as] by (fastforce simp: FormatInt_sint_inj)
  then show ?case using 2 by simp
qed simp

lemma index_from_Some: "index_from P i xs = Some k \<longleftrightarrow>
   (\<exists>ys x zs. xs = ys @ x # zs \<and> k = i + length ys \<and> P x \<and> (\<forall>y\<in>set ys. \<not> P y))"
proof (induction xs arbitrary: i)
  case (Cons x xs)
  show ?case
  proof (cases "P x")
    case True
    then show ?thesis by (auto simp: Cons_eq_append_conv)
  next
    case False
    have "(\<exists>ys u zs. x # xs = ys @ u # zs \<and> k = i + length ys \<and> P u \<and> (\<forall>y\<in>set ys. \<not> P y)) \<longleftrightarrow>
      (\<exists>ys u zs. xs = ys @ u # zs \<and> k = Suc i + length ys \<and> P u \<and> (\<forall>y\<in>set ys. \<not> P y))" (is "?L \<longleftrightarrow> ?R")
    proof
      assume ?L
      then obtain ys u zs where "x # xs = ys @ u # zs" "k = i + length ys" "P u" "\<forall>y\<in>set ys. \<not> P y" by blast
      with False show ?R by (cases ys) auto
    next
      assume ?R
      then obtain ys u zs where *: "xs = ys @ u # zs" "k = Suc i + length ys" "P u" "\<forall>y\<in>set ys. \<not> P y" by blast
      show ?L by (rule exI [of _ "x # ys"], rule exI [of _ u], rule exI [of _ zs]) (use * False in simp)
    qed
    then show ?thesis using Cons False by simp
  qed
qed simp

lemma index_from_None: "index_from P i xs = None \<longleftrightarrow> (\<forall>x\<in>set xs. \<not> P x)"
  by (induction xs arbitrary: i) auto

text \<open>The rules after an update: the own rule is there, at the place of the first rule that named
  the prefix or at the end, and all other rules are what they were.\<close>

lemma gcp_rules_cases:
  "(\<forall>r\<in>set rs. \<not> names_prefix c r) \<and> gcp_rules c rs = rs @ [gcp_own_rule c] \<or>
   (\<exists>us r vs. rs = us @ r # vs \<and> names_prefix c r \<and> (\<forall>u\<in>set us. \<not> names_prefix c u) \<and>
      gcp_rules c rs = us @ gcp_own_rule c # vs)"
proof (cases "index_from (names_prefix c) 0 rs")
  case None
  then show ?thesis using index_from_None [of "names_prefix c" 0 rs] by (simp add: gcp_rules_def)
next
  case (Some k)
  then obtain us r vs where rs: "rs = us @ r # vs" "k = length us" "names_prefix c r"
    "\<forall>u\<in>set us. \<not> names_prefix c u"
    using index_from_Some [of "names_prefix c" 0 rs k] by auto
  then have "gcp_rules c rs = us @ gcp_own_rule c # vs" using Some by (simp add: gcp_rules_def)
  with rs show ?thesis by blast
qed

lemma own_names_prefix: "names_prefix c (gcp_own_rule c)"
  by (simp add: names_prefix_def gcp_own_rule_def)

lemma gcp_rules_again: "gcp_rules c (gcp_rules c rs) = gcp_rules c rs"
proof -
  have again: "gcp_rules c (us @ gcp_own_rule c # vs) = us @ gcp_own_rule c # vs"
    if "\<forall>u\<in>set us. \<not> names_prefix c u" for us vs
  proof -
    have "index_from (names_prefix c) 0 (us @ gcp_own_rule c # vs) = Some (length us)"
      unfolding index_from_Some using that own_names_prefix [of c]
      by (intro exI [of _ us] exI [of _ "gcp_own_rule c"] exI [of _ vs]) simp
    then show ?thesis by (simp add: gcp_rules_def)
  qed
  show ?thesis using gcp_rules_cases [of rs c] again by auto
qed

section \<open>Properties\<close>

text \<open>The lifecycle rules that are written back contain the sidecar's rule, all rules that do not
  name its prefix, in their order and unchanged, and no more rules than one are added; a second run
  changes nothing.\<close>

theorem gcp_rules_correct:
  "gcp_own_rule c \<in> set (gcp_rules c rs) \<and>
   filter (\<lambda>r. \<not> names_prefix c r) (gcp_rules c rs) = filter (\<lambda>r. \<not> names_prefix c r) rs \<and>
   length (gcp_rules c rs) \<in> {length rs, Suc (length rs)} \<and>
   gcp_rules c (gcp_rules c rs) = gcp_rules c rs"
  using gcp_rules_cases [of rs c] own_names_prefix [of c] by (auto simp: gcp_rules_again)

text \<open>C27: a version of the listing can be fetched: its version string is found again by \<open>Get\<close>, and
  a download asks for exactly the object and the generation that were listed; no generation is left
  out of the listing.\<close>

theorem gcp_listed_downloadable:
  assumes "bvs_List (backupVersionsGCP sws objs) = Inr vs"
  shows "(\<forall>v\<in>set vs. bvs_Get (backupVersionsGCP sws objs) (bv_version v) = Inr v \<and>
      (\<exists>a\<in>set objs. bv_name v = go_Name a \<and> bv_date v = go_Updated a \<and>
        gcp_DownloadBackup cl c v wr =
          bnd (wrapE ''backup not found'' (gc_NewReader cl (gcp_BucketName c) (go_Name a) (sint (go_Generation a)))) (\<lambda>r.
          wrapE ''error writing file from gcp to filesystem'' (io_Copy wr r)))) \<and>
    (\<forall>a\<in>set objs. \<exists>v\<in>set vs. bv_version v = FormatInt (sint (go_Generation a)))"
proof -
  have vs: "vs = Sort sws (gcp_versions {} objs)" using assms by (simp add: backupVersionsGCP_def gcp_List_def)
  have "distinct (map bv_version vs)"
    using distinct_gcp_versions [of "{}" objs] by (metis mset_map mset_Sort mset_eq_imp_distinct_iff vs)
  then have get: "bvs_Get (backupVersionsGCP sws objs) (bv_version v) = Inr v" if "v \<in> set vs" for v
    using gcp_versions.Get_finds [OF assms that] by simp
  have *: "\<exists>a\<in>set objs. bv_name v = go_Name a \<and> bv_date v = go_Updated a \<and> bv_version v = FormatInt (sint (go_Generation a))"
    if "v \<in> set vs" for v
    using that gcp_versions_sound [of v "{}" objs] by (auto simp: vs)
  have "\<exists>a\<in>set objs. bv_name v = go_Name a \<and> bv_date v = go_Updated a \<and>
        gcp_DownloadBackup cl c v wr =
          bnd (wrapE ''backup not found'' (gc_NewReader cl (gcp_BucketName c) (go_Name a) (sint (go_Generation a)))) (\<lambda>r.
          wrapE ''error writing file from gcp to filesystem'' (io_Copy wr r))" if "v \<in> set vs" for v
  proof -
    from that obtain a where a: "a \<in> set objs" "bv_name v = go_Name a" "bv_date v = go_Updated a"
      "bv_version v = FormatInt (sint (go_Generation a))" using * by blast
    have "gcp_DownloadBackup cl c v wr =
        bnd (wrapE ''backup not found'' (gc_NewReader cl (gcp_BucketName c) (go_Name a) (sint (go_Generation a)))) (\<lambda>r.
        wrapE ''error writing file from gcp to filesystem'' (io_Copy wr r))"
      unfolding gcp_DownloadBackup_def a ParseInt_generation liftR_simps bnd_ret ..
    then show ?thesis using a(1-3) by blast
  qed
  moreover have "\<exists>v\<in>set vs. bv_version v = FormatInt (sint (go_Generation a))" if "a \<in> set objs" for a
    using gcp_versions_complete [of a "{}" objs] that by (simp add: vs)
  ultimately show ?thesis using get by blast
qed

theorem gcp_listed_downloadable_witness:
  "\<exists>vs. bvs_List (backupVersionsGCP (\<lambda>_. []) [\<lparr>go_Name = ''db'', go_Generation = 7, go_Updated = 1\<rparr>]) = Inr vs \<and>
     (\<exists>v\<in>set vs. bv_version v = ''7'')"
proof -
  let ?o = "[\<lparr>go_Name = ''db'', go_Generation = 7, go_Updated = 1\<rparr>]"
  obtain vs where vs: "bvs_List (backupVersionsGCP (\<lambda>_. []) ?o) = Inr vs" by (simp add: backupVersionsGCP_def)
  have "FormatInt (sint (7 :: 64 word)) = ''7''" by code_simp
  with gcp_listed_downloadable [OF vs] vs show ?thesis by auto
qed

text \<open>C35: an upload reports success although closing the object's writer failed: the error with
  which the storage service refuses the object is dropped.\<close>

theorem gcp_Upload_drops_close_error:
  assumes "gc_NewWriter cl (gcp_BucketName c) (gcp_key c) w = (Inr i, w1)"
    and "io_Copy (gc_Write cl i) rd w1 = (Inr (), w2)"
    and "gc_Close cl i w2 = (Inl e, w3)" "\<not> unwinds e"
  shows "gcp_UploadBackup cl c rd w = (Inr (), w3)"
  using assms by (simp add: gcp_UploadBackup_def bnd_run attempt_run ret_run)

text \<open>A storage that refuses every object; the world lists the objects stored.\<close>

definition a_refusing_store :: "string list gcp_client" where
  "a_refusing_store = \<lparr>gc_Create = (\<lambda>_ _ _ _. ret ()), gc_Attrs = (\<lambda>_. ret (0, [])), gc_Update = (\<lambda>_ _ _ _. ret ()),
     gc_NewReader = (\<lambda>_ _ _. fail (ErrExt ''googleapi.Error'' 404)), gc_NewWriter = (\<lambda>_ _. ret 0),
     gc_Write = (\<lambda>_ _. ret ()), gc_Close = (\<lambda>_. fail (ErrExt ''googleapi.Error'' 403)), gc_Next = (\<lambda>_ _ _. ret None)\<rparr>"

definition a_gcp :: gcp_config where
  "a_gcp = \<lparr>gcp_BucketName = ''b'', gcp_BucketLocation = ''eu'', gcp_BackupName = ''db'', gcp_ObjectPrefix = ''p'',
     gcp_ObjectsToKeep = 3, gcp_ProjectID = ''pr'', gcp_ClientOpts = [], gcp_Suffix = ''.tar''\<rparr>"

theorem gcp_Upload_drops_close_error_witness:
  "gcp_UploadBackup a_refusing_store a_gcp (ret ([1], None)) [] = (Inr (), [])"
proof -
  let ?c = a_gcp and ?e = "ErrExt ''googleapi.Error'' 403"
  have "gc_NewWriter a_refusing_store (gcp_BucketName ?c) (gcp_key ?c) [] = (Inr 0, [])"
    "io_Copy (gc_Write a_refusing_store 0) (ret ([1], None)) [] = (Inr (), [])"
    "gc_Close a_refusing_store 0 [] = (Inl ?e, [])" "\<not> unwinds ?e"
    by (simp_all add: a_refusing_store_def io_Copy_def run)
  then show ?thesis by (rule gcp_Upload_drops_close_error)
qed

end
