(* ===== verification/Sidecar.thy ===== *)
theory Sidecar
  imports Services Printer DbRedis DbEtcd DbRethink Postgres S3Provider GcpProvider
begin

text \<open>
  \<open>cmd/main.go\<close>: the commands of the program and how the parts are made from its configuration,
  and \<open>pkg/client\<close>.  Parameters: the configuration library (\<open>viper\<close>, its getters), and in \<open>env\<close>
  everything the parts need from outside the repository.
\<close>

section \<open>Configuration\<close>

record viper =
  GetString :: "string \<Rightarrow> string"
  GetInt :: "string \<Rightarrow> int"
  GetInt32 :: "string \<Rightarrow> 32 word"
  GetInt64 :: "string \<Rightarrow> 64 word"
  GetBool :: "string \<Rightarrow> bool"
  GetStringSlice :: "string \<Rightarrow> string list"
  IsSet :: "string \<Rightarrow> bool"

definition logLevelFlg :: string where "logLevelFlg = ''log-level''"
definition serverAddrFlg :: string where "serverAddrFlg = ''initializer-endpoint''"
definition bindAddrFlg :: string where "bindAddrFlg = ''bind-addr''"
definition portFlg :: string where "portFlg = ''port''"
definition databaseFlg :: string where "databaseFlg = ''db''"
definition databaseDatadirFlg :: string where "databaseDatadirFlg = ''db-data-directory''"
definition preExecCommandsFlg :: string where "preExecCommandsFlg = ''pre-exec-cmds''"
definition postExecCommandsFlg :: string where "postExecCommandsFlg = ''post-exec-cmds''"
definition postgresUserFlg :: string where "postgresUserFlg = ''postgres-user''"
definition postgresHostFlg :: string where "postgresHostFlg = ''postgres-host''"
definition postgresPasswordFlg :: string where "postgresPasswordFlg = ''postgres-password''"
definition postgresPortFlg :: string where "postgresPortFlg = ''postgres-port''"
definition redisAddrFlg :: string where "redisAddrFlg = ''redis-addr''"
definition redisPasswordFlg :: string where "redisPasswordFlg = ''redis-password''"
definition rethinkDBPasswordFileFlg :: string where "rethinkDBPasswordFileFlg = ''rethinkdb-passwordfile''"
definition rethinkDBURLFlg :: string where "rethinkDBURLFlg = ''rethinkdb-url''"
definition etcdCaCert :: string where "etcdCaCert = ''etcd-ca-cert''"
definition etcdCert :: string where "etcdCert = ''etcd-cert''"
definition etcdKey :: string where "etcdKey = ''etcd-key''"
definition etcdEndpoints :: string where "etcdEndpoints = ''etcd-endpoints''"
definition etcdName :: string where "etcdName = ''etcd-name''"
definition backupProviderFlg :: string where "backupProviderFlg = ''backup-provider''"
definition backupCronScheduleFlg :: string where "backupCronScheduleFlg = ''backup-cron-schedule''"
definition objectsToKeepFlg :: string where "objectsToKeepFlg = ''object-max-keep''"
definition objectDaysToKeepFlg :: string where "objectDaysToKeepFlg = ''object-days-max-keep''"
definition objectPrefixFlg :: string where "objectPrefixFlg = ''object-prefix''"
definition localBackupPathFlg :: string where "localBackupPathFlg = ''local-provider-backup-path''"
definition gcpBucketNameFlg :: string where "gcpBucketNameFlg = ''gcp-bucket-name''"
definition gcpBucketLocationFlg :: string where "gcpBucketLocationFlg = ''gcp-bucket-location''"
definition gcpProjectFlg :: string where "gcpProjectFlg = ''gcp-project''"
definition s3BucketNameFlg :: string where "s3BucketNameFlg = ''s3-bucket-name''"
definition s3RegionFlg :: string where "s3RegionFlg = ''s3-region''"
definition s3EndpointFlg :: string where "s3EndpointFlg = ''s3-endpoint''"
definition s3AccessKeyFlg :: string where "s3AccessKeyFlg = ''s3-access-key''"
definition s3SecretKeyFlg :: string where "s3SecretKeyFlg = ''s3-secret-key''"
definition s3InsecureSkipVerifyFlg :: string where "s3InsecureSkipVerifyFlg = ''s3-insecure-skip-verify''"
definition s3TrustedCaCertFlg :: string where "s3TrustedCaCertFlg = ''s3-trusted-ca-cert''"
definition s3RequestChecksumCalculationFlg :: string where "s3RequestChecksumCalculationFlg = ''s3-request-checksum-calculation''"
definition compressionMethod :: string where "compressionMethod = ''compression-method''"
definition encryptionKeyFlg :: string where "encryptionKeyFlg = ''encryption-key''"
definition downloadOutputFlg :: string where "downloadOutputFlg = ''output''"

datatype log_level = LevelDebug | LevelInfo | LevelWarn | LevelError

definition initLogging :: "viper \<Rightarrow> err + log_level" where
  "initLogging v =
     (if IsSet v logLevelFlg then
        (let l = strings_ToLower (GetString v logLevelFlg) in
         if l = ''info'' then Inr LevelInfo
         else if l = ''debug'' then Inr LevelDebug
         else if l = ''warn'' then Inr LevelWarn
         else if l = ''error'' then Inr LevelError
         else Inl (Panic (''unknown log level:'' @ GetString v logLevelFlg @ '' given'')))
      else Inr LevelInfo)"

section \<open>What the parts need from outside\<close>

record 'w env =
  e_exec :: "'w exec"
  e_getenv :: "string \<Rightarrow> string"
  e_redis :: "redis_options \<Rightarrow> 'w redis_client"
  e_pg :: "'w pg_env"
  e_sql :: "'w sql"
  e_rethink :: "'w rethink_driver"
  e_rethink_server :: "'w rethink_server"
  e_events :: "event list"
  e_start_events :: "event list"
  e_s3 :: "s3_options \<Rightarrow> err + 'w s3_client"
  e_gcp :: "nat option list \<Rightarrow> err + 'w gcp_client"
  e_objects :: nat
  e_ties :: ties
  e_archiver :: "'w archiver"
  e_aes :: "byte list \<Rightarrow> block_fn"
  e_Listen :: "string \<Rightarrow> ('w, unit) go"
  e_cron :: "string \<Rightarrow> err + nat"
  e_Register :: "collector \<Rightarrow> ('w, unit) go"
  e_table :: "table_options \<Rightarrow> 'w table"

text \<open>The password of redis is always set, to the empty one if it is not configured.\<close>

definition initDatabase :: "viper \<Rightarrow> ('x, 'm) world_scheme env \<Rightarrow> err + ('x, 'm) world_scheme database" where
  "initDatabase v env =
     (let datadir = GetString v databaseDatadirFlg; dbString = GetString v databaseFlg in
      if datadir = '''' then Inl (ErrText (''database data directory ('' @ databaseDatadirFlg @ '') must be set''))
      else if dbString = ''postgres'' then
        Inr (postgres_db (e_pg env) (e_sql env) (Postgres_New datadir (GetString v postgresHostFlg) (GetInt v postgresPortFlg)
          (GetString v postgresUserFlg) (GetString v postgresPasswordFlg)))
      else if dbString = ''rethinkdb'' then
        Inr (rethink_db (e_exec env) (e_rethink env) (e_rethink_server env) (e_events env)
          (RethinkDB_New datadir (GetString v rethinkDBURLFlg) (GetString v rethinkDBPasswordFileFlg)))
      else if dbString = ''etcd'' then
        Inr (etcd_db (e_exec env) (Etcd_New datadir (GetString v etcdCaCert) (GetString v etcdCert) (GetString v etcdKey)
          (GetString v etcdEndpoints) (GetString v etcdName)))
      else if dbString = ''redis'' \<or> dbString = ''keydb'' \<or> dbString = ''valkey'' then
        (let password = (if IsSet v redisPasswordFlg then GetString v redisPasswordFlg else '''') in
         case Redis_New (e_redis env) datadir (GetString v redisAddrFlg) (Some password) of
           Inl e \<Rightarrow> Inl e
         | Inr (d, cl) \<Rightarrow> Inr (redis d cl))
      else if dbString = ''localfs'' then Inr (localfs datadir)
      else Inl (ErrText (''unsupported database type: '' @ dbString)))"

definition initEncrypter :: "viper \<Rightarrow> err + encrypter option" where
  "initEncrypter v =
     (let key = GetString v encryptionKeyFlg in
      if key \<noteq> '''' then
        (case Encrypter_New key of
           Inl e \<Rightarrow> Inl (ErrWrap ''unable to initialize encrypter'' e)
         | Inr e \<Rightarrow> Inr (Some e))
      else Inr None)"

definition initCompressor :: "viper \<Rightarrow> err + compressor" where
  "initCompressor v =
     (case Compressor_New (GetString v compressionMethod) of
        Inl e \<Rightarrow> Inl (ErrWrap ''unable to initialize compressor'' e)
      | Inr c \<Rightarrow> Inr c)"

text \<open>The suffix of the stored backups, from the compressor and the encrypter that were initialised
  before, if any.\<close>

definition backup_suffix :: "compressor option \<Rightarrow> encrypter option \<Rightarrow> string" where
  "backup_suffix c e =
     (case c of None \<Rightarrow> '''' | Some c \<Rightarrow> Compressor_Extension c) @
     (case e of None \<Rightarrow> '''' | Some e \<Rightarrow> Encrypter_Extension e)"

definition gcp_config_of :: "viper \<Rightarrow> string \<Rightarrow> gcp_config" where
  "gcp_config_of v sfx =
     \<lparr>gcp_BucketName = GetString v gcpBucketNameFlg, gcp_BucketLocation = GetString v gcpBucketLocationFlg,
      gcp_BackupName = '''', gcp_ObjectPrefix = GetString v objectPrefixFlg,
      gcp_ObjectsToKeep = sint (GetInt64 v objectsToKeepFlg), gcp_ProjectID = GetString v gcpProjectFlg,
      gcp_ClientOpts = [], gcp_Suffix = sfx\<rparr>"

definition s3_config_of :: "viper \<Rightarrow> string \<Rightarrow> s3_config" where
  "s3_config_of v sfx =
     \<lparr>s3_BucketName = GetString v s3BucketNameFlg, s3_Endpoint = GetString v s3EndpointFlg,
      s3_Region = GetString v s3RegionFlg, s3_AccessKey = GetString v s3AccessKeyFlg,
      s3_SecretKey = GetString v s3SecretKeyFlg, s3_BackupName = '''',
      s3_InsecureSkipVerify = (if IsSet v s3InsecureSkipVerifyFlg then Some (GetBool v s3InsecureSkipVerifyFlg) else None),
      s3_TrustedCaCert = (if IsSet v s3TrustedCaCertFlg then Some (GetString v s3TrustedCaCertFlg) else None),
      s3_ObjectPrefix = GetString v objectPrefixFlg, s3_ObjectsToKeep = GetInt32 v objectsToKeepFlg,
      s3_ObjectDaysToKeep = (if IsSet v objectDaysToKeepFlg then Some (GetInt32 v objectDaysToKeepFlg) else None),
      s3_Suffix = sfx,
      s3_RequestChecksumCalculation = (if IsSet v s3RequestChecksumCalculationFlg
        then Some (GetString v s3RequestChecksumCalculationFlg) else None)\<rparr>"

definition local_config_of :: "viper \<Rightarrow> string \<Rightarrow> local_config" where
  "local_config_of v sfx =
     \<lparr>lc_LocalBackupPath = GetString v localBackupPathFlg, lc_ObjectsToKeep = GetInt64 v objectsToKeepFlg, lc_Suffix = sfx\<rparr>"

definition initBackupProvider ::
  "viper \<Rightarrow> ('x, 'm) lp_world_scheme env \<Rightarrow> compressor option \<Rightarrow> encrypter option \<Rightarrow> err + ('x, 'm) lp_world_scheme provider" where
  "initBackupProvider v env c e =
     (let bpString = GetString v backupProviderFlg; sfx = backup_suffix c e;
          bp = (if bpString = ''gcp'' then
                  (case gcp_New (e_gcp env) (Some (gcp_config_of v sfx)) of
                     Inl x \<Rightarrow> Inl x | Inr (cl, cfg) \<Rightarrow> Inr (gcp_provider (e_objects env) cl cfg (e_ties env)))
                else if bpString = ''s3'' then
                  (case s3_New (e_s3 env) (Some (s3_config_of v sfx)) of
                     Inl x \<Rightarrow> Inl x | Inr (cl, cfg) \<Rightarrow> Inr (s3_provider cl cfg (e_ties env)))
                else
                  (case Local_New (Some (local_config_of v sfx)) of
                     Inl x \<Rightarrow> Inl x | Inr cfg \<Rightarrow> Inr (local_provider cfg (e_ties env)))) in
      if bpString \<notin> {''gcp'', ''s3'', ''local''} then Inl (ErrText (''unsupported backup provider type: '' @ bpString))
      else case bp of Inl x \<Rightarrow> Inl (ErrWrap ''error initializing backup provider'' x) | Inr p \<Rightarrow> Inr p)"

section \<open>The command start\<close>

record 'w parts =
  pt_db :: "'w database"
  pt_encrypter :: "encrypter option"
  pt_compressor :: compressor
  pt_bp :: "'w provider"

definition start_PreRunE :: "viper \<Rightarrow> ('x, 'm) lp_world_scheme env \<Rightarrow> err + ('x, 'm) lp_world_scheme parts" where
  "start_PreRunE v env =
     (case initDatabase v env of Inl e \<Rightarrow> Inl e | Inr db \<Rightarrow>
     (case initEncrypter v of Inl e \<Rightarrow> Inl e | Inr enc \<Rightarrow>
     (case initCompressor v of Inl e \<Rightarrow> Inl e | Inr cmp \<Rightarrow>
     (case initBackupProvider v env (Some cmp) enc of Inl e \<Rightarrow> Inl e | Inr bp \<Rightarrow>
      Inr \<lparr>pt_db = db, pt_encrypter = enc, pt_compressor = cmp, pt_bp = bp\<rparr>))))"

definition run_commands :: "string list \<Rightarrow> ('x, 'm) world_scheme env \<Rightarrow> (('x, 'm) world_scheme, unit) go" where
  "run_commands cmds env = each (ExecWithStreamingOutput (e_exec env) (e_getenv env)) cmds"

definition start_RunE :: "viper \<Rightarrow> ('x, 'm) i_world_scheme env \<Rightarrow> ('x, 'm) i_world_scheme parts \<Rightarrow> (('x, 'm) i_world_scheme, unit) go" where
  "start_RunE v env p =
     bnd (run_commands (GetStringSlice v preExecCommandsFlg) env) (\<lambda>_.
     let addr = GetString v bindAddrFlg @ '':'' @ FormatInt (GetInt v portFlg) in
     bnd (Metrics_Start (e_Register env) Metrics_New) (\<lambda>_.
     let backuper = Backuper_New (GetString v backupCronScheduleFlg) (pt_db p) (pt_bp p) (pt_compressor p) (pt_encrypter p) in
     bnd (Initializer_New addr (pt_db p) (pt_bp p) (pt_compressor p) (GetString v databaseDatadirFlg) (pt_encrypter p)) (\<lambda>i.
     bnd (Initializer_Start (e_Listen env) (e_archiver env) (e_aes env) i) (\<lambda>_.
     bnd (probe_Start (e_start_events env) (db_Probe (pt_db p))) (\<lambda>_.
     Backuper_Start (e_cron env) (e_archiver env) (e_aes env) backuper)))))"

definition start_cmd :: "viper \<Rightarrow> ('x, 'm) i_world_scheme env \<Rightarrow> (('x, 'm) i_world_scheme, unit) go" where
  "start_cmd v env = bnd (liftR (start_PreRunE v env)) (start_RunE v env)"

section \<open>The commands of clients\<close>

text \<open>The connection of a client gives it the services of the server.  \<open>url.Parse\<close> gives the host of the address.\<close>

record 'w network =
  n_url_Parse :: "string \<Rightarrow> err + string"
  n_NewClient :: "string \<Rightarrow> err + 'w rpc"

definition client_New :: "'w network \<Rightarrow> string \<Rightarrow> err + 'w rpc" where
  "client_New n rawurl =
     (case n_url_Parse n rawurl of
        Inl e \<Rightarrow> Inl e
      | Inr host \<Rightarrow>
          if host = '''' then Inl (ErrText (''invalid url:'' @ rawurl @ '', must be in the form scheme://host[:port]/basepath''))
          else n_NewClient n host)"

definition new_client :: "viper \<Rightarrow> 'w network \<Rightarrow> ('w, 'w rpc) go" where
  "new_client v n = wrapE ''error creating client'' (liftR (client_New n (GetString v serverAddrFlg)))"

definition createBackup_cmd :: "viper \<Rightarrow> ('x, 'm) lp_world_scheme env \<Rightarrow> ('x, 'm) lp_world_scheme network \<Rightarrow> (('x, 'm) lp_world_scheme, unit) go" where
  "createBackup_cmd v env n =
     bnd (liftR (initBackupProvider v env None None)) (\<lambda>_.
     bnd (new_client v n) rpc_CreateBackup)"

definition restore_cmd ::
  "viper \<Rightarrow> ('x, 'm) lp_world_scheme env \<Rightarrow> ('x, 'm) lp_world_scheme network \<Rightarrow> string list \<Rightarrow> (('x, 'm) lp_world_scheme, unit) go" where
  "restore_cmd v env n args =
     bnd (liftR (initBackupProvider v env None None)) (\<lambda>_.
     case args of
       [] \<Rightarrow> fail (ErrText ''no version argument given'')
     | a # _ \<Rightarrow> bnd (new_client v n) (\<lambda>c. rpc_RestoreBackup c a))"

text \<open>A command that reaches the server of the initializer \<open>i\<close>: a restore is that of the version that the
  server finds under the name given, and a backup that of its backuper.\<close>

lemma restore_cmd_restores:
  assumes "client_New n (GetString v serverAddrFlg) = Inr (registered ar aes sws i b)"
    and "restore_cmd v env n args w = (Inr u, w')"
  shows "\<exists>a rest vs x w1. args = a # rest \<and> a \<noteq> '''' \<and> bp_ListBackups (in_bp i) w = (Inr vs, w1) \<and> bvs_Get vs a = Inr x \<and>
    Restore ar aes i x w1 = (Inr (), w')"
proof -
  from assms(2) obtain a rest where a: "args = a # rest"
    by (cases args) (auto simp: restore_cmd_def bnd_eq_Inr fail_def)
  with assms have "grpc_recovery (service_RestoreBackup (in_bp i) (Restore ar aes i) a) w = (Inr (), w')"
    by (auto simp: restore_cmd_def new_client_def registered_def newBackupProviderService_def Let_def bnd_eq_Inr wrapE_eq_Inr liftR_eq_Inr ret_def)
  then have "service_RestoreBackup (in_bp i) (Restore ar aes i) a w = (Inr (), w')" by (rule grpc_recovery_Inr)
  then show ?thesis using a
    by (auto simp: service_RestoreBackup_def rpcE_def bnd_eq_Inr map_err_eq_Inr wrapE_eq_Inr liftR_eq_Inr fail_def split: if_splits)
qed

lemma createBackup_cmd_backs_up:
  assumes "client_New n (GetString v serverAddrFlg) = Inr (registered ar aes sws i b)"
    and "createBackup_cmd v env n w = (Inr u, w')"
  shows "CreateBackup ar aes b w = (Inr (), w')"
proof -
  have "grpc_recovery (service_CreateBackup (CreateBackup ar aes b)) w = (Inr (), w')"
    using assms by (auto simp: createBackup_cmd_def new_client_def registered_def newDatabaseService_def Let_def bnd_eq_Inr wrapE_eq_Inr liftR_eq_Inr ret_def)
  then have "service_CreateBackup (CreateBackup ar aes b) w = (Inr (), w')" by (rule grpc_recovery_Inr)
  then show ?thesis by (simp add: service_CreateBackup_def rpcE_def map_err_eq_Inr wrapE_eq_Inr)
qed

text \<open>The row that \<open>restore list-versions\<close> prints for a backup.\<close>

definition list_row :: "backup_info \<Rightarrow> string list" where
  "list_row b = [time_String (bi_Timestamp b), bi_Name b, bi_Version b]"

definition restoreList_cmd :: "viper \<Rightarrow> 'w env \<Rightarrow> 'w network \<Rightarrow> ('w, unit) go" where
  "restoreList_cmd v env n =
     bnd (new_client v n) (\<lambda>c.
     bnd (wrapE ''error listing backups'' (rpc_ListBackups c)) (\<lambda>backups.
     TablePrinter_Print (NewTablePrinter (e_table env)) [''Date'', ''Name'', ''Version''] (map list_row backups)))"

text \<open>The table has a row for every backup that the sidecar listed, in that order, and a row tells its
  backup.\<close>

theorem restoreList_shows:
  assumes "restoreList_cmd v env n w = (Inr u, w')"
  shows "\<exists>c bs w1. client_New n (GetString v serverAddrFlg) = Inr c \<and> rpc_ListBackups c w = (Inr bs, w1) \<and>
    TablePrinter_Print (NewTablePrinter (e_table env)) [''Date'', ''Name'', ''Version''] (map list_row bs) w1 = (Inr u, w') \<and>
    (\<forall>cs. (\<forall>b\<in>set bs \<union> set cs. four_digit_year (bi_Timestamp b)) \<longrightarrow> map list_row cs = map list_row bs \<longrightarrow> cs = bs)"
proof -
  from assms obtain c bs w1 where "client_New n (GetString v serverAddrFlg) = Inr c" "rpc_ListBackups c w = (Inr bs, w1)"
    "TablePrinter_Print (NewTablePrinter (e_table env)) [''Date'', ''Name'', ''Version''] (map list_row bs) w1 = (Inr u, w')"
    by (auto simp: restoreList_cmd_def new_client_def bnd_eq_Inr wrapE_eq_Inr liftR_eq_Inr)
  moreover have "cs = bs" if "\<forall>b\<in>set bs \<union> set cs. four_digit_year (bi_Timestamp b)" "map list_row cs = map list_row bs" for cs
  proof (rule map_inj_on [OF that(2)], rule inj_onI)
    fix a b assume "a \<in> set cs \<union> set bs" "b \<in> set cs \<union> set bs" "list_row a = list_row b"
    then have "bi_Name a = bi_Name b" "bi_Version a = bi_Version b" "bi_Timestamp a = bi_Timestamp b"
      using that(1) parse_time_String by (auto simp: list_row_def) (metis UnI1 UnI2)+
    then show "a = b" by simp
  qed
  ultimately show ?thesis by blast
qed

definition wait_cmd ::
  "viper \<Rightarrow> ('x, 'm) world_scheme env \<Rightarrow> ('x, 'm) world_scheme network \<Rightarrow> event list \<Rightarrow> (('x, 'm) world_scheme, unit) go" where
  "wait_cmd v env n es =
     bnd (case client_New n (GetString v serverAddrFlg) of
            Inl e \<Rightarrow> fail e
          | Inr c \<Rightarrow> wait_Start es (ret ()) (rpc_Status c)) (\<lambda>_.
     run_commands (GetStringSlice v postExecCommandsFlg) env)"

text \<open>The output file is opened for reading only, and the version that is passed on has a name but no
  version string.\<close>

definition downloadBackup_cmd ::
  "viper \<Rightarrow> ('x, 'm) lp_world_scheme env \<Rightarrow> ('x, 'm) lp_world_scheme network \<Rightarrow> string list \<Rightarrow> (('x, 'm) lp_world_scheme, unit) go" where
  "downloadBackup_cmd v env n args =
     bnd (liftR (initEncrypter v)) (\<lambda>encrypter.
     bnd (liftR (initBackupProvider v env None encrypter)) (\<lambda>bp.
     case args of
       [] \<Rightarrow> fail (ErrText ''no version argument specified'')
     | a # _ \<Rightarrow>
       bnd (new_client v n) (\<lambda>c.
       bnd (wrapE ''error getting backup by version'' (rpc_GetBackupByVersion c a)) (\<lambda>backup.
       let outputPath = path_Join [GetString v downloadOutputFlg, bi_Name backup] in
       bnd (wrapE ''failed opening output file'' (os_Open outputPath)) (\<lambda>outputFile.
       bnd (wrapE ''failed downloading backup''
         (bp_DownloadBackup bp \<lparr>bv_name = bi_Name backup, bv_version = '''', bv_date = 0\<rparr> (file_Write outputFile))) (\<lambda>_.
       case encrypter of
         None \<Rightarrow> ret ()
       | Some e \<Rightarrow>
           if IsEncrypted outputPath
           then wrapE ''unable to decrypt backup'' (bnd (Decrypt (e_aes env) e outputPath) (\<lambda>_. ret ()))
           else ret ()))))))"

section \<open>Every database keeps the contract of Check\<close>


text \<open>A configuration with a few strings, the rest unset.\<close>

definition viper_of :: "(string \<times> string) list \<Rightarrow> viper" where
  "viper_of kvs = \<lparr>GetString = (\<lambda>k. case map_of kvs k of None \<Rightarrow> '''' | Some s \<Rightarrow> s), GetInt = (\<lambda>_. 0), GetInt32 = (\<lambda>_. 0),
     GetInt64 = (\<lambda>_. 0), GetBool = (\<lambda>_. False), GetStringSlice = (\<lambda>_. []), IsSet = (\<lambda>k. k \<in> fst ` set kvs)\<rparr>"

definition a_viper :: viper where
  "a_viper = viper_of [(databaseFlg, ''localfs''), (databaseDatadirFlg, ''/data''), (backupProviderFlg, ''local''),
     (compressionMethod, ''targz''), (encryptionKeyFlg, ''01234567890123456789012345678901'')]"

lemmas flag_defs = databaseFlg_def databaseDatadirFlg_def backupProviderFlg_def compressionMethod_def encryptionKeyFlg_def
  serverAddrFlg_def postExecCommandsFlg_def preExecCommandsFlg_def downloadOutputFlg_def


section \<open>The names of encrypted backups\<close>

lemma Ext_dot: "slash \<notin> set e \<Longrightarrow> CHR ''.'' \<notin> set e \<Longrightarrow> filepath_Ext (p @ ''.'' @ e) = ''.'' @ e"
  using Ext_append [of e p] by simp

text \<open>The suffix of the stored files tells whether they are encrypted, and cutting the encryption
  suffix off gives the name of the archive: so a restore decrypts exactly what a backup of the same
  configuration has encrypted.\<close>

theorem suffix_encrypted:
  assumes "initCompressor v = Inr c" "initEncrypter v = Inr e"
  shows "(IsEncrypted (n @ backup_suffix (Some c) e) \<longleftrightarrow> e \<noteq> None) \<and>
    (e \<noteq> None \<longrightarrow> strings_TrimSuffix (n @ backup_suffix (Some c) e) enc_suffix = n @ Compressor_Extension c) \<and>
    (e = None \<longleftrightarrow> GetString v encryptionKeyFlg = '''')"
proof -
  have x: "Compressor_Extension c \<in> {''.tar'', ''.tar.gz'', ''.tar.lz4''}"
    using assms(1) Compressor_New_exts [of "GetString v compressionMethod" c]
    by (auto simp: initCompressor_def split: sum.splits)
  have 1: "e = None \<longleftrightarrow> GetString v encryptionKeyFlg = ''''"
    using assms(2) by (auto simp: initEncrypter_def Let_def split: sum.splits if_splits)
  have "filepath_Ext (n @ ''.tar'') = ''.tar''" "filepath_Ext ((n @ ''.tar'') @ ''.gz'') = ''.gz''"
    "filepath_Ext ((n @ ''.tar'') @ ''.lz4'') = ''.lz4''"
    using Ext_dot [of "''tar''" n] Ext_dot [of "''gz''" "n @ ''.tar''"] Ext_dot [of "''lz4''" "n @ ''.tar''"] by simp_all
  then have 2: "\<not> IsEncrypted (n @ Compressor_Extension c)"
    using x by (auto simp: IsEncrypted_def enc_suffix_def)
  have 3: "IsEncrypted (n @ Compressor_Extension c @ enc_suffix)"
    using IsEncrypted_suffix [of "n @ Compressor_Extension c"] by simp
  have 4: "strings_TrimSuffix ((n @ Compressor_Extension c) @ enc_suffix) enc_suffix = n @ Compressor_Extension c"
    by (rule TrimSuffix_append)
  show ?thesis using 1 2 3 4
    by (cases e) (simp_all add: backup_suffix_def Encrypter_Extension_def)
qed

theorem suffix_encrypted_witness:
  "\<exists>c e. initCompressor a_viper = Inr c \<and> initEncrypter a_viper = Inr (Some e) \<and>
     IsEncrypted (''0'' @ backup_suffix (Some c) (Some e))"
proof -
  have c: "initCompressor a_viper = Inr \<lparr>comp_extension = ''.tar.gz''\<rparr>"
    by (simp add: initCompressor_def a_viper_def viper_of_def flag_defs Compressor_New_def)
  have e: "initEncrypter a_viper = Inr (Some \<lparr>enc_key = ''01234567890123456789012345678901''\<rparr>)"
    by (simp add: initEncrypter_def a_viper_def viper_of_def flag_defs Encrypter_New_def isASCII_def)
  show ?thesis using c e suffix_encrypted [OF c e, of "''0''"] by blast
qed

section \<open>The order of the start\<close>

text \<open>C13: the order of the command \<open>start\<close>, for every outcome.  After the pre-exec commands and the registration of
  the metrics it runs the initializer with exactly the configured parts; if one of these fails, \<open>start\<close> ends there
  with the error.  When the initializer is through, and has said so, the database is probed; only after the first
  probe that the database answers are backups scheduled, with the same parts, in the world of that moment.  A stop or
  a panic while it probes ends \<open>start\<close> without a backup.\<close>

theorem start_order:
  fixes w :: "('x, 'm) i_world_scheme"
  assumes "start_RunE v env p w = (r, w')"
  defines "pre \<equiv> run_commands (GetStringSlice v preExecCommandsFlg) env"
    and "i \<equiv> \<lparr>in_addr = GetString v bindAddrFlg @ '':'' @ FormatInt (GetInt v portFlg), in_db = pt_db p, in_bp = pt_bp p,
      in_comp = pt_compressor p, in_dbDataDir = GetString v databaseDatadirFlg, in_encrypter = pt_encrypter p\<rparr>"
    and "start \<equiv> Initializer_Start (e_Listen env) (e_archiver env) (e_aes env)"
    and "probe \<equiv> db_Probe (pt_db p)"
    and "backups \<equiv> Backuper_Start (e_cron env) (e_archiver env) (e_aes env)
      (Backuper_New (GetString v backupCronScheduleFlg) (pt_db p) (pt_bp p) (pt_compressor p) (pt_encrypter p))"
  shows "(\<exists>x. pre w = (Inl x, w') \<and> r = Inl x) \<or>
    (\<exists>w1. pre w = (Inr (), w1) \<and>
      ((\<exists>x. Metrics_Start (e_Register env) Metrics_New w1 = (Inl x, w') \<and> r = Inl x) \<or>
       (\<exists>w2 w3. Metrics_Start (e_Register env) Metrics_New w1 = (Inr (), w2) \<and>
         w3 = w2\<lparr>i_status := CHECKING, i_message := ''starting initializer server''\<rparr> \<and>
         ((\<exists>x. start i w3 = (Inl x, w') \<and> r = Inl x) \<or>
          (\<exists>w4. start i w3 = (Inr (), w4) \<and> i_status w4 = DONE \<and>
            ((\<exists>k x. polls_end (\<lambda>_. True) probe (e_start_events env) (Inl (ErrText ''received stop signal, stop probing'')) k w4 (Inl x) w' \<and>
                r = Inl x) \<or>
             (\<exists>k. polled (\<lambda>_. True) probe (e_start_events env) k w4 \<and> fst (probe (after_polls probe k w4)) = Inr () \<and>
                backups (snd (probe (after_polls probe k w4))) = (r, w'))))))))"
proof -
  obtain r1 w1 where 1: "pre w = (r1, w1)" by fastforce
  obtain r2 w2 where 2: "Metrics_Start (e_Register env) Metrics_New w1 = (r2, w2)" by fastforce
  let ?w3 = "w2\<lparr>i_status := CHECKING, i_message := ''starting initializer server''\<rparr>"
  obtain r4 w4 where 4: "start i ?w3 = (r4, w4)" by fastforce
  obtain r5 w5 where 5: "probe_Start (e_start_events env) probe w4 = (r5, w5)" by fastforce
  have new: "Initializer_New (GetString v bindAddrFlg @ '':'' @ FormatInt (GetInt v portFlg)) (pt_db p) (pt_bp p) (pt_compressor p)
      (GetString v databaseDatadirFlg) (pt_encrypter p) w2 = (Inr i, ?w3)"
    by (simp add: Initializer_New_def bnd_run set_status_def set_message_def upd_run ret_run i_def)
  have "start_RunE v env p w = (case r1 of Inl x \<Rightarrow> (Inl x, w1) | Inr _ \<Rightarrow> case r2 of Inl x \<Rightarrow> (Inl x, w2) | Inr _ \<Rightarrow>
      case r4 of Inl x \<Rightarrow> (Inl x, w4) | Inr _ \<Rightarrow> case r5 of Inl x \<Rightarrow> (Inl x, w5) | Inr _ \<Rightarrow> backups w5)"
    using 1 2 4 5 new unfolding pre_def start_def probe_def backups_def
    by (cases r1; cases r2; cases r4; cases r5) (simp_all add: start_RunE_def Let_def bnd_run)
  note run = trans [OF this [symmetric] assms(1)]
  have st: "i_status w4 = DONE" if "r4 = Inr u" for u
    using 4 that unfolding start_def by (auto simp: Initializer_Start_def bnd_eq_Inr set_status_def set_message_def upd_def)
  from probe_Start_run [OF 5] obtain k where
    k: "polls_end (\<lambda>_. True) probe (e_start_events env) (Inl (ErrText ''received stop signal, stop probing'')) k w4 r5 w5" by blast
  have ok: "polled (\<lambda>_. True) probe (e_start_events env) k w4 \<and> fst (probe (after_polls probe k w4)) = Inr () \<and>
      w5 = snd (probe (after_polls probe k w4))" if "r5 = Inr u" for u
    using k that by (auto simp: polls_end_def Let_def split: sum.splits)
  show ?thesis
  proof (cases r1)
    case (Inl x)
    then show ?thesis using run 1 by auto
  next
    case r1: (Inr u1)
    show ?thesis
    proof (cases r2)
      case (Inl x)
      then show ?thesis using run 1 2 r1 by auto
    next
      case r2: (Inr u2)
      show ?thesis
      proof (cases r4)
        case (Inl x)
        then show ?thesis using run 1 2 4 r1 r2 by auto
      next
        case r4: (Inr u4)
        show ?thesis
        proof (cases r5)
          case (Inl x)
          then show ?thesis using run 1 2 4 r1 r2 r4 st [OF r4] k by auto
        next
          case (Inr u5)
          then show ?thesis using run 1 2 4 r1 r2 r4 st [OF r4] ok [OF Inr] by auto
        qed
      qed
    qed
  qed
qed

text \<open>Parts with which everything succeeds: a database in a directory, backups in another.\<close>

definition an_env :: "unit i_world env" where
  "an_env = \<lparr>e_exec = undefined, e_getenv = (\<lambda>_. ''''), e_redis = undefined, e_pg = undefined, e_sql = undefined,
     e_rethink = undefined, e_rethink_server = undefined, e_events = [], e_start_events = [Timer], e_s3 = undefined,
     e_gcp = undefined, e_objects = 0, e_ties = (\<lambda>_. []), e_archiver = an_archiver, e_aes = (\<lambda>_ b. b),
     e_Listen = (\<lambda>_. ret ()), e_cron = (\<lambda>_. Inr 0), e_Register = (\<lambda>_. ret ()),
     e_table = (\<lambda>_. \<lparr>tb_Header = (\<lambda>_. ret ()), tb_Bulk = (\<lambda>_. ret ()), tb_Render = ret ()\<rparr>)\<rparr>"

definition some_parts :: "unit i_world parts" where
  "some_parts = \<lparr>pt_db = in_db an_initializer, pt_encrypter = None, pt_compressor = in_comp an_initializer,
     pt_bp = in_bp an_initializer\<rparr>"

definition no_flags :: viper where
  "no_flags = viper_of [(databaseDatadirFlg, ''/data'')]"

theorem start_order_witness:
  "\<exists>w4 w'. Initializer_Start (\<lambda>_. ret ()) an_archiver (\<lambda>_ b. b) (an_initializer\<lparr>in_addr := '':0''\<rparr>)
      (snd (Metrics_Start (e_Register an_env) Metrics_New (an_init_world full_disk))\<lparr>i_status := CHECKING, i_message := ''starting initializer server''\<rparr>) =
      (Inr (), w4) \<and> i_status w4 = DONE \<and> start_RunE no_flags an_env some_parts (an_init_world full_disk) = (Inr (), w')"
proof -
  have "\<not> isl (fst (start_RunE no_flags an_env some_parts (an_init_world full_disk)))" by code_simp
  then obtain w' where run: "start_RunE no_flags an_env some_parts (an_init_world full_disk) = (Inr (), w')"
    using ran_ok by fastforce
  have f: "GetString no_flags bindAddrFlg = ''''" "GetString no_flags databaseDatadirFlg = ''/data''" "GetInt no_flags portFlg = 0" "FormatInt 0 = ''0''"
    by code_simp+
  have i: "\<lparr>in_addr = '''' @ '':'' @ FormatInt 0, in_db = pt_db some_parts, in_bp = pt_bp some_parts,
      in_comp = pt_compressor some_parts, in_dbDataDir = ''/data'', in_encrypter = pt_encrypter some_parts\<rparr> = an_initializer\<lparr>in_addr := '':0''\<rparr>"
    by (simp add: some_parts_def an_initializer_def f(4))
  have e: "e_Listen an_env = (\<lambda>_. ret ())" "e_archiver an_env = an_archiver" "e_aes an_env = (\<lambda>_ b. b)" by (simp_all add: an_env_def)
  have pre: "run_commands (GetStringSlice no_flags preExecCommandsFlg) an_env w = (Inr (), w)" for w
    by (simp add: no_flags_def viper_of_def run_commands_def ret_def)
  show ?thesis using start_order [OF run] run unfolding f(1-3) i e pre by auto
qed

section \<open>Waiting for the initializer\<close>

text \<open>C14: the command \<open>wait\<close> runs the commands that start the database only after the initializer's
  service has answered \<open>DONE\<close>, unless it was stopped while it waited: then it runs them as well.  In every other
  outcome, without a client, still waiting or after a panic of the client, it has done nothing but poll.\<close>

theorem wait_before_commands:
  assumes "wait_cmd v env n es w = (r, w')"
  shows "(\<exists>x. client_New n (GetString v serverAddrFlg) = Inl x \<and> r = Inl x \<and> w' = w) \<or>
    (\<exists>c k u. client_New n (GetString v serverAddrFlg) = Inr c \<and>
      polled (\<lambda>a. fst a = DONE) (rpc_Status c) es k w \<and> u = after_polls (rpc_Status c) k w \<and>
      (k = length es \<and> r = Inl Diverges \<and> w' = u \<or>
       k < length es \<and> es ! k = Timer \<and> (\<exists>x. fst (rpc_Status c u) = Inl x \<and> unwinds x \<and> r = Inl x) \<and> w' = snd (rpc_Status c u) \<or>
       k < length es \<and> es ! k = Stop \<and> run_commands (GetStringSlice v postExecCommandsFlg) env u = (r, w') \<or>
       k < length es \<and> es ! k = Timer \<and> (\<exists>msg. fst (rpc_Status c u) = Inr (DONE, msg)) \<and>
         run_commands (GetStringSlice v postExecCommandsFlg) env (snd (rpc_Status c u)) = (r, w')))"
proof (cases "client_New n (GetString v serverAddrFlg)")
  case (Inl x)
  then show ?thesis using assms by (simp add: wait_cmd_def bnd_run fail_run)
next
  case (Inr c)
  obtain q w1 where q: "wait_loop es (rpc_Status c) w = (q, w1)" by fastforce
  have "wait_cmd v env n es w =
      (case q of Inl x \<Rightarrow> (Inl x, w1) | Inr _ \<Rightarrow> run_commands (GetStringSlice v postExecCommandsFlg) env w1)"
    using q Inr by (cases q) (simp_all add: wait_cmd_def wait_Start_def bnd_run)
  note run = trans [OF this [symmetric] assms]
  from wait_loop_run [OF q] obtain k where
    k: "polls_end (\<lambda>a. fst a = DONE) (rpc_Status c) es (Inr ()) k w q w1" by blast
  let ?u = "after_polls (rpc_Status c) k w"
  from k consider "k = length es" "q = Inl Diverges" "w1 = ?u" | "k < length es" "es ! k = Stop" "q = Inr ()" "w1 = ?u"
    | x where "k < length es" "es ! k = Timer" "w1 = snd (rpc_Status c ?u)" "fst (rpc_Status c ?u) = Inl x" "unwinds x" "q = Inl x"
    | msg where "k < length es" "es ! k = Timer" "w1 = snd (rpc_Status c ?u)" "fst (rpc_Status c ?u) = Inr (DONE, msg)" "q = Inr ()"
    unfolding polls_end_def Let_def by (auto split: sum.splits)
  then have last: "k = length es \<and> r = Inl Diverges \<and> w' = ?u \<or>
       k < length es \<and> es ! k = Timer \<and> (\<exists>x. fst (rpc_Status c ?u) = Inl x \<and> unwinds x \<and> r = Inl x) \<and> w' = snd (rpc_Status c ?u) \<or>
       k < length es \<and> es ! k = Stop \<and> run_commands (GetStringSlice v postExecCommandsFlg) env ?u = (r, w') \<or>
       k < length es \<and> es ! k = Timer \<and> (\<exists>msg. fst (rpc_Status c ?u) = Inr (DONE, msg)) \<and>
         run_commands (GetStringSlice v postExecCommandsFlg) env (snd (rpc_Status c ?u)) = (r, w')"
    by cases (use run in simp_all)
  have "polled (\<lambda>a. fst a = DONE) (rpc_Status c) es k w" using k by (simp add: polls_end_def)
  then show ?thesis using Inr last by blast
qed

definition a_network :: "'w rpc \<Rightarrow> 'w network" where
  "a_network c = \<lparr>n_url_Parse = (\<lambda>_. Inr ''h''), n_NewClient = (\<lambda>_. Inr c)\<rparr>"

definition done_rpc :: "unit i_world rpc" where
  "done_rpc = \<lparr>rpc_Status = ret (DONE, ''done''), rpc_ListBackups = ret [], rpc_RestoreBackup = (\<lambda>_. ret ()),
     rpc_GetBackupByVersion = (\<lambda>_. ret \<lparr>bi_Name = ''0.tar'', bi_Version = ''0'', bi_Timestamp = 0\<rparr>), rpc_CreateBackup = ret ()\<rparr>"

theorem wait_before_commands_witness:
  "\<exists>w'. wait_cmd no_flags an_env (a_network done_rpc) [Timer] (an_init_world full_disk) = (Inr (), w') \<and>
    run_commands [] an_env (snd (rpc_Status done_rpc (an_init_world full_disk))) = (Inr (), w')"
proof -
  have "\<not> isl (fst (wait_cmd no_flags an_env (a_network done_rpc) [Timer] (an_init_world full_disk)))" by code_simp
  then obtain w' where run: "wait_cmd no_flags an_env (a_network done_rpc) [Timer] (an_init_world full_disk) = (Inr (), w')"
    using ran_ok by fastforce
  have c: "client_New (a_network done_rpc) (GetString no_flags serverAddrFlg) = Inr done_rpc"
    by (simp add: client_New_def a_network_def)
  have "GetStringSlice no_flags postExecCommandsFlg = []" by (simp add: no_flags_def viper_of_def)
  with wait_before_commands [OF run] show ?thesis using run c by (auto simp: less_Suc_eq)
qed

lemma wait_loop_ends:
  assumes "\<And>j e. j \<le> k \<Longrightarrow> fst (status (after_polls status j w)) = Inl e \<Longrightarrow> \<not> unwinds e"
    and "fst (status (after_polls status k w)) = Inr (DONE, msg)" "take (Suc k) es = replicate (Suc k) Timer"
  shows "\<exists>j m. j \<le> k \<and> fst (status (after_polls status j w)) = Inr (DONE, m) \<and>
     wait_loop es status w = (Inr (), after_polls status (Suc j) w)"
  using assms
proof (induction k arbitrary: w es)
  case (0 w es)
  then obtain es' where "es = Timer # es'" by (cases es) auto
  moreover obtain w1 where "status w = (Inr (DONE, msg), w1)"
    using "0.prems"(2) by (metis after_polls.simps(1) prod.collapse)
  ultimately show ?case by (intro exI [of _ 0]) (simp add: bnd_run attempt_run ret_run)
next
  case (Suc k w es)
  then obtain es' where es: "es = Timer # es'" "take (Suc k) es' = replicate (Suc k) Timer" by (cases es) auto
  let ?w = "snd (status w)"
  have IH: "\<exists>j m. j \<le> k \<and> fst (status (after_polls status j ?w)) = Inr (DONE, m) \<and>
     wait_loop es' status ?w = (Inr (), after_polls status (Suc j) ?w)"
  proof (rule Suc.IH [OF _ _ es(2)])
    show "\<not> unwinds e" if "j \<le> k" "fst (status (after_polls status j ?w)) = Inl e" for j e
      using Suc.prems(1) [of "Suc j" e] that by simp
    show "fst (status (after_polls status k ?w)) = Inr (DONE, msg)" using Suc.prems(2) by simp
  qed
  have run: "status w = (fst (status w), ?w)" by simp
  show ?case
  proof (cases "\<exists>m. fst (status w) = Inr (DONE, m)")
    case True
    then obtain m w1 where "status w = (Inr (DONE, m), w1)" by (metis prod.collapse)
    then show ?thesis by (intro exI [of _ 0]) (simp add: es bnd_run attempt_run ret_run)
  next
    case False
    have "\<not> unwinds e" if "fst (status w) = Inl e" for e using Suc.prems(1) [of 0 e] that by simp
    then have "wait_loop es status w = wait_loop es' status ?w"
      using False run by (auto simp: es bnd_run attempt_run split: prod.splits sum.splits if_splits)
    then show ?thesis using IH by (metis Suc_le_mono after_polls.simps(2))
  qed
qed

text \<open>C15: the command \<open>wait\<close> ends.  If some poll of the initializer answers \<open>DONE\<close>, the client does not panic before
  that, and the time for that many polls passes without a stop signal, then \<open>wait\<close> goes on at the first such answer
  (errors of the polls before do not matter) and runs the commands that start the database in the world it has then.\<close>

theorem wait_ends:
  assumes "client_New n (GetString v serverAddrFlg) = Inr c"
    and "\<forall>j e. j \<le> k \<longrightarrow> fst (rpc_Status c (after_polls (rpc_Status c) j w)) = Inl e \<longrightarrow> \<not> unwinds e"
    and "fst (rpc_Status c (after_polls (rpc_Status c) k w)) = Inr (DONE, msg)"
    and "take (Suc k) es = replicate (Suc k) Timer"
  shows "\<exists>j m. j \<le> k \<and> fst (rpc_Status c (after_polls (rpc_Status c) j w)) = Inr (DONE, m) \<and>
     wait_cmd v env n es w = run_commands (GetStringSlice v postExecCommandsFlg) env (after_polls (rpc_Status c) (Suc j) w)"
proof -
  from wait_loop_ends [of k "rpc_Status c", OF _ assms(3,4)] assms(2) obtain j m where
    j: "j \<le> k" "fst (rpc_Status c (after_polls (rpc_Status c) j w)) = Inr (DONE, m)"
    and l: "wait_loop es (rpc_Status c) w = (Inr (), after_polls (rpc_Status c) (Suc j) w)" by blast
  have "wait_Start es (ret ()) (rpc_Status c) w = (Inr (), after_polls (rpc_Status c) (Suc j) w)"
    using l by (simp add: wait_Start_def)
  then have "wait_cmd v env n es w = run_commands (GetStringSlice v postExecCommandsFlg) env (after_polls (rpc_Status c) (Suc j) w)"
    using assms(1) by (simp add: wait_cmd_def bnd_run del: after_polls.simps)
  with j show ?thesis by blast
qed

text \<open>A service that is checking at first, then fails to answer, and is done at the third poll.\<close>

definition slow_rpc :: "unit i_world rpc" where
  "slow_rpc = done_rpc\<lparr>rpc_Status := (\<lambda>w. (if i_message w = '''' then Inr (CHECKING, '''')
     else if i_message w = ''1'' then Inl ErrEOF else Inr (DONE, ''done''),
     w\<lparr>i_message := (if i_message w = '''' then ''1'' else ''2'')\<rparr>))\<rparr>"

theorem wait_ends_witness:
  "let w = (an_init_world full_disk)\<lparr>i_message := ''''\<rparr> in
   \<exists>j m. j \<le> 2 \<and> fst (rpc_Status slow_rpc (after_polls (rpc_Status slow_rpc) j w)) = Inr (DONE, m) \<and>
     wait_cmd no_flags an_env (a_network slow_rpc) [Timer, Timer, Timer] w =
       run_commands (GetStringSlice no_flags postExecCommandsFlg) an_env (after_polls (rpc_Status slow_rpc) (Suc j) w)"
proof -
  let ?w = "(an_init_world full_disk)\<lparr>i_message := ''''\<rparr>"
  have c: "client_New (a_network slow_rpc) (GetString no_flags serverAddrFlg) = Inr slow_rpc"
    by (simp add: client_New_def a_network_def)
  have safe: "\<forall>j e. j \<le> 2 \<longrightarrow> fst (rpc_Status slow_rpc (after_polls (rpc_Status slow_rpc) j ?w)) = Inl e \<longrightarrow> \<not> unwinds e"
    by (auto simp: slow_rpc_def split: if_splits)
  have d: "fst (rpc_Status slow_rpc (after_polls (rpc_Status slow_rpc) 2 ?w)) = Inr (DONE, ''done'')"
    by (simp add: slow_rpc_def numeral_2_eq_2)
  have t: "take (Suc 2) [Timer, Timer, Timer] = replicate (Suc 2) Timer" by (simp add: numeral_2_eq_2)
  show ?thesis unfolding Let_def using wait_ends [OF c safe d t, of an_env] .
qed

text \<open>A stop signal that comes first has the command \<open>wait\<close> run the post-exec commands without any
  question to the initializer's service.\<close>

theorem wait_stopped_runs_commands:
  assumes "client_New n (GetString v serverAddrFlg) = Inr c"
  shows "wait_cmd v env n (Stop # es) w = run_commands (GetStringSlice v postExecCommandsFlg) env w"
  using assms by (simp add: wait_cmd_def wait_Start_def)

theorem wait_stopped_runs_commands_witness:
  "wait_cmd no_flags an_env (a_network done_rpc) [Stop] = run_commands (GetStringSlice no_flags postExecCommandsFlg) an_env"
  by (rule ext) (rule wait_stopped_runs_commands [of _ _ done_rpc], simp add: client_New_def a_network_def)

section \<open>Downloading a backup\<close>

lemma file_reader_others: "file_reader i w = (r, w') \<Longrightarrow> q \<noteq> i \<Longrightarrow> w_fds w' q = w_fds w q"
  by (auto simp: file_reader_def sys_def Let_def set_off_def split: option.splits sum.splits if_splits)

lemma write_read_only: "w_fds w q = Some h \<Longrightarrow> \<not> h_wr h \<Longrightarrow> \<exists>e. fst (file_Write q bs w) = Inl e"
  by (simp add: file_Write_def sys_def Let_def split: option.split)

text \<open>C40: with the local provider the command \<open>download\<close> fails for every backup that is not empty,
  whatever the configuration, the disk and the faults: it opens its output file for reading only.\<close>

theorem download_local_fails:
  assumes "GetString v backupProviderFlg = ''local''"
    and "new_client v n w = (Inr c, w1)" "rpc_GetBackupByVersion c a w1 = (Inr backup, w2)"
    and "Local_New (Some (local_config_of v sfx)) = Inr cfg"
    and "file_at (w_fs w2) (resolve (path_Join [lc_LocalBackupPath cfg, bi_Name backup])) = Some bs" "bs \<noteq> []"
  shows "\<exists>e. fst (downloadBackup_cmd v env n (a # as) w) = Inl e"
proof (rule ccontr)
  assume "\<nexists>e. fst (downloadBackup_cmd v env n (a # as) w) = Inl e"
  then obtain u w' where run: "downloadBackup_cmd v env n (a # as) w = (Inr u, w')"
    by (cases "downloadBackup_cmd v env n (a # as) w"; cases "fst (downloadBackup_cmd v env n (a # as) w)") auto
  from run obtain enc bp fd w3 u2 w4 where
    bp: "initBackupProvider v env None enc = Inr bp"
    and fd: "os_Open (path_Join [GetString v downloadOutputFlg, bi_Name backup]) w2 = (Inr fd, w3)"
    and down: "bp_DownloadBackup bp \<lparr>bv_name = bi_Name backup, bv_version = '''', bv_date = 0\<rparr> (file_Write fd) w3 = (Inr u2, w4)"
    using assms(2,3) unfolding downloadBackup_cmd_def list.case Let_def bnd_eq_Inr liftR_eq_Inr wrapE_eq_Inr by fastforce
  obtain cfg' where cfg': "bp = local_provider cfg' (e_ties env)" "lc_LocalBackupPath cfg' = lc_LocalBackupPath cfg"
    using bp assms(1,4) by (auto simp: initBackupProvider_def Let_def Local_New_def local_config_of_def split: sum.splits)
  with down obtain i w5 w6 where i: "os_Open (path_Join [lc_LocalBackupPath cfg, bi_Name backup]) w3 = (Inr i, w5)"
    and copy: "io_Copy (file_Write fd) (file_reader i) w5 = (Inr u2, w6)"
    by (auto simp: local_provider_def Local_DownloadBackup_def Let_def bnd_eq_Inr wrapE_eq_Inr deferred_eq)
  from copy obtain cs w7 where rd: "file_reader i w5 = (Inr (cs, None), w7)"
    and wr: "if cs = [] then w6 = w7 else file_Write fd cs w7 = (Inr u2, w6)"
    by (auto simp: io_Copy_InrD)
  note o1 = os_Open_InrD [OF fd] and o2 = os_Open_InrD [OF i]
  obtain t where "fs_get (w_fs w5) (resolve (path_Join [lc_LocalBackupPath cfg, bi_Name backup])) = Some (File bs t)"
    using assms(5) o1(1) o2(1) by (auto simp: file_at_Some)
  then have "cs = bs" using file_reader_InrD(1) [OF rd, of _ bs t] o2(5) by simp
  then have wr: "file_Write fd cs w7 = (Inr u2, w6)" using wr assms(6) by simp
  have "fd \<noteq> i" using o1(4) o2(4) os_Open_nfd [OF fd] by simp
  then have "w_fds w7 fd = w_fds w3 fd" using file_reader_others [OF rd] o2(5) by simp
  then have "w_fds w7 fd = Some \<lparr>h_path = resolve (path_Join [GetString v downloadOutputFlg, bi_Name backup]),
      h_off = 0, h_rd = True, h_wr = False\<rparr>" using o1(5) by simp
  then have "\<exists>e. fst (file_Write fd cs w7) = Inl e" by (rule write_read_only) simp
  then show False using wr by simp
qed

theorem download_local_fails_witness:
  "\<exists>e. fst (downloadBackup_cmd (viper_of [(backupProviderFlg, ''local''), (localBackupPathFlg, ''/b'')]) an_env (a_network done_rpc) [''0'']
     (an_init_world [([''b''], Dir 0), ([''b'', ''0.tar''], File [1] 5)])) = Inl e"
proof -
  let ?v = "viper_of [(backupProviderFlg, ''local''), (localBackupPathFlg, ''/b'')]"
  let ?w = "an_init_world [([''b''], Dir 0), ([''b'', ''0.tar''], File [1] 5)]"
  let ?cfg = "\<lparr>lc_LocalBackupPath = ''/b'', lc_ObjectsToKeep = word_of_int DefaultObjectsToKeep, lc_Suffix = ''''\<rparr>"
  have 1: "GetString ?v backupProviderFlg = ''local''" by (simp add: viper_of_def)
  have 2: "new_client ?v (a_network done_rpc) ?w = (Inr done_rpc, ?w)"
    by (simp add: new_client_def client_New_def a_network_def wrapE_eq_Inr ret_def)
  have 3: "rpc_GetBackupByVersion done_rpc ''0'' ?w = (Inr \<lparr>bi_Name = ''0.tar'', bi_Version = ''0'', bi_Timestamp = 0\<rparr>, ?w)"
    by (simp add: done_rpc_def ret_def)
  have 4: "Local_New (Some (local_config_of ?v '''')) = Inr ?cfg"
    by (simp add: Local_New_def local_config_of_def viper_of_def backupProviderFlg_def localBackupPathFlg_def)
  have "resolve (path_Join [''/b'', ''0.tar'']) = [''b'', ''0.tar'']" by code_simp
  then have 5: "file_at (w_fs ?w) (resolve (path_Join [lc_LocalBackupPath ?cfg, bi_Name \<lparr>bi_Name = ''0.tar'', bi_Version = ''0'', bi_Timestamp = 0\<rparr>])) = Some [1]"
    by (simp add: file_at_def fs_get_def)
  show ?thesis using download_local_fails [OF 1 2 3 4 5] by simp
qed

end
