(* ===== verification/Configuration.thy ===== *)
theory Configuration
  imports Sidecar
begin

text \<open>
  The command line and the configuration of the program (\<open>cmd/main.go\<close>: \<open>init\<close>, \<open>initConfig\<close>, the root
  command and \<open>main\<close>).  Parsing the command line (\<open>cobra\<close>) and merging flags, environment and
  configuration file (\<open>viper\<close>) are outside the repository; what viper documents about the merge is
  \<open>merged\<close> below.
\<close>

section \<open>Flags\<close>

definition moduleName :: string where "moduleName = ''backup-restore-sidecar''"
definition cfgFileType :: string where "cfgFileType = ''yaml''"

text \<open>A flag with its name and default value.\<close>

datatype flag =
    StringFlag string string
  | IntFlag string int
  | SliceFlag string "string list"

definition persistent_flags :: "flag list" where
  "persistent_flags = [StringFlag logLevelFlg ''info'', StringFlag databaseFlg '''', StringFlag databaseDatadirFlg '''']"

definition start_flags :: "flag list" where
  "start_flags =
     [StringFlag bindAddrFlg ''127.0.0.1'', IntFlag portFlg 8000, SliceFlag preExecCommandsFlg [],
      StringFlag postgresUserFlg ''postgres'', StringFlag postgresHostFlg ''127.0.0.1'', IntFlag postgresPortFlg 5432,
      StringFlag postgresPasswordFlg '''', StringFlag rethinkDBURLFlg ''localhost:28015'',
      StringFlag rethinkDBPasswordFileFlg '''', StringFlag etcdCaCert '''', StringFlag etcdCert '''',
      StringFlag etcdKey '''', StringFlag etcdEndpoints ''http://localhost:2379'', StringFlag etcdName '''',
      StringFlag backupProviderFlg '''', StringFlag backupCronScheduleFlg ''*/3 * * * *'',
      IntFlag objectsToKeepFlg DefaultObjectsToKeep, StringFlag objectPrefixFlg '''',
      StringFlag gcpBucketNameFlg '''', StringFlag gcpBucketLocationFlg '''', StringFlag gcpProjectFlg '''',
      StringFlag s3BucketNameFlg '''', StringFlag s3RegionFlg '''', StringFlag s3EndpointFlg '''',
      StringFlag s3AccessKeyFlg '''', StringFlag s3SecretKeyFlg '''', StringFlag s3RequestChecksumCalculationFlg '''',
      StringFlag compressionMethod ''targz'', StringFlag encryptionKeyFlg '''']"

definition wait_flags :: "flag list" where
  "wait_flags = [StringFlag serverAddrFlg ''http://127.0.0.1:8000/'', SliceFlag postExecCommandsFlg []]"

definition download_flags :: "flag list" where
  "download_flags = [StringFlag downloadOutputFlg DownloadDir]"

text \<open>\<open>init\<close>: the flags of all commands are bound to the configuration when the program starts; a failure
  ends the program.\<close>

definition os_Exit :: "int \<Rightarrow> ('w, 'a) go" where
  "os_Exit code = fail (ErrExt ''os.Exit'' code)"

definition init_commands :: "(flag list \<Rightarrow> ('w, unit) go) \<Rightarrow> ('w, unit) go" where
  "init_commands BindPFlags =
     each (\<lambda>fs. bnd (attempt (BindPFlags fs)) (\<lambda>r. case r of Inl e \<Rightarrow> os_Exit 1 | Inr _ \<Rightarrow> ret ()))
       [persistent_flags, start_flags, wait_flags, download_flags]"

definition bound_flags :: "flag list" where
  "bound_flags = persistent_flags @ start_flags @ wait_flags @ download_flags"

fun flag_name :: "flag \<Rightarrow> string" where
  "flag_name (StringFlag n _) = n"
| "flag_name (IntFlag n _) = n"
| "flag_name (SliceFlag n _) = n"

lemmas flag_name_defs =
  logLevelFlg_def serverAddrFlg_def bindAddrFlg_def portFlg_def databaseFlg_def
  databaseDatadirFlg_def preExecCommandsFlg_def postExecCommandsFlg_def postgresUserFlg_def postgresHostFlg_def
  postgresPasswordFlg_def postgresPortFlg_def redisAddrFlg_def redisPasswordFlg_def rethinkDBPasswordFileFlg_def
  rethinkDBURLFlg_def etcdCaCert_def etcdCert_def etcdKey_def etcdEndpoints_def
  etcdName_def backupProviderFlg_def backupCronScheduleFlg_def objectsToKeepFlg_def objectDaysToKeepFlg_def
  objectPrefixFlg_def localBackupPathFlg_def gcpBucketNameFlg_def gcpBucketLocationFlg_def gcpProjectFlg_def
  s3BucketNameFlg_def s3RegionFlg_def s3EndpointFlg_def s3AccessKeyFlg_def s3SecretKeyFlg_def
  s3InsecureSkipVerifyFlg_def s3TrustedCaCertFlg_def s3RequestChecksumCalculationFlg_def compressionMethod_def encryptionKeyFlg_def
  downloadOutputFlg_def

section \<open>The configuration file\<close>

datatype config_source =
    ConfigFile string
  | ConfigSearch string "string list"   \<comment> \<open>\<open>SetConfigName\<close>, and the directories of \<open>AddConfigPath\<close>\<close>

text \<open>\<open>ReadInConfig\<close> reads a file of type \<open>cfgFileType\<close>; it gives the file that was used and an error.  A
  file that was found and is unreadable is a panic, no file at all is not.\<close>

definition initConfig ::
  "string \<Rightarrow> (string \<Rightarrow> config_source \<Rightarrow> ('w, string \<times> err option) go) \<Rightarrow> ('w, string) go" where
  "initConfig cfgFile ReadInConfig =
     (if cfgFile \<noteq> '''' then
        bnd (ReadInConfig cfgFileType (ConfigFile cfgFile)) (\<lambda>(used, e).
          case e of Some x \<Rightarrow> fail (Panic ''config file path set explicitly, but unreadable'') | None \<Rightarrow> ret used)
      else
        bnd (ReadInConfig cfgFileType
          (ConfigSearch ''config'' [''/etc/'' @ moduleName, ''$HOME/.'' @ moduleName, ''.''])) (\<lambda>(usedCfg, e).
          case e of
            Some x \<Rightarrow> if usedCfg \<noteq> '''' then fail (Panic ''config file unreadable'') else ret usedCfg
          | None \<Rightarrow> ret usedCfg))"

section \<open>The root command\<close>

text \<open>The log level is set before the configuration is read: \<open>v0\<close> knows the flags only.\<close>

definition persistentPreRunE ::
  "viper \<Rightarrow> string \<Rightarrow> (string \<Rightarrow> config_source \<Rightarrow> ('w, string \<times> err option) go) \<Rightarrow> ('w, log_level) go" where
  "persistentPreRunE v0 cfgFile ReadInConfig =
     bnd (liftR (initLogging v0)) (\<lambda>level. bnd (initConfig cfgFile ReadInConfig) (\<lambda>_. ret level))"

text \<open>The commands, with their arguments, and the events that end \<open>wait\<close>.\<close>

datatype command =
    StartCmd
  | WaitCmd "event list"
  | RestoreCmd "string list"
  | RestoreListCmd
  | CreateBackupCmd
  | DownloadBackupCmd "string list"

definition rootCmd_Execute ::
  "viper \<Rightarrow> viper \<Rightarrow> string \<Rightarrow>
   (string \<Rightarrow> config_source \<Rightarrow> (('x, 'm) i_world_scheme, string \<times> err option) go) \<Rightarrow>
   ('x, 'm) i_world_scheme env \<Rightarrow> ('x, 'm) i_world_scheme network \<Rightarrow> command \<Rightarrow> (('x, 'm) i_world_scheme, unit) go" where
  "rootCmd_Execute v0 v cfgFile ReadInConfig env n c =
     bnd (persistentPreRunE v0 cfgFile ReadInConfig) (\<lambda>_.
     case c of
       StartCmd \<Rightarrow> start_cmd v env
     | WaitCmd es \<Rightarrow> wait_cmd v env n es
     | RestoreCmd args \<Rightarrow> restore_cmd v env n args
     | RestoreListCmd \<Rightarrow> restoreList_cmd v env n
     | CreateBackupCmd \<Rightarrow> createBackup_cmd v env n
     | DownloadBackupCmd args \<Rightarrow> downloadBackup_cmd v env n args)"

text \<open>\<open>main\<close>: it returns, or exits with 1.  The logger is there once \<open>initLogging\<close> has run.\<close>

definition main_exit :: "bool \<Rightarrow> ('w, unit) go \<Rightarrow> ('w, unit) go" where
  "main_exit logger execute =
     bnd (attempt execute) (\<lambda>r. case r of
       Inl e \<Rightarrow> if \<not> logger then fail (Panic ''failed before logging was set up'') else os_Exit 1
     | Inr _ \<Rightarrow> ret ())"

section \<open>What viper documents\<close>

definition char_upper :: "char \<Rightarrow> char" where
  "char_upper c = (let n = (of_char c :: nat) in if 97 \<le> n \<and> n \<le> 122 then char_of (n - 32) else c)"

text \<open>The variable of a key: \<open>SetEnvPrefix\<close> and \<open>SetEnvKeyReplacer\<close> of \<open>initConfig\<close>.\<close>

definition env_prefix :: string where "env_prefix = ''BACKUP_RESTORE_SIDECAR''"

definition env_name :: "string \<Rightarrow> string" where
  "env_name k = map char_upper (env_prefix @ ''_'' @ map (\<lambda>c. if c = CHR ''-'' then CHR ''_'' else c) k)"

definition default_string :: "string \<Rightarrow> string" where
  "default_string k =
     (case find (\<lambda>f. flag_name f = k) bound_flags of
        Some (StringFlag _ d) \<Rightarrow> d | Some (IntFlag _ i) \<Rightarrow> FormatInt i | _ \<Rightarrow> '''')"

definition default_int :: "string \<Rightarrow> int" where
  "default_int k = (case find (\<lambda>f. flag_name f = k) bound_flags of Some (IntFlag _ i) \<Rightarrow> i | _ \<Rightarrow> 0)"

text \<open>\<open>merged args getenv scalars slices v\<close>: \<open>v\<close> has the value of a flag that was given, else that of a
  variable that is set and not empty, else that of the configuration file, else the default of the flag.\<close>

definition merged ::
  "(string \<times> string) list \<Rightarrow> (string \<Rightarrow> string) \<Rightarrow> (string \<times> string) list \<Rightarrow> (string \<times> string list) list \<Rightarrow> viper \<Rightarrow> bool" where
  "merged args getenv scalars slices v \<longleftrightarrow>
     (\<forall>k. GetString v k =
        (case map_of args k of Some s \<Rightarrow> s | None \<Rightarrow>
           if getenv (env_name k) \<noteq> '''' then getenv (env_name k)
           else (case map_of scalars k of Some s \<Rightarrow> s | None \<Rightarrow> default_string k))) \<and>
     (\<forall>k. map_of args k = None \<longrightarrow> getenv (env_name k) = '''' \<longrightarrow> map_of scalars k = None \<longrightarrow>
        GetInt v k = default_int k \<and> GetInt32 v k = word_of_int (default_int k) \<and> GetInt64 v k = word_of_int (default_int k)) \<and>
     (\<forall>k. getenv (env_name k) = '''' \<longrightarrow>
        GetStringSlice v k = (case map_of slices k of Some l \<Rightarrow> l | None \<Rightarrow> [])) \<and>
     (\<forall>k. IsSet v k \<longleftrightarrow> map_of args k \<noteq> None \<or> getenv (env_name k) \<noteq> '''' \<or> map_of scalars k \<noteq> None \<or> map_of slices k \<noteq> None)"

end
