(* ===== verification/CounterMode.thy ===== *)
theory CounterMode
  imports Encryption
begin

text \<open>
  The encryption against the textbook: counter mode as it is specified, block by block, with a
  counter that is incremented in place.  The code reads the file in pieces of any length and the
  model of the key stream computes every byte from its position; both give the same file.
\<close>

section \<open>The counter as a number\<close>

fun inc_le :: "byte list \<Rightarrow> byte list" where
  "inc_le [] = []"
| "inc_le (b # bs) = (if b + 1 = 0 then 0 # inc_le bs else (b + 1) # bs)"

text \<open>One more, from the last byte with carry; all ones wrap around to nought.\<close>

definition inc_be :: "byte list \<Rightarrow> byte list" where
  "inc_be bs = rev (inc_le (rev bs))"

fun le_nat :: "byte list \<Rightarrow> nat" where
  "le_nat [] = 0"
| "le_nat (b # bs) = unat b + 256 * le_nat bs"

fun le_bytes :: "nat \<Rightarrow> nat \<Rightarrow> byte list" where
  "le_bytes 0 n = []"
| "le_bytes (Suc k) n = of_nat n # le_bytes k (n div 256)"

lemma length_inc_le [simp]: "length (inc_le bs) = length bs"
  by (induction bs rule: inc_le.induct) auto

lemma length_inc_be [simp]: "length (inc_be bs) = length bs"
  by (simp add: inc_be_def)

lemma length_incs [simp]: "length ((inc_be ^^ k) bs) = length bs"
  by (induction k) simp_all

lemma unat_byte: "unat (b :: byte) < 256"
  using unsigned_less [of b, where ?'a = nat] by simp

lemma unat_inc: "unat (b + 1 :: byte) = (unat b + 1) mod 256"
  by (simp add: unat_word_ariths)

lemma le_nat_less: "le_nat bs < 256 ^ length bs"
proof (induction bs)
  case (Cons b bs)
  then show ?case using unat_byte [of b] by simp
qed simp

lemma le_bytes_nat: "le_bytes (length bs) (le_nat bs) = bs"
proof (induction bs)
  case (Cons b bs)
  have "(256 :: byte) = 0" by simp
  then have "word_of_nat (unat b + 256 * le_nat bs) = b" by (simp only: of_nat_add of_nat_mult of_nat_numeral) simp
  then show ?case using Cons unat_byte [of b] by simp
qed simp

lemma le_nat_inc: "le_nat (inc_le bs) = (le_nat bs + 1) mod 256 ^ length bs"
proof (induction bs)
  case (Cons b bs)
  show ?case
  proof (cases "b + 1 = 0")
    case True
    then have "unat (b + 1) = 0" by simp
    then have b: "unat b = 255" using unat_byte [of b] by (simp only: unat_inc) presburger
    have "(256 + 256 * le_nat bs) mod (256 * 256 ^ length bs) = 256 * ((1 + le_nat bs) mod 256 ^ length bs)"
      by (metis mult_mod_right distrib_left mult.right_neutral)
    then show ?thesis using True Cons by (simp add: b)
  next
    case False
    then have "unat (b + 1) \<noteq> 0" by (simp add: unsigned_eq_0_iff)
    then have "unat (b + 1) = unat b + 1" using unat_byte [of b] unfolding unat_inc by (metis Suc_eq_plus1 Suc_leI le_less mod_less mod_self)
    moreover have "unat (b + 1) + 256 * le_nat bs < 256 * 256 ^ length bs"
      using le_nat_less [of "(b + 1) # bs"] by simp
    ultimately show ?thesis using False by simp
  qed
qed simp

lemma le_bytes_map: "le_bytes k n = map (\<lambda>i. of_nat (n div 256 ^ i)) [0..<k]"
proof (induction k arbitrary: n)
  case (Suc k)
  have "[0..<Suc k] = 0 # map Suc [0..<k]" by (simp add: upt_conv_Cons map_Suc_upt del: upt_Suc)
  then show ?case using Suc by (simp add: comp_def div_mult2_eq del: upt_Suc)
qed simp

lemma be_nat_le: "be_nat bs = le_nat (rev bs)"
proof (induction bs rule: rev_induct)
  case (snoc b bs)
  then show ?case by (simp add: be_nat_def)
qed (simp add: be_nat_def)

lemma be_bytes_le: "be_bytes k n = rev (le_bytes k n)"
proof -
  have "rev [0..<k] = map (\<lambda>i. k - 1 - i) [0..<k]"
    by (intro nth_equalityI) (simp_all add: rev_nth)
  then show ?thesis by (simp add: be_bytes_def le_bytes_map rev_map comp_def)
qed

lemma be_nat_incs: "be_nat ((inc_be ^^ k) bs) = (be_nat bs + k) mod 256 ^ length bs"
proof (induction k)
  case 0
  show ?case using le_nat_less [of "rev bs"] by (simp add: be_nat_le)
next
  case (Suc k)
  have "be_nat (inc_be cs) = (be_nat cs + 1) mod 256 ^ length cs" for cs
    using le_nat_inc [of "rev cs"] by (simp add: be_nat_le inc_be_def)
  then show ?case using Suc by (simp add: mod_Suc_eq)
qed

text \<open>The counter block of the model is the vector incremented that often.\<close>

lemma counter_block:
  assumes "length iv = aes_BlockSize"
  shows "be_bytes aes_BlockSize ((be_nat iv + k) mod 2 ^ 128) = (inc_be ^^ k) iv"
proof -
  let ?c = "(inc_be ^^ k) iv"
  have p: "(256 :: nat) ^ aes_BlockSize = 2 ^ 128" by (simp add: aes_BlockSize_def)
  have "be_bytes (length ?c) (be_nat ?c) = ?c"
    using le_bytes_nat [of "rev ?c"] by (simp add: be_bytes_le be_nat_le)
  then show ?thesis using be_nat_incs [of k iv] assms by (simp add: p)
qed

section \<open>Counter mode, block by block\<close>

function counter_mode :: "block_fn \<Rightarrow> byte list \<Rightarrow> byte list \<Rightarrow> byte list" where
  "counter_mode blk ctr c =
     (if c = [] then []
      else map2 (XOR) (take aes_BlockSize c) (blk ctr) @ counter_mode blk (inc_be ctr) (drop aes_BlockSize c))"
  by auto
termination by (relation "measure (\<lambda>(blk, ctr, c). length c)") (auto simp: aes_BlockSize_def)

declare counter_mode.simps [simp del]

lemma xor_stream_nth: "j < length c \<Longrightarrow> xor_stream blk iv pos c ! j = c ! j XOR key_stream blk iv (pos + j)"
  by (induction blk iv pos c arbitrary: j rule: xor_stream.induct) (auto simp: nth_Cons split: nat.splits)

lemma xor_block:
  assumes "length iv = aes_BlockSize" "length b \<le> aes_BlockSize" "length (blk ((inc_be ^^ k) iv)) = aes_BlockSize"
  shows "xor_stream blk iv (aes_BlockSize * k) b = map2 (XOR) b (blk ((inc_be ^^ k) iv))"
proof (intro nth_equalityI)
  fix j assume "j < length (xor_stream blk iv (aes_BlockSize * k) b)"
  then have j: "j < length b" "j < aes_BlockSize" using assms(2) by simp_all
  then have "(aes_BlockSize * k + j) div aes_BlockSize = k" "(aes_BlockSize * k + j) mod aes_BlockSize = j" by simp_all
  then show "xor_stream blk iv (aes_BlockSize * k) b ! j = map2 (XOR) b (blk ((inc_be ^^ k) iv)) ! j"
    using j assms(3) counter_block [OF assms(1), of k] by (simp add: xor_stream_nth key_stream_def)
qed (use assms in simp)

lemma stream_is_counter_mode:
  assumes "length iv = aes_BlockSize" "\<And>b. length b = aes_BlockSize \<Longrightarrow> length (blk b) = aes_BlockSize"
  shows "xor_stream blk iv (aes_BlockSize * k) c = counter_mode blk ((inc_be ^^ k) iv) c"
proof (induction c arbitrary: k rule: length_induct)
  case (1 c)
  let ?n = aes_BlockSize
  show ?case
  proof (cases "c = []")
    case True
    then show ?thesis by (simp add: counter_mode.simps)
  next
    case False
    have blk: "length (blk ((inc_be ^^ k) iv)) = ?n" using assms by simp
    have "xor_stream blk iv (?n * k) c = xor_stream blk iv (?n * k) (take ?n c) @
      xor_stream blk iv (?n * k + length (take ?n c)) (drop ?n c)"
      by (metis append_take_drop_id xor_stream_append)
    also have "xor_stream blk iv (?n * k + length (take ?n c)) (drop ?n c) = xor_stream blk iv (?n * Suc k) (drop ?n c)"
      by (cases "?n \<le> length c") (simp_all add: add.commute)
    also have "\<dots> = counter_mode blk ((inc_be ^^ Suc k) iv) (drop ?n c)"
    proof -
      have "length (drop ?n c) < length c" using False by (simp add: aes_BlockSize_def)
      then show ?thesis using 1 by blast
    qed
    also have "xor_stream blk iv (?n * k) (take ?n c) = map2 (XOR) (take ?n c) (blk ((inc_be ^^ k) iv))"
      by (rule xor_block) (use assms(1) blk in simp_all)
    finally show ?thesis using False by (simp add: counter_mode.simps [of blk "(inc_be ^^ k) iv" c])
  qed
qed

text \<open>C18: encryption and decryption are textbook counter mode over whole files.  For a block function on
  blocks, \<open>Encrypt\<close> leaves the counter mode of the content followed by the vector, and \<open>Decrypt\<close> of any file that
  ends in a vector leaves the counter mode of what stands before it, in whatever pieces the files are read; both
  succeed if no system call fails.\<close>

theorem Encrypt_is_counter_mode:
  assumes "p = d @ slash # n" "plain_name n" "length (enc_key e) = 32"
    and "\<forall>b. length b = aes_BlockSize \<longrightarrow> length (cipher_of aes e b) = aes_BlockSize"
    and "parents_ok (w_fs w) (resolve p)" "fs_get (w_fs w) (resolve p) = Some (File c t)"
      "fs_get (w_fs w) (resolve (p @ enc_suffix)) = None"
    and "parents_ok (w_fs v) (resolve p)" "fs_get (w_fs v) (resolve (p @ enc_suffix)) = Some (File (x @ iv) s)"
      "fs_get (w_fs v) (resolve p) = None" "length iv = aes_BlockSize"
  shows "meets (Encrypt aes e p) (\<lambda>y w'. y = p @ enc_suffix \<and> (\<exists>iv. length iv = aes_BlockSize \<and>
      file_at (w_fs w') (resolve (p @ enc_suffix)) = Some (counter_mode (cipher_of aes e) iv c @ iv))) w \<and>
    meets (Decrypt aes e (p @ enc_suffix)) (\<lambda>y w'. y = p \<and>
      file_at (w_fs w') (resolve p) = Some (counter_mode (cipher_of aes e) iv x)) v"
proof (rule conjI)
  have stream: "xor_stream (cipher_of aes e) iv 0 c = counter_mode (cipher_of aes e) iv c" if "length iv = aes_BlockSize" for iv c
    using stream_is_counter_mode [OF that, of "cipher_of aes e" 0] assms(4) by simp
  note sib = sibling [OF assms(1,2)]
  have "\<not> is_dir (fs_get (w_fs w) (resolve (p @ enc_suffix)))" using assms(7) by simp
  from meets_Encrypt [OF assms(1,2,5,6) this assms(3), of aes]
  show "meets (Encrypt aes e p) (\<lambda>y w'. y = p @ enc_suffix \<and> (\<exists>iv. length iv = aes_BlockSize \<and>
      file_at (w_fs w') (resolve (p @ enc_suffix)) = Some (counter_mode (cipher_of aes e) iv c @ iv))) w"
  proof (rule meets_mono, goal_cases)
    case (1 y w')
    then obtain iv s u where "y = p @ enc_suffix" and iv: "length iv = aes_BlockSize" and "fs_get (w_fs w') =
      (fs_get (w_fs w))(resolve (p @ enc_suffix) \<mapsto> File (xor_stream (cipher_of aes e) iv 0 c @ iv) s, resolve p := u)"
      using assms(7) by (auto simp: opened_def overwrite_def)
    then show ?case using sib(3) by (auto simp: file_at_def stream [OF iv] intro!: exI [of _ iv])
  qed
  have nodir: "\<not> is_dir (fs_get (w_fs v) (resolve p))" and len: "aes_BlockSize \<le> length (x @ iv)"
    using assms(10,11) by simp_all
  from meets_Decrypt [OF assms(1,2,8,9) nodir assms(3) len, of aes]
  show "meets (Decrypt aes e (p @ enc_suffix)) (\<lambda>y w'. y = p \<and>
      file_at (w_fs w') (resolve p) = Some (counter_mode (cipher_of aes e) iv x)) v"
    by (rule meets_mono) (use sib(3) assms(10,11) in \<open>auto simp: file_at_def opened_def overwrite_def stream\<close>)
qed

theorem Encrypt_is_counter_mode_witness:
  "\<exists>w1 v1 :: unit world. Encrypt (\<lambda>k b. b) a_key a_file (calm [([''t''], Dir 0), ([''t'', ''f''], File [1, 2, 3] 0)] ()) =
       (Inr (a_file @ enc_suffix), w1) \<and>
     Decrypt (\<lambda>k b. b) a_key (a_file @ enc_suffix)
       (calm [([''t''], Dir 0), ([''t'', ''f.aes''], File ([5, 6] @ replicate 16 255) 0)] ()) = (Inr a_file, v1) \<and>
     file_at (w_fs v1) [''t'', ''f''] = Some [250, 249]"
proof -
  let ?w = "calm [([''t''], Dir 0), ([''t'', ''f''], File [1, 2, 3] 0)] () :: unit world"
  let ?v = "calm [([''t''], Dir 0), ([''t'', ''f.aes''], File ([5, 6] @ replicate 16 255) 0)] () :: unit world"
  have w: "parents_ok (w_fs ?w) (resolve a_file)" "fs_get (w_fs ?w) (resolve a_file) = Some (File [1, 2, 3] 0)"
    "fs_get (w_fs ?w) (resolve (a_file @ enc_suffix)) = None"
    and v: "parents_ok (w_fs ?v) (resolve a_file)"
    "fs_get (w_fs ?v) (resolve (a_file @ enc_suffix)) = Some (File ([5, 6] @ replicate 16 255) 0)"
    "fs_get (w_fs ?v) (resolve a_file) = None" "length (replicate 16 255 :: byte list) = aes_BlockSize"
    by (simp_all add: a_file_split(3,4) parents_ok_def fs_get_def aes_BlockSize_def)
  have block: "\<forall>b. length b = aes_BlockSize \<longrightarrow> length (cipher_of (\<lambda>k b. b) a_key b) = aes_BlockSize"
    by (simp add: cipher_of_def)
  have cm: "counter_mode (cipher_of (\<lambda>k b. b) a_key) (replicate 16 255) [5, 6] = [250, 249]" by code_simp
  note both = Encrypt_is_counter_mode [OF a_file_split(1,2) a_key_length block w v]
  from meets_quiet [OF conjunct1 [OF both]] obtain w1 where "Encrypt (\<lambda>k b. b) a_key a_file ?w = (Inr (a_file @ enc_suffix), w1)"
    by auto
  moreover from meets_quiet [OF conjunct2 [OF both]] obtain v1 where "Decrypt (\<lambda>k b. b) a_key (a_file @ enc_suffix) ?v = (Inr a_file, v1)"
    "file_at (w_fs v1) [''t'', ''f''] = Some [250, 249]"
    by (auto simp: cm a_file_split(3))
  ultimately show ?thesis by blast
qed

end
