(* ===== verification/Manifests.thy ===== *)
theory Manifests
  imports Utils
begin

text \<open>
  The Kubernetes objects that \<open>pkg/generate/examples\<close> writes down as Go values, and the program
  \<open>dump.go\<close> that turns them into files.  The records have the fields that the examples set; a field that
  a literal leaves out has its zero value, and so a literal is an update of the zero value of its type.
  \<open>yaml.Marshal\<close> and the quantities of \<open>resource.MustParse\<close> are outside the repository: the first is a
  parameter, the second is kept as the text it is given.
\<close>

section \<open>Objects\<close>

type_synonym int32 = "32 word"

text \<open>The maps of a manifest (labels, data) are written in full, with distinct keys.\<close>

type_synonym string_map = "(string \<times> string) list"

record object_meta =
  om_Name :: string
  om_Namespace :: string
  om_Labels :: string_map

record volume_mount =
  vm_Name :: string
  vm_SubPath :: string
  vm_MountPath :: string

datatype volume_source =
    PersistentVolumeClaim string             \<comment> \<open>\<open>ClaimName\<close>\<close>
  | ConfigMapVolume string                   \<comment> \<open>\<open>LocalObjectReference.Name\<close>\<close>
  | SecretVolume string "(string \<times> string) list"  \<comment> \<open>\<open>SecretName\<close>, and the \<open>Items\<close> as key and path\<close>
  | EmptyDir

record volume =
  vol_Name :: string
  vol_Source :: volume_source

text \<open>A variable of the environment with its value from a \<open>SecretKeyRef\<close>.\<close>

record env_var =
  ev_Name :: string
  ev_SecretName :: string
  ev_Key :: string

datatype probe_handler =
    Exec "string list"
  | HTTPGet string int32 string              \<comment> \<open>\<open>Path\<close>, \<open>Port\<close>, \<open>Scheme\<close>\<close>

record kube_probe =
  kp_Handler :: probe_handler
  kp_InitialDelaySeconds :: int32
  kp_TimeoutSeconds :: int32
  kp_PeriodSeconds :: int32
  kp_SuccessThreshold :: int32
  kp_FailureThreshold :: int32

record container_port =
  cp_Name :: string
  cp_ContainerPort :: int32
  cp_Protocol :: string

record container =
  ct_Name :: string
  ct_Image :: string
  ct_ImagePullPolicy :: string
  ct_Command :: "string list"
  ct_LivenessProbe :: "kube_probe option"
  ct_ReadinessProbe :: "kube_probe option"
  ct_Env :: "env_var list"
  ct_Ports :: "container_port list"
  ct_VolumeMounts :: "volume_mount list"

record claim_template =
  pc_Name :: string
  pc_AccessModes :: "string list"
  pc_Storage :: string

record pod_spec =
  ps_HostNetwork :: bool
  ps_Containers :: "container list"
  ps_InitContainers :: "container list"
  ps_Volumes :: "volume list"

record stateful_set =
  ss_Meta :: object_meta
  ss_ServiceName :: string
  ss_Replicas :: int32
  ss_Selector :: string_map
  ss_TemplateLabels :: string_map
  ss_PodSpec :: pod_spec
  ss_Claims :: "claim_template list"

record service_port =
  sp_Name :: string
  sp_Port :: int32
  sp_TargetPort :: int32

datatype resource =
    StatefulSet stateful_set
  | ConfigMap object_meta string_map          \<comment> \<open>\<open>Data\<close>\<close>
  | Secret object_meta string_map             \<comment> \<open>\<open>StringData\<close>\<close>
  | Service object_meta string_map "service_port list"  \<comment> \<open>\<open>Selector\<close>, \<open>Ports\<close>\<close>

text \<open>The \<open>TypeMeta\<close> of a literal is its \<open>Kind\<close>, which is its type here, and the version of the group it
  belongs to.\<close>

fun TypeMeta :: "resource \<Rightarrow> string \<times> string" where
  "TypeMeta (StatefulSet _) = (''StatefulSet'', ''apps/v1'')"
| "TypeMeta (ConfigMap _ _) = (''ConfigMap'', ''v1'')"
| "TypeMeta (Secret _ _) = (''Secret'', ''v1'')"
| "TypeMeta (Service _ _ _) = (''Service'', ''v1'')"

fun obj_meta :: "resource \<Rightarrow> object_meta" where
  "obj_meta (StatefulSet s) = ss_Meta s"
| "obj_meta (ConfigMap m _) = m"
| "obj_meta (Secret m _) = m"
| "obj_meta (Service m _ _) = m"

section \<open>Literals\<close>

definition a_container :: container where
  "a_container = \<lparr>ct_Name = '''', ct_Image = '''', ct_ImagePullPolicy = '''', ct_Command = [],
     ct_LivenessProbe = None, ct_ReadinessProbe = None, ct_Env = [], ct_Ports = [], ct_VolumeMounts = []\<rparr>"

definition a_probe :: "probe_handler \<Rightarrow> kube_probe" where
  "a_probe h = \<lparr>kp_Handler = h, kp_InitialDelaySeconds = 0, kp_TimeoutSeconds = 0, kp_PeriodSeconds = 0,
     kp_SuccessThreshold = 0, kp_FailureThreshold = 0\<rparr>"

definition a_port :: "int32 \<Rightarrow> container_port" where
  "a_port n = \<lparr>cp_Name = '''', cp_ContainerPort = n, cp_Protocol = ''''\<rparr>"

definition mount :: "string \<Rightarrow> string \<Rightarrow> volume_mount" where
  "mount name path = \<lparr>vm_Name = name, vm_SubPath = '''', vm_MountPath = path\<rparr>"

definition sub_mount :: "string \<Rightarrow> string \<Rightarrow> string \<Rightarrow> volume_mount" where
  "sub_mount name sub path = \<lparr>vm_Name = name, vm_SubPath = sub, vm_MountPath = path\<rparr>"

definition vol :: "string \<Rightarrow> volume_source \<Rightarrow> volume" where
  "vol name src = \<lparr>vol_Name = name, vol_Source = src\<rparr>"

definition secret_env :: "string \<Rightarrow> string \<Rightarrow> string \<Rightarrow> env_var" where
  "secret_env name secret key = \<lparr>ev_Name = name, ev_SecretName = secret, ev_Key = key\<rparr>"

definition claim_of :: "string \<Rightarrow> string list \<Rightarrow> string \<Rightarrow> claim_template" where
  "claim_of name modes storage = \<lparr>pc_Name = name, pc_AccessModes = modes, pc_Storage = storage\<rparr>"

definition a_meta :: "string \<Rightarrow> string \<Rightarrow> object_meta" where
  "a_meta name namespace = \<lparr>om_Name = name, om_Namespace = namespace, om_Labels = []\<rparr>"

definition a_service_port :: "string \<Rightarrow> int32 \<Rightarrow> int32 \<Rightarrow> service_port" where
  "a_service_port name port target = \<lparr>sp_Name = name, sp_Port = port, sp_TargetPort = target\<rparr>"

text \<open>A raw string of several lines.\<close>

definition newline :: char where "newline = CHR 0x0A"

definition text_of :: "string list \<Rightarrow> string" where
  "text_of ls = concat (map (\<lambda>l. l @ [newline]) ls)"

lemmas literal_defs = a_container_def a_probe_def a_port_def mount_def sub_mount_def vol_def secret_env_def
  claim_of_def a_meta_def a_service_port_def

section \<open>Writing the examples\<close>

text \<open>The bytes of a string.\<close>

definition bytes_of :: "string \<Rightarrow> byte list" where
  "bytes_of s = map (\<lambda>c. of_nat (of_char c)) s"

fun SetNamespace :: "string \<Rightarrow> resource \<Rightarrow> resource" where
  "SetNamespace n (StatefulSet s) = StatefulSet (s\<lparr>ss_Meta := (ss_Meta s)\<lparr>om_Namespace := n\<rparr>\<rparr>)"
| "SetNamespace n (ConfigMap m d) = ConfigMap (m\<lparr>om_Namespace := n\<rparr>) d"
| "SetNamespace n (Secret m d) = Secret (m\<lparr>om_Namespace := n\<rparr>) d"
| "SetNamespace n (Service m s ps) = Service (m\<lparr>om_Namespace := n\<rparr>) s ps"

text \<open>The copy of a stateful set loses the host network.\<close>

fun without_host_network :: "resource \<Rightarrow> resource" where
  "without_host_network (StatefulSet s) = StatefulSet (s\<lparr>ss_PodSpec := (ss_PodSpec s)\<lparr>ps_HostNetwork := False\<rparr>\<rparr>)"
| "without_host_network r = r"

definition dumped :: "resource \<Rightarrow> resource" where
  "dumped r = without_host_network (SetNamespace '''' r)"

definition dump_header :: string where
  "dump_header = text_of [''# THESE EXAMPLES ARE GENERATED!'',
     ''# Use them as a template for your deployment, but do not commit manual changes to these files.'', ''---'']"

fun dump_docs :: "(resource \<Rightarrow> err + byte list) \<Rightarrow> resource list \<Rightarrow> err + byte list" where
  "dump_docs marshal [] = Inr []"
| "dump_docs marshal (r # rs) =
     (case marshal (dumped r) of
        Inl e \<Rightarrow> Inl e
      | Inr raw \<Rightarrow>
          (let doc = (if rs \<noteq> [] then raw @ bytes_of (text_of [''---'']) else raw) in
           case dump_docs marshal rs of Inl e \<Rightarrow> Inl e | Inr content \<Rightarrow> Inr (doc @ content)))"

text \<open>\<open>filename\<close> is the source file of the caller, as \<open>runtime.Caller\<close> tells it.\<close>

definition dump_dest :: "string \<Rightarrow> string \<Rightarrow> string" where
  "dump_dest filename name = path_Join [filepath_Dir filename, ''../../..'', ''deploy'', name]"

definition dumpToExamples ::
  "(resource \<Rightarrow> err + byte list) \<Rightarrow> string \<Rightarrow> string \<Rightarrow> resource list \<Rightarrow> (('x, 'm) world_scheme, unit) go" where
  "dumpToExamples marshal filename name resources =
     bnd (liftR (dump_docs marshal resources)) (\<lambda>content.
     os_WriteFile (dump_dest filename name) (bytes_of dump_header @ content))"

record local_example =
  le_db :: string
  le_sts :: "string \<Rightarrow> stateful_set"
  le_backing :: "string \<Rightarrow> resource list"

text \<open>The objects of an example, in the order they are written.\<close>

definition example_objects :: "local_example \<Rightarrow> string \<Rightarrow> resource list" where
  "example_objects e ns = StatefulSet (le_sts e ns) # le_backing e ns"

definition dump_example ::
  "(resource \<Rightarrow> err + byte list) \<Rightarrow> string \<Rightarrow> local_example \<Rightarrow> (('x, 'm) world_scheme, unit) go" where
  "dump_example marshal filename e =
     map_err (\<lambda>_. Panic ''dump'') (dumpToExamples marshal filename (le_db e @ ''-local.yaml'') (example_objects e ''default''))"

end
