(* ===== verification/Examples.thy ===== *)
theory Examples
  imports Manifests
begin

text \<open>
  \<open>pkg/generate/examples/examples\<close>: the example deployment of every database, and the list of them that
  \<open>dump.go\<close> writes.  An example is a stateful set whose pod runs the database (which waits for the
  sidecar), the sidecar, and an init container that provides the binary; the backing resources hold the
  configuration file of the sidecar and, where needed, secrets and a service.  The parts of one Go literal
  are definitions of their own.
\<close>

section \<open>\<open>examples/common.go\<close>\<close>

definition backupRestoreSidecarContainerImage :: string where
  "backupRestoreSidecarContainerImage = ''ghcr.io/metal-stack/backup-restore-sidecar:latest''"

section \<open>\<open>examples/etcd.go\<close>\<close>

definition Etcd_name :: string where "Etcd_name = ''etcd''"
definition etcdContainerImage :: string where "etcdContainerImage = ''quay.io/coreos/etcd:v3.5.21''"

definition etcd_server :: "container" where
  "etcd_server =
     a_container\<lparr>
     ct_Name := ''etcd'',
     ct_Image := etcdContainerImage,
     ct_Command := [''backup-restore-sidecar'', ''wait''],
     ct_LivenessProbe := Some ((a_probe (Exec [''/usr/local/bin/etcdctl'', ''endpoint'', ''health'', ''--endpoints=127.0.0.1:32379'']))
         \<lparr>kp_InitialDelaySeconds := 15, kp_TimeoutSeconds := 1, kp_PeriodSeconds := 5, kp_SuccessThreshold := 1, kp_FailureThreshold := 3\<rparr>),
     ct_ReadinessProbe := Some ((a_probe (HTTPGet ''/health'' 32381 ''HTTP''))
         \<lparr>kp_InitialDelaySeconds := 15, kp_TimeoutSeconds := 1, kp_PeriodSeconds := 5, kp_SuccessThreshold := 1, kp_FailureThreshold := 3\<rparr>),
     ct_Ports := [(a_port 32379)\<lparr>cp_Name := ''client'', cp_Protocol := ''TCP''\<rparr>,
                  (a_port 32380)\<lparr>cp_Name := ''server'', cp_Protocol := ''TCP''\<rparr>],
     ct_VolumeMounts := [mount ''data'' ''/data'',
                         sub_mount ''bin-provision'' ''backup-restore-sidecar'' ''/usr/local/bin/backup-restore-sidecar'',
                         mount ''backup-restore-sidecar-config'' ''/etc/backup-restore-sidecar'']\<rparr>"

definition etcd_sidecar :: "container" where
  "etcd_sidecar =
     a_container\<lparr>
     ct_Name := ''backup-restore-sidecar'',
     ct_Image := etcdContainerImage,
     ct_Command := [''backup-restore-sidecar'', ''start'', ''--log-level=debug''],
     ct_Ports := [(a_port 8000)\<lparr>cp_Name := ''grpc''\<rparr>],
     ct_VolumeMounts := [mount ''backup'' SidecarBaseDir,
                         mount ''data'' ''/data'',
                         mount ''backup-restore-sidecar-config'' ''/etc/backup-restore-sidecar'',
                         sub_mount ''bin-provision'' ''backup-restore-sidecar'' ''/usr/local/bin/backup-restore-sidecar'']\<rparr>"

definition etcd_init_containers :: "container list" where
  "etcd_init_containers =
     [a_container\<lparr>
       ct_Name := ''backup-restore-sidecar-provider'',
       ct_Image := backupRestoreSidecarContainerImage,
       ct_ImagePullPolicy := ''IfNotPresent'',
       ct_Command := [''cp'', ''/backup-restore-sidecar'', ''/bin-provision''],
       ct_VolumeMounts := [mount ''bin-provision'' ''/bin-provision'']\<rparr>]"

definition etcd_volumes :: "volume list" where
  "etcd_volumes =
     [vol ''data'' (PersistentVolumeClaim ''data''),
      vol ''backup'' (PersistentVolumeClaim ''backup''),
      vol ''backup-restore-sidecar-config'' (ConfigMapVolume ''backup-restore-sidecar-config-postgres''),
      vol ''bin-provision'' EmptyDir]"

definition etcd_claims :: "claim_template list" where
  "etcd_claims =
     [claim_of ''data'' [''ReadWriteOnce''] ''1Gi'',
      claim_of ''backup'' [''ReadWriteOnce''] ''1Gi'']"

definition EtcdSts :: "string \<Rightarrow> stateful_set" where
  "EtcdSts namespace =
     \<lparr>ss_Meta = ((a_meta ''etcd'' namespace)\<lparr>om_Labels := [(''app'', ''etcd'')]\<rparr>),
      ss_ServiceName = ''etcd'', ss_Replicas = 1, ss_Selector = [(''app'', ''etcd'')], ss_TemplateLabels = [(''app'', ''etcd'')],
      ss_PodSpec = \<lparr>ps_HostNetwork = True, ps_Containers = [etcd_server, etcd_sidecar],
        ps_InitContainers = etcd_init_containers, ps_Volumes = etcd_volumes\<rparr>,
      ss_Claims = etcd_claims\<rparr>"

definition etcd_config :: string where \<open>etcd_config = text_of
    [''---'',
     ''bind-addr: 0.0.0.0'',
     ''db: etcd'',
     ''db-data-directory: /data/etcd/'',
     ''backup-provider: local'',
     ''backup-cron-schedule: "*/1 * * * *"'',
     ''object-prefix: etcd-test'',
     ''etcd-endpoints: http://localhost:32379'',
     ''encryption-key: "01234567891234560123456789123456"'',
     ''post-exec-cmds:'',
     ''- etcd --data-dir=/data/etcd --listen-client-urls http://0.0.0.0:32379 --advertise-client-urls http://0.0.0.0:32379 --listen-peer-urls http://0.0.0.0:32380 --initial-advertise-peer-urls http://0.0.0.0:32380 --initial-cluster default=http://0.0.0.0:32380 --listen-metrics-urls http://0.0.0.0:32381'']\<close>

definition EtcdBackingResources :: "string \<Rightarrow> resource list" where
  "EtcdBackingResources namespace =
     [ConfigMap (a_meta ''backup-restore-sidecar-config-postgres'' namespace) [(''config.yaml'', etcd_config)]]"

lemmas etcd_example_defs =
  Etcd_name_def etcdContainerImage_def etcd_server_def etcd_sidecar_def etcd_init_containers_def
  etcd_volumes_def etcd_claims_def EtcdSts_def EtcdBackingResources_def

section \<open>\<open>examples/postgres.go\<close>\<close>

definition Postgres_name :: string where "Postgres_name = ''postgres''"
definition PostgresDB :: string where "PostgresDB = ''postgres''"
definition PostgresPassword :: string where "PostgresPassword = ''test123!''"
definition PostgresUser :: string where "PostgresUser = ''postgres''"
definition postgresContainerImage :: string where "postgresContainerImage = ''postgres:16-alpine''"

definition postgres_server :: "container" where
  "postgres_server =
     a_container\<lparr>
     ct_Name := ''postgres'',
     ct_Image := postgresContainerImage,
     ct_Command := [''backup-restore-sidecar'', ''wait''],
     ct_LivenessProbe := Some ((a_probe (Exec [''/bin/sh'', ''-c'', ''exec'', ''pg_isready'', ''-U'', PostgresUser, ''-h'', ''127.0.0.1'', ''-p'', ''5432'']))
         \<lparr>kp_InitialDelaySeconds := 30, kp_TimeoutSeconds := 5, kp_PeriodSeconds := 10, kp_SuccessThreshold := 1, kp_FailureThreshold := 6\<rparr>),
     ct_ReadinessProbe := Some ((a_probe (Exec [''/bin/sh'', ''-c'', ''exec'', ''pg_isready'', ''-U'', PostgresUser, ''-h'', ''127.0.0.1'', ''-p'', ''5432'']))
         \<lparr>kp_InitialDelaySeconds := 5, kp_TimeoutSeconds := 5, kp_PeriodSeconds := 10\<rparr>),
     ct_Env := [secret_env ''POSTGRES_DB'' ''postgres'' ''POSTGRES_DB'',
                secret_env ''POSTGRES_USER'' ''postgres'' ''POSTGRES_USER'',
                secret_env ''POSTGRES_PASSWORD'' ''postgres'' ''POSTGRES_PASSWORD'',
                secret_env ''PGDATA'' ''postgres'' ''POSTGRES_DATA''],
     ct_Ports := [a_port 5432],
     ct_VolumeMounts := [mount ''data'' ''/data'',
                         sub_mount ''bin-provision'' ''backup-restore-sidecar'' ''/usr/local/bin/backup-restore-sidecar'',
                         mount ''backup-restore-sidecar-config'' ''/etc/backup-restore-sidecar'']\<rparr>"

definition postgres_sidecar :: "container" where
  "postgres_sidecar =
     a_container\<lparr>
     ct_Name := ''backup-restore-sidecar'',
     ct_Image := postgresContainerImage,
     ct_Command := [''backup-restore-sidecar'', ''start'', ''--log-level=debug''],
     ct_Env := [secret_env ''BACKUP_RESTORE_SIDECAR_POSTGRES_PASSWORD'' ''postgres'' ''POSTGRES_PASSWORD'',
                secret_env ''BACKUP_RESTORE_SIDECAR_POSTGRES_USER'' ''postgres'' ''POSTGRES_USER''],
     ct_Ports := [(a_port 8000)\<lparr>cp_Name := ''grpc''\<rparr>],
     ct_VolumeMounts := [mount ''backup'' SidecarBaseDir,
                         mount ''data'' ''/data'',
                         mount ''backup-restore-sidecar-config'' ''/etc/backup-restore-sidecar'',
                         sub_mount ''bin-provision'' ''backup-restore-sidecar'' ''/usr/local/bin/backup-restore-sidecar'']\<rparr>"

definition postgres_init_containers :: "container list" where
  "postgres_init_containers =
     [a_container\<lparr>
       ct_Name := ''backup-restore-sidecar-provider'',
       ct_Image := backupRestoreSidecarContainerImage,
       ct_ImagePullPolicy := ''IfNotPresent'',
       ct_Command := [''cp'', ''/backup-restore-sidecar'', ''/bin-provision''],
       ct_VolumeMounts := [mount ''bin-provision'' ''/bin-provision'']\<rparr>]"

definition postgres_volumes :: "volume list" where
  "postgres_volumes =
     [vol ''data'' (PersistentVolumeClaim ''data''),
      vol ''backup'' (PersistentVolumeClaim ''backup''),
      vol ''backup-restore-sidecar-config'' (ConfigMapVolume ''backup-restore-sidecar-config-postgres''),
      vol ''bin-provision'' EmptyDir]"

definition postgres_claims :: "claim_template list" where
  "postgres_claims =
     [claim_of ''data'' [''ReadWriteOnce''] ''1Gi'',
      claim_of ''backup'' [''ReadWriteOnce''] ''1Gi'']"

definition PostgresSts :: "string \<Rightarrow> stateful_set" where
  "PostgresSts namespace =
     \<lparr>ss_Meta = ((a_meta ''postgres'' namespace)\<lparr>om_Labels := [(''app'', ''postgres'')]\<rparr>),
      ss_ServiceName = ''postgres'', ss_Replicas = 1, ss_Selector = [(''app'', ''postgres'')], ss_TemplateLabels = [(''app'', ''postgres'')],
      ss_PodSpec = \<lparr>ps_HostNetwork = True, ps_Containers = [postgres_server, postgres_sidecar],
        ps_InitContainers = postgres_init_containers, ps_Volumes = postgres_volumes\<rparr>,
      ss_Claims = postgres_claims\<rparr>"

definition postgres_config :: string where \<open>postgres_config = text_of
    [''---'',
     ''bind-addr: 0.0.0.0'',
     ''db: postgres'',
     ''db-data-directory: /data/postgres/'',
     ''backup-provider: local'',
     ''backup-cron-schedule: "*/1 * * * *"'',
     ''object-prefix: postgres-test'',
     ''compression-method: tar'',
     ''encryption-key: "01234567891234560123456789123456"'',
     ''post-exec-cmds:'',
     ''- docker-entrypoint.sh postgres'']\<close>

definition PostgresBackingResources :: "string \<Rightarrow> resource list" where
  "PostgresBackingResources namespace =
     [ConfigMap (a_meta ''backup-restore-sidecar-config-postgres'' namespace) [(''config.yaml'', postgres_config)],
      Secret (a_meta ''postgres'' namespace)
       [(''POSTGRES_DB'', PostgresDB), (''POSTGRES_USER'', PostgresUser), (''POSTGRES_PASSWORD'', PostgresPassword), (''POSTGRES_DATA'', ''/data/postgres/'')],
      Service ((a_meta ''postgres'' namespace)\<lparr>om_Labels := [(''app'', ''postgres'')]\<rparr>) [(''app'', ''postgres'')]
       [a_service_port ''5432'' 5432 5432,
        a_service_port ''metrics'' 2112 2112]]"

lemmas postgres_example_defs =
  Postgres_name_def PostgresDB_def PostgresPassword_def PostgresUser_def postgresContainerImage_def
  postgres_server_def postgres_sidecar_def postgres_init_containers_def postgres_volumes_def postgres_claims_def
  PostgresSts_def PostgresBackingResources_def

section \<open>\<open>examples/rethinkdb.go\<close>\<close>

definition RethinkDB_name :: string where "RethinkDB_name = ''rethinkdb''"
definition RethinkDbPassword :: string where "RethinkDbPassword = ''test123!''"
definition rethinkDbContainerImage :: string where "rethinkDbContainerImage = ''rethinkdb:2.4.4-bookworm-slim''"

definition rethinkdb_server :: "container" where
  "rethinkdb_server =
     a_container\<lparr>
     ct_Name := ''rethinkdb'',
     ct_Image := rethinkDbContainerImage,
     ct_Command := [''backup-restore-sidecar'', ''wait''],
     ct_Env := [secret_env ''RETHINKDB_PASSWORD'' ''rethinkdb'' ''rethinkdb-password''],
     ct_Ports := [a_port 8080,
                  a_port 28015],
     ct_VolumeMounts := [mount ''data'' ''/data'',
                         sub_mount ''bin-provision'' ''backup-restore-sidecar'' ''/usr/local/bin/backup-restore-sidecar'',
                         mount ''backup-restore-sidecar-config'' ''/etc/backup-restore-sidecar'']\<rparr>"

definition rethinkdb_sidecar :: "container" where
  "rethinkdb_sidecar =
     a_container\<lparr>
     ct_Name := ''backup-restore-sidecar'',
     ct_Image := rethinkDbContainerImage,
     ct_Command := [''backup-restore-sidecar'', ''start'', ''--log-level=debug''],
     ct_Ports := [(a_port 8000)\<lparr>cp_Name := ''grpc''\<rparr>],
     ct_VolumeMounts := [mount ''backup'' SidecarBaseDir,
                         mount ''data'' ''/data'',
                         mount ''rethinkdb-credentials'' ''/rethinkdb-secret'',
                         mount ''backup-restore-sidecar-config'' ''/etc/backup-restore-sidecar'',
                         sub_mount ''bin-provision'' ''backup-restore-sidecar'' ''/usr/local/bin/backup-restore-sidecar'',
                         sub_mount ''bin-provision'' ''rethinkdb-dump'' ''/usr/local/bin/rethinkdb-dump'',
                         sub_mount ''bin-provision'' ''rethinkdb-restore'' ''/usr/local/bin/rethinkdb-restore'']\<rparr>"

definition rethinkdb_init_containers :: "container list" where
  "rethinkdb_init_containers =
     [a_container\<lparr>
       ct_Name := ''backup-restore-sidecar-provider'',
       ct_Image := backupRestoreSidecarContainerImage,
       ct_ImagePullPolicy := ''IfNotPresent'',
       ct_Command := [''cp'', ''/backup-restore-sidecar'', ''/rethinkdb/rethinkdb-dump'', ''/rethinkdb/rethinkdb-restore'', ''/bin-provision''],
       ct_VolumeMounts := [mount ''bin-provision'' ''/bin-provision'']\<rparr>]"

definition rethinkdb_volumes :: "volume list" where
  "rethinkdb_volumes =
     [vol ''data'' (PersistentVolumeClaim ''data''),
      vol ''backup'' (PersistentVolumeClaim ''backup''),
      vol ''rethinkdb-credentials'' (SecretVolume ''rethinkdb'' [(''rethinkdb-password'', ''rethinkdb-password.txt'')]),
      vol ''backup-restore-sidecar-config'' (ConfigMapVolume ''backup-restore-sidecar-config-rethinkdb''),
      vol ''bin-provision'' EmptyDir]"

definition rethinkdb_claims :: "claim_template list" where
  "rethinkdb_claims =
     [claim_of ''data'' [''ReadWriteOnce''] ''1Gi'',
      claim_of ''backup'' [''ReadWriteOnce''] ''1Gi'']"

definition RethinkDbSts :: "string \<Rightarrow> stateful_set" where
  "RethinkDbSts namespace =
     \<lparr>ss_Meta = ((a_meta ''rethinkdb'' namespace)\<lparr>om_Labels := [(''app'', ''rethinkdb'')]\<rparr>),
      ss_ServiceName = ''rethinkdb'', ss_Replicas = 1, ss_Selector = [(''app'', ''rethinkdb'')], ss_TemplateLabels = [(''app'', ''rethinkdb'')],
      ss_PodSpec = \<lparr>ps_HostNetwork = True, ps_Containers = [rethinkdb_server, rethinkdb_sidecar],
        ps_InitContainers = rethinkdb_init_containers, ps_Volumes = rethinkdb_volumes\<rparr>,
      ss_Claims = rethinkdb_claims\<rparr>"

definition rethinkdb_config :: string where \<open>rethinkdb_config = text_of
    [''---'',
     ''bind-addr: 0.0.0.0'',
     ''db: rethinkdb'',
     ''db-data-directory: /data/rethinkdb/'',
     ''backup-provider: local'',
     ''rethinkdb-passwordfile: /rethinkdb-secret/rethinkdb-password.txt'',
     ''backup-cron-schedule: "*/1 * * * *"'',
     ''object-prefix: rethinkdb-test'',
     ''encryption-key: "01234567891234560123456789123456"'',
     ''post-exec-cmds:'',
     ''# IMPORTANT: the --directory needs to point to the exact sidecar data dir, otherwise the database will be restored to the wrong location'',
     ''- rethinkdb --bind all --directory /data/rethinkdb --initial-password ${RETHINKDB_PASSWORD}'']\<close>

definition RethinkDbBackingResources :: "string \<Rightarrow> resource list" where
  "RethinkDbBackingResources namespace =
     [ConfigMap (a_meta ''backup-restore-sidecar-config-rethinkdb'' namespace) [(''config.yaml'', rethinkdb_config)],
      Secret (a_meta ''rethinkdb'' namespace)
       [(''rethinkdb-password'', RethinkDbPassword)],
      Service ((a_meta ''rethinkdb'' namespace)\<lparr>om_Labels := [(''app'', ''rethinkdb'')]\<rparr>) [(''app'', ''rethinkdb'')]
       [a_service_port ''10080'' 10080 10080,
        a_service_port ''28015'' 28015 28015,
        a_service_port ''metrics'' 2112 2112]]"

lemmas rethinkdb_example_defs =
  RethinkDB_name_def RethinkDbPassword_def rethinkDbContainerImage_def rethinkdb_server_def rethinkdb_sidecar_def
  rethinkdb_init_containers_def rethinkdb_volumes_def rethinkdb_claims_def RethinkDbSts_def RethinkDbBackingResources_def

section \<open>\<open>examples/redis.go\<close>\<close>

definition Redis_name :: string where "Redis_name = ''redis''"
definition redisContainerImage :: string where "redisContainerImage = ''redis:latest''"

definition redis_server :: "container" where
  "redis_server =
     a_container\<lparr>
     ct_Name := ''redis'',
     ct_Image := redisContainerImage,
     ct_Command := [''backup-restore-sidecar'', ''wait''],
     ct_LivenessProbe := Some ((a_probe (Exec [''redis-cli'', ''ping'']))
         \<lparr>kp_InitialDelaySeconds := 15, kp_TimeoutSeconds := 1, kp_PeriodSeconds := 5, kp_SuccessThreshold := 1, kp_FailureThreshold := 3\<rparr>),
     ct_ReadinessProbe := Some ((a_probe (Exec [''redis-cli'', ''ping'']))
         \<lparr>kp_InitialDelaySeconds := 15, kp_TimeoutSeconds := 1, kp_PeriodSeconds := 5, kp_SuccessThreshold := 1, kp_FailureThreshold := 3\<rparr>),
     ct_Ports := [(a_port 6379)\<lparr>cp_Name := ''client'', cp_Protocol := ''TCP''\<rparr>],
     ct_VolumeMounts := [mount ''data'' ''/data'',
                         sub_mount ''bin-provision'' ''backup-restore-sidecar'' ''/usr/local/bin/backup-restore-sidecar'',
                         mount ''backup-restore-sidecar-config'' ''/etc/backup-restore-sidecar'']\<rparr>"

definition redis_sidecar :: "container" where
  "redis_sidecar =
     a_container\<lparr>
     ct_Name := ''backup-restore-sidecar'',
     ct_Image := redisContainerImage,
     ct_Command := [''backup-restore-sidecar'', ''start'', ''--log-level=debug''],
     ct_Ports := [(a_port 8000)\<lparr>cp_Name := ''grpc''\<rparr>],
     ct_VolumeMounts := [mount ''backup'' SidecarBaseDir,
                         mount ''data'' ''/data'',
                         mount ''backup-restore-sidecar-config'' ''/etc/backup-restore-sidecar'',
                         sub_mount ''bin-provision'' ''backup-restore-sidecar'' ''/usr/local/bin/backup-restore-sidecar'']\<rparr>"

definition redis_init_containers :: "container list" where
  "redis_init_containers =
     [a_container\<lparr>
       ct_Name := ''backup-restore-sidecar-provider'',
       ct_Image := backupRestoreSidecarContainerImage,
       ct_ImagePullPolicy := ''IfNotPresent'',
       ct_Command := [''cp'', ''/backup-restore-sidecar'', ''/bin-provision''],
       ct_VolumeMounts := [mount ''bin-provision'' ''/bin-provision'']\<rparr>]"

definition redis_volumes :: "volume list" where
  "redis_volumes =
     [vol ''data'' (PersistentVolumeClaim ''data''),
      vol ''backup'' (PersistentVolumeClaim ''backup''),
      vol ''backup-restore-sidecar-config'' (ConfigMapVolume ''backup-restore-sidecar-config-redis''),
      vol ''bin-provision'' EmptyDir]"

definition redis_claims :: "claim_template list" where
  "redis_claims =
     [claim_of ''data'' [''ReadWriteOnce''] ''1Gi'',
      claim_of ''backup'' [''ReadWriteOnce''] ''1Gi'']"

definition RedisSts :: "string \<Rightarrow> stateful_set" where
  "RedisSts namespace =
     \<lparr>ss_Meta = ((a_meta ''redis'' namespace)\<lparr>om_Labels := [(''app'', ''redis'')]\<rparr>),
      ss_ServiceName = ''redis'', ss_Replicas = 1, ss_Selector = [(''app'', ''redis'')], ss_TemplateLabels = [(''app'', ''redis'')],
      ss_PodSpec = \<lparr>ps_HostNetwork = True, ps_Containers = [redis_server, redis_sidecar],
        ps_InitContainers = redis_init_containers, ps_Volumes = redis_volumes\<rparr>,
      ss_Claims = redis_claims\<rparr>"

definition redis_config :: string where \<open>redis_config = text_of
    [''---'',
     ''bind-addr: 0.0.0.0'',
     ''db: redis'',
     ''db-data-directory: /data/'',
     ''backup-provider: local'',
     ''backup-cron-schedule: "*/1 * * * *"'',
     ''object-prefix: redis-test'',
     ''redis-addr: localhost:6379'',
     ''encryption-key: "01234567891234560123456789123456"'',
     ''post-exec-cmds:'',
     ''- redis-server'']\<close>

definition RedisBackingResources :: "string \<Rightarrow> resource list" where
  "RedisBackingResources namespace =
     [ConfigMap (a_meta ''backup-restore-sidecar-config-redis'' namespace) [(''config.yaml'', redis_config)]]"

lemmas redis_example_defs =
  Redis_name_def redisContainerImage_def redis_server_def redis_sidecar_def redis_init_containers_def
  redis_volumes_def redis_claims_def RedisSts_def RedisBackingResources_def

section \<open>\<open>examples/keydb.go\<close>\<close>

definition KeyDB_name :: string where "KeyDB_name = ''keydb''"
definition keyDBContainerImage :: string where "keyDBContainerImage = ''eqalpha/keydb:alpine''"

definition keydb_server :: "container" where
  "keydb_server =
     a_container\<lparr>
     ct_Name := ''keydb'',
     ct_Image := keyDBContainerImage,
     ct_Command := [''backup-restore-sidecar'', ''wait''],
     ct_LivenessProbe := Some ((a_probe (Exec [''keydb-cli'', ''ping'']))
         \<lparr>kp_InitialDelaySeconds := 15, kp_TimeoutSeconds := 1, kp_PeriodSeconds := 5, kp_SuccessThreshold := 1, kp_FailureThreshold := 3\<rparr>),
     ct_ReadinessProbe := Some ((a_probe (Exec [''keydb-cli'', ''ping'']))
         \<lparr>kp_InitialDelaySeconds := 15, kp_TimeoutSeconds := 1, kp_PeriodSeconds := 5, kp_SuccessThreshold := 1, kp_FailureThreshold := 3\<rparr>),
     ct_Ports := [(a_port 6379)\<lparr>cp_Name := ''client'', cp_Protocol := ''TCP''\<rparr>],
     ct_VolumeMounts := [mount ''data'' ''/data'',
                         sub_mount ''bin-provision'' ''backup-restore-sidecar'' ''/usr/local/bin/backup-restore-sidecar'',
                         mount ''backup-restore-sidecar-config'' ''/etc/backup-restore-sidecar'']\<rparr>"

definition keydb_sidecar :: "container" where
  "keydb_sidecar =
     a_container\<lparr>
     ct_Name := ''backup-restore-sidecar'',
     ct_Image := keyDBContainerImage,
     ct_Command := [''backup-restore-sidecar'', ''start'', ''--log-level=debug''],
     ct_Ports := [(a_port 8000)\<lparr>cp_Name := ''grpc''\<rparr>],
     ct_VolumeMounts := [mount ''backup'' SidecarBaseDir,
                         mount ''data'' ''/data'',
                         mount ''backup-restore-sidecar-config'' ''/etc/backup-restore-sidecar'',
                         sub_mount ''bin-provision'' ''backup-restore-sidecar'' ''/usr/local/bin/backup-restore-sidecar'']\<rparr>"

definition keydb_init_containers :: "container list" where
  "keydb_init_containers =
     [a_container\<lparr>
       ct_Name := ''backup-restore-sidecar-provider'',
       ct_Image := backupRestoreSidecarContainerImage,
       ct_ImagePullPolicy := ''IfNotPresent'',
       ct_Command := [''cp'', ''/backup-restore-sidecar'', ''/bin-provision''],
       ct_VolumeMounts := [mount ''bin-provision'' ''/bin-provision'']\<rparr>]"

definition keydb_volumes :: "volume list" where
  "keydb_volumes =
     [vol ''data'' (PersistentVolumeClaim ''data''),
      vol ''backup'' (PersistentVolumeClaim ''backup''),
      vol ''backup-restore-sidecar-config'' (ConfigMapVolume ''backup-restore-sidecar-config-keydb''),
      vol ''bin-provision'' EmptyDir]"

definition keydb_claims :: "claim_template list" where
  "keydb_claims =
     [claim_of ''data'' [''ReadWriteOnce''] ''1Gi'',
      claim_of ''backup'' [''ReadWriteOnce''] ''1Gi'']"

definition KeyDBSts :: "string \<Rightarrow> stateful_set" where
  "KeyDBSts namespace =
     \<lparr>ss_Meta = ((a_meta ''keydb'' namespace)\<lparr>om_Labels := [(''app'', ''keydb'')]\<rparr>),
      ss_ServiceName = ''keydb'', ss_Replicas = 1, ss_Selector = [(''app'', ''keydb'')], ss_TemplateLabels = [(''app'', ''keydb'')],
      ss_PodSpec = \<lparr>ps_HostNetwork = True, ps_Containers = [keydb_server, keydb_sidecar],
        ps_InitContainers = keydb_init_containers, ps_Volumes = keydb_volumes\<rparr>,
      ss_Claims = keydb_claims\<rparr>"

definition keydb_config :: string where \<open>keydb_config = text_of
    [''---'',
     ''bind-addr: 0.0.0.0'',
     ''db: keydb'',
     ''db-data-directory: /data/'',
     ''backup-provider: local'',
     ''backup-cron-schedule: "*/1 * * * *"'',
     ''object-prefix: keydb-test'',
     ''redis-addr: localhost:6379'',
     ''encryption-key: "01234567891234560123456789123456"'',
     ''post-exec-cmds:'',
     ''- keydb-server'']\<close>

definition KeyDBBackingResources :: "string \<Rightarrow> resource list" where
  "KeyDBBackingResources namespace =
     [ConfigMap (a_meta ''backup-restore-sidecar-config-keydb'' namespace) [(''config.yaml'', keydb_config)]]"

lemmas keydb_example_defs =
  KeyDB_name_def keyDBContainerImage_def keydb_server_def keydb_sidecar_def keydb_init_containers_def
  keydb_volumes_def keydb_claims_def KeyDBSts_def KeyDBBackingResources_def

section \<open>\<open>examples/valkey.go\<close>\<close>

definition Valkey_name :: string where "Valkey_name = ''valkey''"
definition valkeyContainerImage :: string where "valkeyContainerImage = ''ghcr.io/valkey-io/valkey:8.1-alpine''"

definition valkey_server :: "container" where
  "valkey_server =
     a_container\<lparr>
     ct_Name := ''valkey'',
     ct_Image := valkeyContainerImage,
     ct_ImagePullPolicy := ''IfNotPresent'',
     ct_Command := [''backup-restore-sidecar'', ''wait''],
     ct_LivenessProbe := Some ((a_probe (Exec [''valkey-cli'', ''ping'']))
         \<lparr>kp_InitialDelaySeconds := 15, kp_TimeoutSeconds := 1, kp_PeriodSeconds := 5, kp_SuccessThreshold := 1, kp_FailureThreshold := 3\<rparr>),
     ct_ReadinessProbe := Some ((a_probe (Exec [''valkey-cli'', ''ping'']))
         \<lparr>kp_InitialDelaySeconds := 15, kp_TimeoutSeconds := 1, kp_PeriodSeconds := 5, kp_SuccessThreshold := 1, kp_FailureThreshold := 3\<rparr>),
     ct_Ports := [(a_port 6379)\<lparr>cp_Name := ''client'', cp_Protocol := ''TCP''\<rparr>],
     ct_VolumeMounts := [mount ''data'' ''/data'',
                         sub_mount ''bin-provision'' ''backup-restore-sidecar'' ''/usr/local/bin/backup-restore-sidecar'',
                         mount ''backup-restore-sidecar-config'' ''/etc/backup-restore-sidecar'']\<rparr>"

definition valkey_sidecar :: "container" where
  "valkey_sidecar =
     a_container\<lparr>
     ct_Name := ''backup-restore-sidecar'',
     ct_Image := valkeyContainerImage,
     ct_ImagePullPolicy := ''IfNotPresent'',
     ct_Command := [''backup-restore-sidecar'', ''start'', ''--log-level=debug''],
     ct_Ports := [(a_port 8000)\<lparr>cp_Name := ''grpc''\<rparr>],
     ct_VolumeMounts := [mount ''backup'' SidecarBaseDir,
                         mount ''data'' ''/data'',
                         mount ''backup-restore-sidecar-config'' ''/etc/backup-restore-sidecar'',
                         sub_mount ''bin-provision'' ''backup-restore-sidecar'' ''/usr/local/bin/backup-restore-sidecar'']\<rparr>"

definition valkey_init_containers :: "container list" where
  "valkey_init_containers =
     [a_container\<lparr>
       ct_Name := ''backup-restore-sidecar-provider'',
       ct_Image := backupRestoreSidecarContainerImage,
       ct_ImagePullPolicy := ''IfNotPresent'',
       ct_Command := [''cp'', ''/backup-restore-sidecar'', ''/bin-provision''],
       ct_VolumeMounts := [mount ''bin-provision'' ''/bin-provision'']\<rparr>]"

definition valkey_volumes :: "volume list" where
  "valkey_volumes =
     [vol ''data'' (PersistentVolumeClaim ''data''),
      vol ''backup'' (PersistentVolumeClaim ''backup''),
      vol ''backup-restore-sidecar-config'' (ConfigMapVolume ''backup-restore-sidecar-config-valkey''),
      vol ''bin-provision'' EmptyDir]"

definition valkey_claims :: "claim_template list" where
  "valkey_claims =
     [claim_of ''data'' [''ReadWriteOnce''] ''1Gi'',
      claim_of ''backup'' [''ReadWriteOnce''] ''1Gi'']"

definition ValkeySts :: "string \<Rightarrow> stateful_set" where
  "ValkeySts namespace =
     \<lparr>ss_Meta = ((a_meta ''valkey'' namespace)\<lparr>om_Labels := [(''app'', ''valkey'')]\<rparr>),
      ss_ServiceName = ''valkey'', ss_Replicas = 1, ss_Selector = [(''app'', ''valkey'')], ss_TemplateLabels = [(''app'', ''valkey'')],
      ss_PodSpec = \<lparr>ps_HostNetwork = True, ps_Containers = [valkey_server, valkey_sidecar],
        ps_InitContainers = valkey_init_containers, ps_Volumes = valkey_volumes\<rparr>,
      ss_Claims = valkey_claims\<rparr>"

definition valkey_config :: string where \<open>valkey_config = text_of
    [''---'',
     ''bind-addr: 0.0.0.0'',
     ''db: valkey'',
     ''db-data-directory: /data/'',
     ''backup-provider: local'',
     ''backup-cron-schedule: "*/1 * * * *"'',
     ''object-prefix: valkey-test'',
     ''redis-addr: localhost:6379'',
     ''encryption-key: "01234567891234560123456789123456"'',
     ''post-exec-cmds:'',
     ''- valkey-server'']\<close>

definition ValkeyBackingResources :: "string \<Rightarrow> resource list" where
  "ValkeyBackingResources namespace =
     [ConfigMap (a_meta ''backup-restore-sidecar-config-valkey'' namespace) [(''config.yaml'', valkey_config)]]"

lemmas valkey_example_defs =
  Valkey_name_def valkeyContainerImage_def valkey_server_def valkey_sidecar_def valkey_init_containers_def
  valkey_volumes_def valkey_claims_def ValkeySts_def ValkeyBackingResources_def

section \<open>\<open>examples/localfs.go\<close>\<close>

definition Localfs_name :: string where "Localfs_name = ''localfs''"
definition LocalfsContainerImage :: string where "LocalfsContainerImage = ''alpine:3.22''"

definition localfs_server :: "container" where
  "localfs_server =
     a_container\<lparr>
     ct_Name := ''localfs'',
     ct_Image := LocalfsContainerImage,
     ct_Command := [''backup-restore-sidecar'', ''wait''],
     ct_VolumeMounts := [mount ''data'' ''/data'',
                         sub_mount ''bin-provision'' ''backup-restore-sidecar'' ''/usr/local/bin/backup-restore-sidecar'',
                         mount ''backup-restore-sidecar-config'' ''/etc/backup-restore-sidecar'']\<rparr>"

definition localfs_sidecar :: "container" where
  "localfs_sidecar =
     a_container\<lparr>
     ct_Name := ''backup-restore-sidecar'',
     ct_Image := LocalfsContainerImage,
     ct_Command := [''backup-restore-sidecar'', ''start'', ''--log-level=debug''],
     ct_Ports := [(a_port 8000)\<lparr>cp_Name := ''grpc''\<rparr>],
     ct_VolumeMounts := [mount ''backup'' SidecarBaseDir,
                         mount ''data'' ''/data'',
                         mount ''backup-restore-sidecar-config'' ''/etc/backup-restore-sidecar'',
                         sub_mount ''bin-provision'' ''backup-restore-sidecar'' ''/usr/local/bin/backup-restore-sidecar'']\<rparr>"

definition localfs_init_containers :: "container list" where
  "localfs_init_containers =
     [a_container\<lparr>
       ct_Name := ''backup-restore-sidecar-provider'',
       ct_Image := backupRestoreSidecarContainerImage,
       ct_ImagePullPolicy := ''IfNotPresent'',
       ct_Command := [''cp'', ''/backup-restore-sidecar'', ''/bin-provision''],
       ct_VolumeMounts := [mount ''bin-provision'' ''/bin-provision'']\<rparr>]"

definition localfs_volumes :: "volume list" where
  "localfs_volumes =
     [vol ''data'' (PersistentVolumeClaim ''data''),
      vol ''backup'' (PersistentVolumeClaim ''backup''),
      vol ''backup-restore-sidecar-config'' (ConfigMapVolume ''backup-restore-sidecar-config-localfs''),
      vol ''bin-provision'' EmptyDir]"

definition localfs_claims :: "claim_template list" where
  "localfs_claims =
     [claim_of ''data'' [''ReadWriteOnce''] ''1Gi'',
      claim_of ''backup'' [''ReadWriteOnce''] ''1Gi'']"

definition LocalfsSts :: "string \<Rightarrow> stateful_set" where
  "LocalfsSts namespace =
     \<lparr>ss_Meta = ((a_meta ''localfs'' namespace)\<lparr>om_Labels := [(''app'', ''localfs'')]\<rparr>),
      ss_ServiceName = ''localfs'', ss_Replicas = 1, ss_Selector = [(''app'', ''localfs'')], ss_TemplateLabels = [(''app'', ''localfs'')],
      ss_PodSpec = \<lparr>ps_HostNetwork = True, ps_Containers = [localfs_server, localfs_sidecar],
        ps_InitContainers = localfs_init_containers, ps_Volumes = localfs_volumes\<rparr>,
      ss_Claims = localfs_claims\<rparr>"

definition localfs_config :: string where \<open>localfs_config = text_of
    [''---'',
     ''bind-addr: 0.0.0.0'',
     ''db: localfs'',
     ''db-data-directory: /data/'',
     ''backup-provider: local'',
     ''backup-cron-schedule: "*/1 * * * *"'',
     ''object-prefix: localfs-test'',
     ''redis-addr: localhost:6379'',
     ''encryption-key: "01234567891234560123456789123456"'',
     ''post-exec-cmds:'',
     ''- tail -f /etc/hosts'']\<close>

definition LocalfsBackingResources :: "string \<Rightarrow> resource list" where
  "LocalfsBackingResources namespace =
     [ConfigMap (a_meta ''backup-restore-sidecar-config-localfs'' namespace) [(''config.yaml'', localfs_config)]]"

lemmas localfs_example_defs =
  Localfs_name_def LocalfsContainerImage_def localfs_server_def localfs_sidecar_def localfs_init_containers_def
  localfs_volumes_def localfs_claims_def LocalfsSts_def LocalfsBackingResources_def

section \<open>\<open>dump.go\<close>\<close>

definition local_examples :: "local_example list" where
  "local_examples =
     [\<lparr>le_db = Etcd_name, le_sts = EtcdSts, le_backing = EtcdBackingResources\<rparr>,
      \<lparr>le_db = Postgres_name, le_sts = PostgresSts, le_backing = PostgresBackingResources\<rparr>,
      \<lparr>le_db = RethinkDB_name, le_sts = RethinkDbSts, le_backing = RethinkDbBackingResources\<rparr>,
      \<lparr>le_db = Redis_name, le_sts = RedisSts, le_backing = RedisBackingResources\<rparr>,
      \<lparr>le_db = KeyDB_name, le_sts = KeyDBSts, le_backing = KeyDBBackingResources\<rparr>,
      \<lparr>le_db = Valkey_name, le_sts = ValkeySts, le_backing = ValkeyBackingResources\<rparr>,
      \<lparr>le_db = Localfs_name, le_sts = LocalfsSts, le_backing = LocalfsBackingResources\<rparr>]"

text \<open>The function \<open>main\<close> of the generator; an error of an example is a panic.\<close>

definition dump_main :: "(resource \<Rightarrow> err + byte list) \<Rightarrow> string \<Rightarrow> (('x, 'm) world_scheme, unit) go" where
  "dump_main marshal filename = each (dump_example marshal filename) local_examples"

lemmas example_defs = etcd_example_defs postgres_example_defs rethinkdb_example_defs redis_example_defs
  keydb_example_defs valkey_example_defs localfs_example_defs backupRestoreSidecarContainerImage_def

end
