(* ===== verification/Deployments.thy ===== *)
theory Deployments
  imports Examples Configuration
begin

text \<open>
  What makes the example deployments right: each is complete in itself, its configuration starts a sidecar,
  and the files that \<open>dump.go\<close> writes hold it.
\<close>

section \<open>Complete deployments\<close>

text \<open>A key of a secret that is among the objects of a namespace.\<close>

fun is_secret_key :: "string \<Rightarrow> string \<Rightarrow> string \<Rightarrow> resource \<Rightarrow> bool" where
  "is_secret_key ns n k (Secret m d) \<longleftrightarrow> om_Name m = n \<and> om_Namespace m = ns \<and> k \<in> set (map fst d)"
| "is_secret_key ns n k _ \<longleftrightarrow> False"

fun is_config_map :: "string \<Rightarrow> string \<Rightarrow> resource \<Rightarrow> bool" where
  "is_config_map ns n (ConfigMap m d) \<longleftrightarrow> om_Name m = n \<and> om_Namespace m = ns"
| "is_config_map ns n _ \<longleftrightarrow> False"

text \<open>The source of a volume exists.\<close>

fun source_ok :: "string \<Rightarrow> stateful_set \<Rightarrow> resource list \<Rightarrow> volume_source \<Rightarrow> bool" where
  "source_ok ns s rs (PersistentVolumeClaim c) \<longleftrightarrow> c \<in> set (map pc_Name (ss_Claims s))"
| "source_ok ns s rs (ConfigMapVolume n) \<longleftrightarrow> list_ex (is_config_map ns n) rs"
| "source_ok ns s rs (SecretVolume n items) \<longleftrightarrow> list_all (\<lambda>(k, p). list_ex (is_secret_key ns n k) rs) items"
| "source_ok ns s rs EmptyDir \<longleftrightarrow> True"

definition port_ok :: "int32 \<Rightarrow> bool" where
  "port_ok p \<longleftrightarrow> 0 < p \<and> p \<le> 65535"

text \<open>A container mounts declared volumes at different places, and its environment refers to keys that exist.\<close>

definition container_ok :: "string \<Rightarrow> stateful_set \<Rightarrow> resource list \<Rightarrow> container \<Rightarrow> bool" where
  "container_ok ns s rs c \<longleftrightarrow>
     list_all (\<lambda>m. vm_Name m \<in> set (map vol_Name (ps_Volumes (ss_PodSpec s)))) (ct_VolumeMounts c) \<and>
     distinct (map vm_MountPath (ct_VolumeMounts c)) \<and>
     list_all (\<lambda>v. list_ex (is_secret_key ns (ev_SecretName v) (ev_Key v)) rs) (ct_Env c) \<and>
     distinct (map ev_Name (ct_Env c)) \<and>
     list_all (\<lambda>p. port_ok (cp_ContainerPort p)) (ct_Ports c)"

text \<open>An init container that copies files to a volume: the names it provides there.\<close>

definition provides :: "container \<Rightarrow> (string \<times> string) list" where
  "provides c =
     (case ct_Command c of
        [] \<Rightarrow> []
      | cmd # args \<Rightarrow>
          if cmd \<noteq> ''cp'' \<or> args = [] then []
          else [(vm_Name m, filepath_Base src). m \<leftarrow> ct_VolumeMounts c, vm_MountPath m = last args, src \<leftarrow> butlast args])"

text \<open>Every file mounted from a volume that starts empty was provided, and the program of the container is one
  of them.\<close>

definition program_ok :: "pod_spec \<Rightarrow> container \<Rightarrow> bool" where
  "program_ok p c \<longleftrightarrow>
     list_all (\<lambda>m. vm_SubPath m = '''' \<or> (vm_Name m, vm_SubPath m) \<in> set (concat (map provides (ps_InitContainers p))))
       (ct_VolumeMounts c) \<and>
     list_ex (\<lambda>m. vm_MountPath m = ''/usr/local/bin/'' @ hd (ct_Command c) \<and> vm_SubPath m = hd (ct_Command c))
       (ct_VolumeMounts c)"

text \<open>The ports that something in the pod listens on: those that its containers declare, and the port of the
  metrics (\<open>metrics_serve\<close>).\<close>

definition served_ports :: "stateful_set \<Rightarrow> int32 list" where
  "served_ports s = 2112 # map cp_ContainerPort (concat (map ct_Ports (ps_Containers (ss_PodSpec s))))"

text \<open>The target ports of a service on which nothing listens.\<close>

fun dangling :: "stateful_set \<Rightarrow> resource \<Rightarrow> int32 list" where
  "dangling s (Service m sel ps) = filter (\<lambda>p. p \<notin> set (served_ports s)) (map sp_TargetPort ps)"
| "dangling s _ = []"

fun object_ok :: "stateful_set \<Rightarrow> resource \<Rightarrow> bool" where
  "object_ok s (Service m sel ps) \<longleftrightarrow> sel \<noteq> [] \<and> set sel \<subseteq> set (ss_TemplateLabels s) \<and> distinct (map sp_Name ps) \<and>
     distinct (map sp_Port ps) \<and> list_all (\<lambda>p. port_ok (sp_Port p) \<and> port_ok (sp_TargetPort p)) ps"
| "object_ok s (ConfigMap m d) \<longleftrightarrow> distinct (map fst d)"
| "object_ok s (Secret m d) \<longleftrightarrow> distinct (map fst d)"
| "object_ok s (StatefulSet t) \<longleftrightarrow> False"

definition complete :: "string \<Rightarrow> stateful_set \<Rightarrow> resource list \<Rightarrow> bool" where
  "complete ns s rs \<longleftrightarrow>
     (let p = ss_PodSpec s; cs = ps_Containers p; is = ps_InitContainers p in
      list_all (\<lambda>r. om_Namespace (obj_meta r) = ns \<and> om_Name (obj_meta r) \<noteq> '''') (StatefulSet s # rs) \<and>
      distinct (map (\<lambda>r. (TypeMeta r, om_Name (obj_meta r))) (StatefulSet s # rs)) \<and>
      ss_Selector s \<noteq> [] \<and> set (ss_Selector s) \<subseteq> set (ss_TemplateLabels s) \<and>
      distinct (map pc_Name (ss_Claims s)) \<and>
      distinct (map vol_Name (ps_Volumes p)) \<and> list_all (\<lambda>v. source_ok ns s rs (vol_Source v)) (ps_Volumes p) \<and>
      distinct (map ct_Name (is @ cs)) \<and> list_all (container_ok ns s rs) (is @ cs) \<and> list_all (program_ok p) cs \<and>
      distinct (map cp_ContainerPort (concat (map ct_Ports cs))) \<and>
      list_all (object_ok s) rs)"

lemmas complete_defs = complete_def container_ok_def program_ok_def provides_def port_ok_def literal_defs Let_def

lemma complete_examples:
  "complete ns (EtcdSts ns) (EtcdBackingResources ns)"
  "complete ns (PostgresSts ns) (PostgresBackingResources ns)"
  "complete ns (RethinkDbSts ns) (RethinkDbBackingResources ns)"
  "complete ns (RedisSts ns) (RedisBackingResources ns)"
  "complete ns (KeyDBSts ns) (KeyDBBackingResources ns)"
  "complete ns (ValkeySts ns) (ValkeyBackingResources ns)"
  "complete ns (LocalfsSts ns) (LocalfsBackingResources ns)"
  by (simp_all add: complete_defs example_defs filepath_Base_def SidecarBaseDir_def)

lemma dangling_examples:
  "concat (map (dangling (EtcdSts ns)) (EtcdBackingResources ns)) = []"
  "concat (map (dangling (PostgresSts ns)) (PostgresBackingResources ns)) = []"
  "concat (map (dangling (RethinkDbSts ns)) (RethinkDbBackingResources ns)) = [10080]"
  "concat (map (dangling (RedisSts ns)) (RedisBackingResources ns)) = []"
  "concat (map (dangling (KeyDBSts ns)) (KeyDBBackingResources ns)) = []"
  "concat (map (dangling (ValkeySts ns)) (ValkeyBackingResources ns)) = []"
  "concat (map (dangling (LocalfsSts ns)) (LocalfsBackingResources ns)) = []"
  by (simp_all add: served_ports_def complete_defs example_defs)

text \<open>Every example deployment is complete, in whatever namespace it is made: volumes, claims, config maps, secrets,
  programs and selectors refer to what is there.  So do the target ports of the services, but for the port 10080 of
  the rethinkdb example, on which nothing listens.\<close>

theorem examples_complete: "list_all (\<lambda>e. complete ns (le_sts e ns) (le_backing e ns) \<and>
    concat (map (dangling (le_sts e ns)) (le_backing e ns)) = (if le_db e = ''rethinkdb'' then [10080] else [])) local_examples"
proof -
  have n: "Etcd_name \<noteq> ''rethinkdb''" "Postgres_name \<noteq> ''rethinkdb''" "RethinkDB_name = ''rethinkdb''" "Redis_name \<noteq> ''rethinkdb''"
    "KeyDB_name \<noteq> ''rethinkdb''" "Valkey_name \<noteq> ''rethinkdb''" "Localfs_name \<noteq> ''rethinkdb''"
    by code_simp+
  show ?thesis by (simp add: local_examples_def complete_examples dangling_examples n)
qed

section \<open>What a container is started with\<close>

text \<open>The flags on its command line.\<close>

definition given_flags :: "string list \<Rightarrow> (string \<times> string) list" where
  "given_flags args =
     [(takeWhile (\<lambda>c. c \<noteq> CHR ''='') (drop 2 a), drop 1 (dropWhile (\<lambda>c. c \<noteq> CHR ''='') a)). a \<leftarrow> args, prefix ''--'' a]"

text \<open>Its environment, as far as the manifest sets it.\<close>

fun secret_value :: "string \<Rightarrow> string \<Rightarrow> string \<Rightarrow> resource list \<Rightarrow> string" where
  "secret_value ns n k [] = ''''"
| "secret_value ns n k (Secret m d # rs) =
     (if om_Name m = n \<and> om_Namespace m = ns then (case map_of d k of Some s \<Rightarrow> s | None \<Rightarrow> '''') else secret_value ns n k rs)"
| "secret_value ns n k (_ # rs) = secret_value ns n k rs"

definition container_env :: "string \<Rightarrow> resource list \<Rightarrow> container \<Rightarrow> string \<Rightarrow> string" where
  "container_env ns rs c x =
     (case find (\<lambda>v. ev_Name v = x) (ct_Env c) of
        None \<Rightarrow> ''''
      | Some v \<Rightarrow> secret_value ns (ev_SecretName v) (ev_Key v) rs)"

text \<open>A file below a directory where a config map is mounted.\<close>

fun config_entry :: "string \<Rightarrow> string \<Rightarrow> string \<Rightarrow> resource list \<Rightarrow> string option" where
  "config_entry ns n f [] = None"
| "config_entry ns n f (ConfigMap m d # rs) =
     (if om_Name m = n \<and> om_Namespace m = ns then map_of d f else config_entry ns n f rs)"
| "config_entry ns n f (_ # rs) = config_entry ns n f rs"

definition mounted_config :: "string \<Rightarrow> stateful_set \<Rightarrow> resource list \<Rightarrow> container \<Rightarrow> string \<Rightarrow> string \<Rightarrow> string option" where
  "mounted_config ns s rs c dir f =
     (case find (\<lambda>m. vm_MountPath m = dir) (ct_VolumeMounts c) of
        None \<Rightarrow> None
      | Some m \<Rightarrow> (case find (\<lambda>v. vol_Name v = vm_Name m) (ps_Volumes (ss_PodSpec s)) of
          None \<Rightarrow> None
        | Some v \<Rightarrow> (case vol_Source v of ConfigMapVolume n \<Rightarrow> config_entry ns n f rs | _ \<Rightarrow> None)))"

text \<open>The part of YAML that the configuration files are written in: a line is a key and a scalar, which may be
  quoted, or a key that the lines with dashes below it belong to; other lines are comments or marks.\<close>

fun cut_colon :: "string \<Rightarrow> (string \<times> string) option" where
  "cut_colon [] = None"
| "cut_colon (c # cs) =
     (if c = CHR '':'' \<and> (cs = [] \<or> hd cs = CHR '' '') then Some ([], drop 1 cs)
      else map_option (\<lambda>(k, v). (c # k, v)) (cut_colon cs))"

definition unquoted :: "string \<Rightarrow> string" where
  "unquoted v = (if length v \<ge> 2 \<and> hd v = CHR 0x22 \<and> last v = CHR 0x22 then butlast (tl v) else v)"

definition is_entry :: "string \<Rightarrow> bool" where
  "is_entry l \<longleftrightarrow> l \<noteq> [] \<and> hd l \<noteq> CHR ''-'' \<and> hd l \<noteq> CHR ''#''"

definition scalars :: "string \<Rightarrow> (string \<times> string) list" where
  "scalars text = [(k, unquoted v). l \<leftarrow> split_on newline text, is_entry l, (k, v) \<leftarrow> (case cut_colon l of None \<Rightarrow> [] | Some e \<Rightarrow> [e]), v \<noteq> '''']"

fun slices_of :: "string \<Rightarrow> string list \<Rightarrow> (string \<times> string) list" where
  "slices_of k [] = []"
| "slices_of k (l # ls) =
     (if prefix ''- '' l then (k, drop 2 l) # slices_of k ls
      else if is_entry l then slices_of (case cut_colon l of None \<Rightarrow> '''' | Some (n, _) \<Rightarrow> n) ls
      else slices_of k ls)"

definition slices :: "string \<Rightarrow> (string \<times> string list) list" where
  "slices text = (let es = slices_of '''' (split_on newline text) in
     map (\<lambda>k. (k, map snd (filter (\<lambda>e. fst e = k) es))) (remdups (map fst es)))"

lemma configs_read:
  "scalars etcd_config = [(''bind-addr'', ''0.0.0.0''), (''db'', ''etcd''), (''db-data-directory'', ''/data/etcd/''),
     (''backup-provider'', ''local''), (''backup-cron-schedule'', ''*/1 * * * *''), (''object-prefix'', ''etcd-test''),
     (''etcd-endpoints'', ''http://localhost:32379''), (''encryption-key'', ''01234567891234560123456789123456'')]"
  "scalars postgres_config = [(''bind-addr'', ''0.0.0.0''), (''db'', ''postgres''), (''db-data-directory'', ''/data/postgres/''),
     (''backup-provider'', ''local''), (''backup-cron-schedule'', ''*/1 * * * *''), (''object-prefix'', ''postgres-test''),
     (''compression-method'', ''tar''), (''encryption-key'', ''01234567891234560123456789123456'')]"
  "scalars rethinkdb_config = [(''bind-addr'', ''0.0.0.0''), (''db'', ''rethinkdb''), (''db-data-directory'', ''/data/rethinkdb/''),
     (''backup-provider'', ''local''), (''rethinkdb-passwordfile'', ''/rethinkdb-secret/rethinkdb-password.txt''), (''backup-cron-schedule'', ''*/1 * * * *''),
     (''object-prefix'', ''rethinkdb-test''), (''encryption-key'', ''01234567891234560123456789123456'')]"
  "scalars redis_config = [(''bind-addr'', ''0.0.0.0''), (''db'', ''redis''), (''db-data-directory'', ''/data/''),
     (''backup-provider'', ''local''), (''backup-cron-schedule'', ''*/1 * * * *''), (''object-prefix'', ''redis-test''),
     (''redis-addr'', ''localhost:6379''), (''encryption-key'', ''01234567891234560123456789123456'')]"
  "scalars keydb_config = [(''bind-addr'', ''0.0.0.0''), (''db'', ''keydb''), (''db-data-directory'', ''/data/''),
     (''backup-provider'', ''local''), (''backup-cron-schedule'', ''*/1 * * * *''), (''object-prefix'', ''keydb-test''),
     (''redis-addr'', ''localhost:6379''), (''encryption-key'', ''01234567891234560123456789123456'')]"
  "scalars valkey_config = [(''bind-addr'', ''0.0.0.0''), (''db'', ''valkey''), (''db-data-directory'', ''/data/''),
     (''backup-provider'', ''local''), (''backup-cron-schedule'', ''*/1 * * * *''), (''object-prefix'', ''valkey-test''),
     (''redis-addr'', ''localhost:6379''), (''encryption-key'', ''01234567891234560123456789123456'')]"
  "scalars localfs_config = [(''bind-addr'', ''0.0.0.0''), (''db'', ''localfs''), (''db-data-directory'', ''/data/''),
     (''backup-provider'', ''local''), (''backup-cron-schedule'', ''*/1 * * * *''), (''object-prefix'', ''localfs-test''),
     (''redis-addr'', ''localhost:6379''), (''encryption-key'', ''01234567891234560123456789123456'')]"
  "slices etcd_config = [(''post-exec-cmds'', [''etcd --data-dir=/data/etcd --listen-client-urls http://0.0.0.0:32379 --advertise-client-urls http://0.0.0.0:32379 --listen-peer-urls http://0.0.0.0:32380 --initial-advertise-peer-urls http://0.0.0.0:32380 --initial-cluster default=http://0.0.0.0:32380 --listen-metrics-urls http://0.0.0.0:32381''])]"
  "slices postgres_config = [(''post-exec-cmds'', [''docker-entrypoint.sh postgres''])]"
  "slices rethinkdb_config = [(''post-exec-cmds'', [''rethinkdb --bind all --directory /data/rethinkdb --initial-password ${RETHINKDB_PASSWORD}''])]"
  "slices redis_config = [(''post-exec-cmds'', [''redis-server''])]"
  "slices keydb_config = [(''post-exec-cmds'', [''keydb-server''])]"
  "slices valkey_config = [(''post-exec-cmds'', [''valkey-server''])]"
  "slices localfs_config = [(''post-exec-cmds'', [''tail -f /etc/hosts''])]"
  by code_simp+

section \<open>The sidecar of every example starts\<close>

text \<open>The first directory where \<open>initConfig\<close> looks for the file \<open>config.yaml\<close>.\<close>

definition config_dir :: string where "config_dir = ''/etc/'' @ moduleName"

definition started_with :: "string \<Rightarrow> local_example \<Rightarrow> container \<Rightarrow> viper \<Rightarrow> bool" where
  "started_with ns e c v \<longleftrightarrow>
     (case mounted_config ns (le_sts e ns) (le_backing e ns) c config_dir ''config.yaml'' of
        None \<Rightarrow> False
      | Some text \<Rightarrow> merged (given_flags (ct_Command c)) (container_env ns (le_backing e ns) c) (scalars text) (slices text) v)"

text \<open>The containers that run a command of the program.\<close>

definition runs_command :: "string \<Rightarrow> local_example \<Rightarrow> string \<Rightarrow> container list" where
  "runs_command cmd e ns = filter (\<lambda>c. take 2 (ct_Command c) = [moduleName, cmd]) (ps_Containers (ss_PodSpec (le_sts e ns)))"

text \<open>The volume that a path lies on: exactly one mount is above it.\<close>

definition on_volume :: "container \<Rightarrow> string \<Rightarrow> string \<Rightarrow> bool" where
  "on_volume c n p \<longleftrightarrow>
     map vm_Name (filter (\<lambda>m. prefix (resolve (vm_MountPath m)) (resolve p)) (ct_VolumeMounts c)) = [n]"

definition sidecar_env :: "string \<Rightarrow> string \<Rightarrow> string" where
  "sidecar_env db x =
     (if db = ''postgres'' \<and> x = ''BACKUP_RESTORE_SIDECAR_POSTGRES_PASSWORD'' then ''test123!''
      else if db = ''postgres'' \<and> x = ''BACKUP_RESTORE_SIDECAR_POSTGRES_USER'' then ''postgres'' else '''')"

lemmas part_defs = literal_defs example_defs config_dir_def moduleName_def SidecarBaseDir_def

lemma mounted_examples:
  "mounted_config ns (EtcdSts ns) (EtcdBackingResources ns) etcd_sidecar config_dir ''config.yaml'' = Some etcd_config"
  "mounted_config ns (EtcdSts ns) (EtcdBackingResources ns) etcd_server config_dir ''config.yaml'' = Some etcd_config"
  "mounted_config ns (PostgresSts ns) (PostgresBackingResources ns) postgres_sidecar config_dir ''config.yaml'' = Some postgres_config"
  "mounted_config ns (PostgresSts ns) (PostgresBackingResources ns) postgres_server config_dir ''config.yaml'' = Some postgres_config"
  "mounted_config ns (RethinkDbSts ns) (RethinkDbBackingResources ns) rethinkdb_sidecar config_dir ''config.yaml'' = Some rethinkdb_config"
  "mounted_config ns (RethinkDbSts ns) (RethinkDbBackingResources ns) rethinkdb_server config_dir ''config.yaml'' = Some rethinkdb_config"
  "mounted_config ns (RedisSts ns) (RedisBackingResources ns) redis_sidecar config_dir ''config.yaml'' = Some redis_config"
  "mounted_config ns (RedisSts ns) (RedisBackingResources ns) redis_server config_dir ''config.yaml'' = Some redis_config"
  "mounted_config ns (KeyDBSts ns) (KeyDBBackingResources ns) keydb_sidecar config_dir ''config.yaml'' = Some keydb_config"
  "mounted_config ns (KeyDBSts ns) (KeyDBBackingResources ns) keydb_server config_dir ''config.yaml'' = Some keydb_config"
  "mounted_config ns (ValkeySts ns) (ValkeyBackingResources ns) valkey_sidecar config_dir ''config.yaml'' = Some valkey_config"
  "mounted_config ns (ValkeySts ns) (ValkeyBackingResources ns) valkey_server config_dir ''config.yaml'' = Some valkey_config"
  "mounted_config ns (LocalfsSts ns) (LocalfsBackingResources ns) localfs_sidecar config_dir ''config.yaml'' = Some localfs_config"
  "mounted_config ns (LocalfsSts ns) (LocalfsBackingResources ns) localfs_server config_dir ''config.yaml'' = Some localfs_config"
  by (simp_all add: mounted_config_def part_defs)

lemma env_examples:
  "container_env ns (EtcdBackingResources ns) etcd_sidecar = sidecar_env ''etcd''"
  "container_env ns (PostgresBackingResources ns) postgres_sidecar = sidecar_env ''postgres''"
  "container_env ns (RethinkDbBackingResources ns) rethinkdb_sidecar = sidecar_env ''rethinkdb''"
  "container_env ns (RedisBackingResources ns) redis_sidecar = sidecar_env ''redis''"
  "container_env ns (KeyDBBackingResources ns) keydb_sidecar = sidecar_env ''keydb''"
  "container_env ns (ValkeyBackingResources ns) valkey_sidecar = sidecar_env ''valkey''"
  "container_env ns (LocalfsBackingResources ns) localfs_sidecar = sidecar_env ''localfs''"
  by (auto simp: fun_eq_iff container_env_def sidecar_env_def part_defs)

lemma flags_examples:
  "given_flags (ct_Command etcd_sidecar) = [(''log-level'', ''debug'')]"
  "given_flags (ct_Command postgres_sidecar) = [(''log-level'', ''debug'')]"
  "given_flags (ct_Command rethinkdb_sidecar) = [(''log-level'', ''debug'')]"
  "given_flags (ct_Command redis_sidecar) = [(''log-level'', ''debug'')]"
  "given_flags (ct_Command keydb_sidecar) = [(''log-level'', ''debug'')]"
  "given_flags (ct_Command valkey_sidecar) = [(''log-level'', ''debug'')]"
  "given_flags (ct_Command localfs_sidecar) = [(''log-level'', ''debug'')]"
  by (simp_all add: given_flags_def part_defs)

lemma started_examples:
  "started_with ns \<lparr>le_db = n, le_sts = EtcdSts, le_backing = EtcdBackingResources\<rparr> etcd_sidecar v \<longleftrightarrow>
     merged [(''log-level'', ''debug'')] (sidecar_env ''etcd'') (scalars etcd_config) (slices etcd_config) v"
  "started_with ns \<lparr>le_db = n, le_sts = PostgresSts, le_backing = PostgresBackingResources\<rparr> postgres_sidecar v \<longleftrightarrow>
     merged [(''log-level'', ''debug'')] (sidecar_env ''postgres'') (scalars postgres_config) (slices postgres_config) v"
  "started_with ns \<lparr>le_db = n, le_sts = RethinkDbSts, le_backing = RethinkDbBackingResources\<rparr> rethinkdb_sidecar v \<longleftrightarrow>
     merged [(''log-level'', ''debug'')] (sidecar_env ''rethinkdb'') (scalars rethinkdb_config) (slices rethinkdb_config) v"
  "started_with ns \<lparr>le_db = n, le_sts = RedisSts, le_backing = RedisBackingResources\<rparr> redis_sidecar v \<longleftrightarrow>
     merged [(''log-level'', ''debug'')] (sidecar_env ''redis'') (scalars redis_config) (slices redis_config) v"
  "started_with ns \<lparr>le_db = n, le_sts = KeyDBSts, le_backing = KeyDBBackingResources\<rparr> keydb_sidecar v \<longleftrightarrow>
     merged [(''log-level'', ''debug'')] (sidecar_env ''keydb'') (scalars keydb_config) (slices keydb_config) v"
  "started_with ns \<lparr>le_db = n, le_sts = ValkeySts, le_backing = ValkeyBackingResources\<rparr> valkey_sidecar v \<longleftrightarrow>
     merged [(''log-level'', ''debug'')] (sidecar_env ''valkey'') (scalars valkey_config) (slices valkey_config) v"
  "started_with ns \<lparr>le_db = n, le_sts = LocalfsSts, le_backing = LocalfsBackingResources\<rparr> localfs_sidecar v \<longleftrightarrow>
     merged [(''log-level'', ''debug'')] (sidecar_env ''localfs'') (scalars localfs_config) (slices localfs_config) v"
  by (simp_all only: started_with_def local_example.select_convs mounted_examples env_examples flags_examples option.case)

text \<open>What the configuration yields for each key that the sidecar of an example asks for.\<close>

lemma merged_string:
  assumes "merged args g sc sl v"
  shows "GetString v k = (case map_of args k of Some s \<Rightarrow> s | None \<Rightarrow>
     if g (env_name k) \<noteq> '''' then g (env_name k)
     else (case map_of sc k of Some s \<Rightarrow> s | None \<Rightarrow> default_string k))"
  using assms unfolding merged_def by blast

lemma merged_ints:
  assumes "merged args g sc sl v" "map_of args k = None" "g (env_name k) = ''''" "map_of sc k = None"
  shows "GetInt v k = default_int k" "GetInt64 v k = word_of_int (default_int k)"
  using assms unfolding merged_def by blast+

lemma merged_set:
  assumes "merged args g sc sl v"
  shows "IsSet v k \<longleftrightarrow> map_of args k \<noteq> None \<or> g (env_name k) \<noteq> '''' \<or> map_of sc k \<noteq> None \<or> map_of sl k \<noteq> None"
  using assms unfolding merged_def by blast

lemma postgres_env_names:
  "env_name postgresUserFlg = ''BACKUP_RESTORE_SIDECAR_POSTGRES_USER''"
  "env_name postgresPasswordFlg = ''BACKUP_RESTORE_SIDECAR_POSTGRES_PASSWORD''"
  by code_simp+

lemma env_name_other:
  "k \<in> {databaseFlg, databaseDatadirFlg, postgresHostFlg, postgresPortFlg, redisAddrFlg, redisPasswordFlg, rethinkDBURLFlg,
     rethinkDBPasswordFileFlg, etcdCaCert, etcdCert, etcdKey, etcdEndpoints, etcdName, backupProviderFlg, compressionMethod,
     encryptionKeyFlg, localBackupPathFlg, objectsToKeepFlg} \<Longrightarrow> sidecar_env db (env_name k) = ''''"
  by (auto simp: sidecar_env_def env_name_def env_prefix_def char_upper_def flag_name_defs)

lemma sidecar_env_names:
  "sidecar_env db (env_name databaseFlg) = ''''" "sidecar_env db (env_name databaseDatadirFlg) = ''''"
  "sidecar_env db (env_name postgresHostFlg) = ''''" "sidecar_env db (env_name postgresPortFlg) = ''''"
  "sidecar_env db (env_name postgresUserFlg) = (if db = ''postgres'' then ''postgres'' else '''')"
  "sidecar_env db (env_name postgresPasswordFlg) = (if db = ''postgres'' then ''test123!'' else '''')"
  "sidecar_env db (env_name redisAddrFlg) = ''''" "sidecar_env db (env_name redisPasswordFlg) = ''''"
  "sidecar_env db (env_name rethinkDBURLFlg) = ''''" "sidecar_env db (env_name rethinkDBPasswordFileFlg) = ''''"
  "sidecar_env db (env_name etcdCaCert) = ''''" "sidecar_env db (env_name etcdCert) = ''''"
  "sidecar_env db (env_name etcdKey) = ''''" "sidecar_env db (env_name etcdEndpoints) = ''''"
  "sidecar_env db (env_name etcdName) = ''''" "sidecar_env db (env_name backupProviderFlg) = ''''"
  "sidecar_env db (env_name compressionMethod) = ''''" "sidecar_env db (env_name encryptionKeyFlg) = ''''"
  "sidecar_env db (env_name localBackupPathFlg) = ''''" "sidecar_env db (env_name objectsToKeepFlg) = ''''"
  by (simp_all add: env_name_other) (simp_all add: postgres_env_names sidecar_env_def)

lemma flag_defaults:
  "default_string postgresHostFlg = ''127.0.0.1''" "default_int postgresPortFlg = 5432"
  "default_string rethinkDBURLFlg = ''localhost:28015''" "default_string etcdCaCert = ''''"
  "default_string etcdCert = ''''" "default_string etcdKey = ''''" "default_string etcdName = ''''"
  "default_string compressionMethod = ''targz''" "default_string localBackupPathFlg = ''''"
  "default_string redisPasswordFlg = ''''" "default_int objectsToKeepFlg = 20"
  by code_simp+

lemmas flag_values = sidecar_env_names [unfolded flag_name_defs] flag_defaults [unfolded flag_name_defs]

text \<open>The parts that \<open>start\<close> should make: the database adapter with the addresses and credentials of the
  example's server, encryption with the key of the file, and twenty local backups below the mounted
  backup volume.\<close>

definition example_database :: "string \<Rightarrow> ('x, 'm) world_scheme env \<Rightarrow> ('x, 'm) world_scheme database" where
  "example_database n env =
     (if n = ''etcd'' then
        etcd_db (e_exec env) (Etcd_New ''/data/etcd/'' '''' '''' '''' ''http://localhost:32379'' '''')
      else if n = ''postgres'' then
        postgres_db (e_pg env) (e_sql env) (Postgres_New ''/data/postgres/'' ''127.0.0.1'' 5432 PostgresUser PostgresPassword)
      else if n = ''rethinkdb'' then
        rethink_db (e_exec env) (e_rethink env) (e_rethink_server env) (e_events env)
          (RethinkDB_New ''/data/rethinkdb/'' ''localhost:28015'' ''/rethinkdb-secret/rethinkdb-password.txt'')
      else if n = ''localfs'' then localfs ''/data/''
      else redis ''/data/'' (e_redis env \<lparr>ro_Addr = ''localhost:6379'', ro_Password = ''''\<rparr>))"

definition example_parts :: "string \<Rightarrow> ('x, 'm) lp_world_scheme env \<Rightarrow> ('x, 'm) lp_world_scheme parts" where
  "example_parts n env =
     (let ext = (if n = ''postgres'' then ''.tar'' else ''.tar.gz'') in
      \<lparr>pt_db = example_database n env, pt_encrypter = Some \<lparr>enc_key = ''01234567891234560123456789123456''\<rparr>,
       pt_compressor = \<lparr>comp_extension = ext\<rparr>,
       pt_bp = local_provider \<lparr>lc_LocalBackupPath = defaultLocalBackupPath, lc_ObjectsToKeep = 20,
         lc_Suffix = ext @ ''.aes''\<rparr> (e_ties env)\<rparr>)"

lemma example_starts:
  assumes "initDatabase v env = Inr (example_database n env)"
    and "GetString v encryptionKeyFlg = ''01234567891234560123456789123456''"
    and "GetString v compressionMethod = (if n = ''postgres'' then ''tar'' else ''targz'')"
    and "GetString v backupProviderFlg = ''local''" "GetString v localBackupPathFlg = ''''"
    and "GetInt64 v objectsToKeepFlg = 20"
  shows "start_PreRunE v env = Inr (example_parts n env)"
  using assms
  by (simp add: start_PreRunE_def initEncrypter_def initCompressor_def initBackupProvider_def Encrypter_New_def isASCII_def
      Compressor_New_def Local_New_def local_config_of_def backup_suffix_def Compressor_Extension_def Encrypter_Extension_def
      enc_suffix_def example_parts_def)

lemma etcd_starts:
  assumes "merged [(''log-level'', ''debug'')] (sidecar_env ''etcd'') (scalars etcd_config) (slices etcd_config) v"
  shows "start_PreRunE v env = Inr (example_parts ''etcd'' env)" "GetString v databaseFlg = ''etcd''"
    "GetString v databaseDatadirFlg = ''/data/etcd/''"
proof -
  note vals = merged_string [OF assms] merged_ints [OF assms] merged_set [OF assms] configs_read flag_values
  show "start_PreRunE v env = Inr (example_parts ''etcd'' env)"
    by (rule example_starts) (simp_all add: initDatabase_def example_database_def flag_name_defs vals)
qed (simp_all add: merged_string [OF assms] configs_read flag_name_defs flag_values)

lemma postgres_starts:
  assumes "merged [(''log-level'', ''debug'')] (sidecar_env ''postgres'') (scalars postgres_config) (slices postgres_config) v"
  shows "start_PreRunE v env = Inr (example_parts ''postgres'' env)" "GetString v databaseFlg = ''postgres''"
    "GetString v databaseDatadirFlg = ''/data/postgres/''"
proof -
  note vals = merged_string [OF assms] merged_ints [OF assms] merged_set [OF assms] configs_read flag_values
  show "start_PreRunE v env = Inr (example_parts ''postgres'' env)"
    by (rule example_starts) (simp_all add: initDatabase_def example_database_def flag_name_defs vals PostgresUser_def PostgresPassword_def)
qed (simp_all add: merged_string [OF assms] configs_read flag_name_defs flag_values)

lemma rethinkdb_starts:
  assumes "merged [(''log-level'', ''debug'')] (sidecar_env ''rethinkdb'') (scalars rethinkdb_config) (slices rethinkdb_config) v"
  shows "start_PreRunE v env = Inr (example_parts ''rethinkdb'' env)" "GetString v databaseFlg = ''rethinkdb''"
    "GetString v databaseDatadirFlg = ''/data/rethinkdb/''"
proof -
  note vals = merged_string [OF assms] merged_ints [OF assms] merged_set [OF assms] configs_read flag_values
  show "start_PreRunE v env = Inr (example_parts ''rethinkdb'' env)"
    by (rule example_starts) (simp_all add: initDatabase_def example_database_def flag_name_defs vals)
qed (simp_all add: merged_string [OF assms] configs_read flag_name_defs flag_values)

lemma redis_starts:
  assumes "merged [(''log-level'', ''debug'')] (sidecar_env ''redis'') (scalars redis_config) (slices redis_config) v"
  shows "start_PreRunE v env = Inr (example_parts ''redis'' env)" "GetString v databaseFlg = ''redis''"
    "GetString v databaseDatadirFlg = ''/data/''"
proof -
  note vals = merged_string [OF assms] merged_ints [OF assms] merged_set [OF assms] configs_read flag_values
  show "start_PreRunE v env = Inr (example_parts ''redis'' env)"
    by (rule example_starts) (simp_all add: initDatabase_def example_database_def flag_name_defs vals Redis_New_def)
qed (simp_all add: merged_string [OF assms] configs_read flag_name_defs flag_values)

lemma keydb_starts:
  assumes "merged [(''log-level'', ''debug'')] (sidecar_env ''keydb'') (scalars keydb_config) (slices keydb_config) v"
  shows "start_PreRunE v env = Inr (example_parts ''keydb'' env)" "GetString v databaseFlg = ''keydb''"
    "GetString v databaseDatadirFlg = ''/data/''"
proof -
  note vals = merged_string [OF assms] merged_ints [OF assms] merged_set [OF assms] configs_read flag_values
  show "start_PreRunE v env = Inr (example_parts ''keydb'' env)"
    by (rule example_starts) (simp_all add: initDatabase_def example_database_def flag_name_defs vals Redis_New_def)
qed (simp_all add: merged_string [OF assms] configs_read flag_name_defs flag_values)

lemma valkey_starts:
  assumes "merged [(''log-level'', ''debug'')] (sidecar_env ''valkey'') (scalars valkey_config) (slices valkey_config) v"
  shows "start_PreRunE v env = Inr (example_parts ''valkey'' env)" "GetString v databaseFlg = ''valkey''"
    "GetString v databaseDatadirFlg = ''/data/''"
proof -
  note vals = merged_string [OF assms] merged_ints [OF assms] merged_set [OF assms] configs_read flag_values
  show "start_PreRunE v env = Inr (example_parts ''valkey'' env)"
    by (rule example_starts) (simp_all add: initDatabase_def example_database_def flag_name_defs vals Redis_New_def)
qed (simp_all add: merged_string [OF assms] configs_read flag_name_defs flag_values)

lemma localfs_starts:
  assumes "merged [(''log-level'', ''debug'')] (sidecar_env ''localfs'') (scalars localfs_config) (slices localfs_config) v"
  shows "start_PreRunE v env = Inr (example_parts ''localfs'' env)" "GetString v databaseFlg = ''localfs''"
    "GetString v databaseDatadirFlg = ''/data/''"
proof -
  note vals = merged_string [OF assms] merged_ints [OF assms] merged_set [OF assms] configs_read flag_values
  show "start_PreRunE v env = Inr (example_parts ''localfs'' env)"
    by (rule example_starts) (simp_all add: initDatabase_def example_database_def flag_name_defs vals)
qed (simp_all add: merged_string [OF assms] configs_read flag_name_defs flag_values)

definition sidecars :: "container set" where
  "sidecars = {etcd_sidecar, postgres_sidecar, rethinkdb_sidecar, redis_sidecar, keydb_sidecar, valkey_sidecar, localfs_sidecar}"

definition servers :: "container set" where
  "servers = {etcd_server, postgres_server, rethinkdb_server, redis_server, keydb_server, valkey_server, localfs_server}"

lemma volumes_examples:
  assumes "c \<in> sidecars"
  shows "list_all (on_volume c ''backup'') [BackupDir, UploadDir, RestoreDir, DownloadDir, defaultLocalBackupPath]"
  using assms unfolding sidecars_def
  by (elim insertE emptyE) (simp_all add: on_volume_def part_defs defaultLocalBackupPath_def resolve_def BackupDir_def
      UploadDir_def RestoreDir_def DownloadDir_def)

lemma data_examples:
  assumes "c \<in> sidecars \<union> servers"
    and "d \<in> {''/data/'', ''/data/etcd/'', ''/data/postgres/'', ''/data/rethinkdb/''}"
  shows "on_volume c ''data'' d"
  using assms unfolding sidecars_def servers_def
  by (elim UnE insertE emptyE) (simp_all add: on_volume_def part_defs resolve_def)

lemma commands_examples:
  "runs_command ''start'' \<lparr>le_db = n, le_sts = EtcdSts, le_backing = b\<rparr> ns = [etcd_sidecar]"
  "runs_command ''wait'' \<lparr>le_db = n, le_sts = EtcdSts, le_backing = b\<rparr> ns = [etcd_server]"
  "runs_command ''start'' \<lparr>le_db = n, le_sts = PostgresSts, le_backing = b\<rparr> ns = [postgres_sidecar]"
  "runs_command ''wait'' \<lparr>le_db = n, le_sts = PostgresSts, le_backing = b\<rparr> ns = [postgres_server]"
  "runs_command ''start'' \<lparr>le_db = n, le_sts = RethinkDbSts, le_backing = b\<rparr> ns = [rethinkdb_sidecar]"
  "runs_command ''wait'' \<lparr>le_db = n, le_sts = RethinkDbSts, le_backing = b\<rparr> ns = [rethinkdb_server]"
  "runs_command ''start'' \<lparr>le_db = n, le_sts = RedisSts, le_backing = b\<rparr> ns = [redis_sidecar]"
  "runs_command ''wait'' \<lparr>le_db = n, le_sts = RedisSts, le_backing = b\<rparr> ns = [redis_server]"
  "runs_command ''start'' \<lparr>le_db = n, le_sts = KeyDBSts, le_backing = b\<rparr> ns = [keydb_sidecar]"
  "runs_command ''wait'' \<lparr>le_db = n, le_sts = KeyDBSts, le_backing = b\<rparr> ns = [keydb_server]"
  "runs_command ''start'' \<lparr>le_db = n, le_sts = ValkeySts, le_backing = b\<rparr> ns = [valkey_sidecar]"
  "runs_command ''wait'' \<lparr>le_db = n, le_sts = ValkeySts, le_backing = b\<rparr> ns = [valkey_server]"
  "runs_command ''start'' \<lparr>le_db = n, le_sts = LocalfsSts, le_backing = b\<rparr> ns = [localfs_sidecar]"
  "runs_command ''wait'' \<lparr>le_db = n, le_sts = LocalfsSts, le_backing = b\<rparr> ns = [localfs_server]"
  by (simp_all add: runs_command_def part_defs)

lemma local_example_cases:
  assumes "e \<in> set local_examples"
  obtains "e = \<lparr>le_db = ''etcd'', le_sts = EtcdSts, le_backing = EtcdBackingResources\<rparr>"
    | "e = \<lparr>le_db = ''postgres'', le_sts = PostgresSts, le_backing = PostgresBackingResources\<rparr>"
    | "e = \<lparr>le_db = ''rethinkdb'', le_sts = RethinkDbSts, le_backing = RethinkDbBackingResources\<rparr>"
    | "e = \<lparr>le_db = ''redis'', le_sts = RedisSts, le_backing = RedisBackingResources\<rparr>"
    | "e = \<lparr>le_db = ''keydb'', le_sts = KeyDBSts, le_backing = KeyDBBackingResources\<rparr>"
    | "e = \<lparr>le_db = ''valkey'', le_sts = ValkeySts, le_backing = ValkeyBackingResources\<rparr>"
    | "e = \<lparr>le_db = ''localfs'', le_sts = LocalfsSts, le_backing = LocalfsBackingResources\<rparr>"
  using assms
  unfolding local_examples_def list.set Etcd_name_def Postgres_name_def RethinkDB_name_def Redis_name_def KeyDB_name_def
      Valkey_name_def Localfs_name_def
  by (elim insertE emptyE) (rule that, assumption)+

text \<open>Which container of an example restores and which runs the server.\<close>

lemma example_pods:
  assumes "e \<in> set local_examples" "c \<in> set (runs_command ''start'' e ns)" "s \<in> set (runs_command ''wait'' e ns)"
  obtains "e = \<lparr>le_db = ''etcd'', le_sts = EtcdSts, le_backing = EtcdBackingResources\<rparr>" "c = etcd_sidecar" "s = etcd_server"
    | "e = \<lparr>le_db = ''postgres'', le_sts = PostgresSts, le_backing = PostgresBackingResources\<rparr>" "c = postgres_sidecar" "s = postgres_server"
    | "e = \<lparr>le_db = ''rethinkdb'', le_sts = RethinkDbSts, le_backing = RethinkDbBackingResources\<rparr>" "c = rethinkdb_sidecar" "s = rethinkdb_server"
    | "e = \<lparr>le_db = ''redis'', le_sts = RedisSts, le_backing = RedisBackingResources\<rparr>" "c = redis_sidecar" "s = redis_server"
    | "e = \<lparr>le_db = ''keydb'', le_sts = KeyDBSts, le_backing = KeyDBBackingResources\<rparr>" "c = keydb_sidecar" "s = keydb_server"
    | "e = \<lparr>le_db = ''valkey'', le_sts = ValkeySts, le_backing = ValkeyBackingResources\<rparr>" "c = valkey_sidecar" "s = valkey_server"
    | "e = \<lparr>le_db = ''localfs'', le_sts = LocalfsSts, le_backing = LocalfsBackingResources\<rparr>" "c = localfs_sidecar" "s = localfs_server"
  using assms(1)
  by (cases rule: local_example_cases)
    (use assms(2,3) that in \<open>simp_all only: commands_examples list.set insert_iff empty_iff HOL.simp_thms\<close>)

lemma example_conclusion:
  assumes "c \<in> sidecars"
    and "s \<in> servers"
    and "start_PreRunE v env = Inr (example_parts n env)" "GetString v databaseFlg = n"
    and "GetString v databaseDatadirFlg \<in> {''/data/'', ''/data/etcd/'', ''/data/postgres/'', ''/data/rethinkdb/''}"
  shows "start_PreRunE v env = Inr (example_parts n env) \<and> GetString v databaseFlg = n \<and>
     on_volume c ''data'' (GetString v databaseDatadirFlg) \<and> on_volume s ''data'' (GetString v databaseDatadirFlg) \<and>
     list_all (on_volume c ''backup'') [BackupDir, UploadDir, RestoreDir, DownloadDir, defaultLocalBackupPath]"
proof -
  have "c \<in> sidecars \<union> servers" "s \<in> sidecars \<union> servers" using assms(1,2) by (simp_all only: Un_iff simp_thms)
  note d = data_examples [OF this(1) assms(5)] data_examples [OF this(2) assms(5)]
  show ?thesis by (rule conjI [OF assms(3) conjI [OF assms(4) conjI [OF d(1) conjI [OF d(2) volumes_examples [OF assms(1)]]]]])
qed

text \<open>C19: in every example one container runs the sidecar and one waits for it.  With the configuration file, the
  environment and the flags that the manifest gives the sidecar, the start makes exactly the parts the example means:
  the adapter of its database with the address and the credentials of its server, encryption with the configured
  key, the local provider.  The data directory lies on the data volume in both containers, and everything the sidecar
  writes to, the stored backups included, lies on the backup volume.\<close>

theorem examples_start:
  assumes "e \<in> set local_examples" "c \<in> set (runs_command ''start'' e ns)" "s \<in> set (runs_command ''wait'' e ns)"
    and "started_with ns e c v"
  shows "start_PreRunE v env = Inr (example_parts (le_db e) env) \<and> GetString v databaseFlg = le_db e \<and>
     on_volume c ''data'' (GetString v databaseDatadirFlg) \<and> on_volume s ''data'' (GetString v databaseDatadirFlg) \<and>
     list_all (on_volume c ''backup'') [BackupDir, UploadDir, RestoreDir, DownloadDir, defaultLocalBackupPath]"
  using assms(1-3)
proof (cases rule: example_pods)
  case 1
  show ?thesis using etcd_starts [OF assms(4) [unfolded 1, unfolded started_examples]] 1
    by (intro example_conclusion) (simp_all add: sidecars_def servers_def)
next
  case 2
  show ?thesis using postgres_starts [OF assms(4) [unfolded 2, unfolded started_examples]] 2
    by (intro example_conclusion) (simp_all add: sidecars_def servers_def)
next
  case 3
  show ?thesis using rethinkdb_starts [OF assms(4) [unfolded 3, unfolded started_examples]] 3
    by (intro example_conclusion) (simp_all add: sidecars_def servers_def)
next
  case 4
  show ?thesis using redis_starts [OF assms(4) [unfolded 4, unfolded started_examples]] 4
    by (intro example_conclusion) (simp_all add: sidecars_def servers_def)
next
  case 5
  show ?thesis using keydb_starts [OF assms(4) [unfolded 5, unfolded started_examples]] 5
    by (intro example_conclusion) (simp_all add: sidecars_def servers_def)
next
  case 6
  show ?thesis using valkey_starts [OF assms(4) [unfolded 6, unfolded started_examples]] 6
    by (intro example_conclusion) (simp_all add: sidecars_def servers_def)
next
  case 7
  show ?thesis using localfs_starts [OF assms(4) [unfolded 7, unfolded started_examples]] 7
    by (intro example_conclusion) (simp_all add: sidecars_def servers_def)
qed

text \<open>A configuration of the documented kind, made from its sources.\<close>

definition merge_config ::
  "(string \<times> string) list \<Rightarrow> (string \<Rightarrow> string) \<Rightarrow> (string \<times> string) list \<Rightarrow> (string \<times> string list) list \<Rightarrow> viper" where
  "merge_config args g sc sl =
     \<lparr>GetString = (\<lambda>k. case map_of args k of Some s \<Rightarrow> s | None \<Rightarrow>
        if g (env_name k) \<noteq> '''' then g (env_name k)
        else (case map_of sc k of Some s \<Rightarrow> s | None \<Rightarrow> default_string k)),
      GetInt = default_int, GetInt32 = (\<lambda>k. word_of_int (default_int k)), GetInt64 = (\<lambda>k. word_of_int (default_int k)),
      GetBool = (\<lambda>_. False), GetStringSlice = (\<lambda>k. case map_of sl k of Some l \<Rightarrow> l | None \<Rightarrow> []),
      IsSet = (\<lambda>k. map_of args k \<noteq> None \<or> g (env_name k) \<noteq> '''' \<or> map_of sc k \<noteq> None \<or> map_of sl k \<noteq> None)\<rparr>"

lemma merged_merge: "merged args g sc sl (merge_config args g sc sl)"
  by (simp add: merged_def merge_config_def)

lemma postgres_example_in: "\<lparr>le_db = ''postgres'', le_sts = PostgresSts, le_backing = PostgresBackingResources\<rparr> \<in> set local_examples"
  unfolding local_examples_def Postgres_name_def by (simp only: list.set insert_iff simp_thms)

theorem examples_start_witness:
  "\<exists>v. \<forall>env :: unit lp_world env. start_PreRunE v env = Inr (example_parts ''postgres'' env) \<and> GetString v databaseFlg = ''postgres''"
proof -
  let ?e = "\<lparr>le_db = ''postgres'', le_sts = PostgresSts, le_backing = PostgresBackingResources\<rparr>"
  let ?v = "merge_config [(''log-level'', ''debug'')] (sidecar_env ''postgres'') (scalars postgres_config) (slices postgres_config)"
  have "postgres_sidecar \<in> set (runs_command ''start'' ?e ''default'')" "postgres_server \<in> set (runs_command ''wait'' ?e ''default'')"
    by (simp_all only: commands_examples list.set insert_iff simp_thms)
  moreover have "started_with ''default'' ?e postgres_sidecar ?v" unfolding started_examples by (rule merged_merge)
  ultimately show ?thesis
    using examples_start [OF postgres_example_in, where ns = "''default''" and v = ?v] unfolding local_example.select_convs by metis
qed

section \<open>The server runs on the sidecar's data\<close>

text \<open>Fuel is enough for the expansion of variables; a command without a dollar sign stays as it is.\<close>

lemma ExpandEnv_append: "CHR ''$'' \<notin> set p \<Longrightarrow> os_ExpandEnv g (p @ s) = p @ os_ExpandEnv g s"
  by (induction p) (auto simp: os_ExpandEnv_def)

lemma ExpandEnv_plain: "CHR ''$'' \<notin> set s \<Longrightarrow> os_ExpandEnv g s = s"
  using ExpandEnv_append [of s g "''''"] by (simp add: os_ExpandEnv_def)

text \<open>The program that \<open>wait\<close> finally runs, and the directories it is told: absolute paths among its
  arguments, the values of its options, and the variable of the postgres image.\<close>

definition server_argv :: "string \<Rightarrow> string list" where
  "server_argv n =
     (if n = ''etcd'' then
        [''etcd'', ''--data-dir=/data/etcd'', ''--listen-client-urls'', ''http://0.0.0.0:32379'',
         ''--advertise-client-urls'', ''http://0.0.0.0:32379'', ''--listen-peer-urls'', ''http://0.0.0.0:32380'',
         ''--initial-advertise-peer-urls'', ''http://0.0.0.0:32380'', ''--initial-cluster'', ''default=http://0.0.0.0:32380'',
         ''--listen-metrics-urls'', ''http://0.0.0.0:32381'']
      else if n = ''postgres'' then [''docker-entrypoint.sh'', ''postgres'']
      else if n = ''rethinkdb'' then
        [''rethinkdb'', ''--bind'', ''all'', ''--directory'', ''/data/rethinkdb'', ''--initial-password'', RethinkDbPassword]
      else if n = ''localfs'' then [''tail'', ''-f'', ''/etc/hosts'']
      else [n @ ''-server''])"

definition told_dirs :: "(string \<Rightarrow> string) \<Rightarrow> string list \<Rightarrow> string list" where
  "told_dirs g argv = filter rooted argv @
     map (\<lambda>a. drop 1 (dropWhile (\<lambda>c. c \<noteq> CHR ''='') a)) (filter (prefix ''--'') argv) @ [g ''PGDATA'']"

definition server_command :: "string \<Rightarrow> string" where
  "server_command n = strings_Join (server_argv n) '' ''"

lemma server_env_examples:
  "container_env ns (EtcdBackingResources ns) etcd_server (env_name postExecCommandsFlg) = ''''"
  "container_env ns (PostgresBackingResources ns) postgres_server (env_name postExecCommandsFlg) = ''''"
  "container_env ns (RethinkDbBackingResources ns) rethinkdb_server (env_name postExecCommandsFlg) = ''''"
  "container_env ns (RedisBackingResources ns) redis_server (env_name postExecCommandsFlg) = ''''"
  "container_env ns (KeyDBBackingResources ns) keydb_server (env_name postExecCommandsFlg) = ''''"
  "container_env ns (ValkeyBackingResources ns) valkey_server (env_name postExecCommandsFlg) = ''''"
  "container_env ns (LocalfsBackingResources ns) localfs_server (env_name postExecCommandsFlg) = ''''"
  "container_env ns (RethinkDbBackingResources ns) rethinkdb_server ''RETHINKDB_PASSWORD'' = RethinkDbPassword"
  "container_env ns (PostgresBackingResources ns) postgres_server ''PGDATA'' = ''/data/postgres/''"
  by (simp_all add: container_env_def env_name_def env_prefix_def char_upper_def postExecCommandsFlg_def part_defs)

lemma merged_slice:
  "merged args g sc sl v \<Longrightarrow> g (env_name k) = '''' \<Longrightarrow>
   GetStringSlice v k = (case map_of sl k of Some l \<Rightarrow> l | None \<Rightarrow> [])"
  unfolding merged_def by blast

lemma server_slices:
  "started_with ns \<lparr>le_db = n, le_sts = EtcdSts, le_backing = EtcdBackingResources\<rparr> etcd_server v \<Longrightarrow> GetStringSlice v postExecCommandsFlg =
     (case map_of (slices etcd_config) postExecCommandsFlg of Some l \<Rightarrow> l | None \<Rightarrow> [])"
  "started_with ns \<lparr>le_db = n, le_sts = PostgresSts, le_backing = PostgresBackingResources\<rparr> postgres_server v \<Longrightarrow> GetStringSlice v postExecCommandsFlg =
     (case map_of (slices postgres_config) postExecCommandsFlg of Some l \<Rightarrow> l | None \<Rightarrow> [])"
  "started_with ns \<lparr>le_db = n, le_sts = RethinkDbSts, le_backing = RethinkDbBackingResources\<rparr> rethinkdb_server v \<Longrightarrow> GetStringSlice v postExecCommandsFlg =
     (case map_of (slices rethinkdb_config) postExecCommandsFlg of Some l \<Rightarrow> l | None \<Rightarrow> [])"
  "started_with ns \<lparr>le_db = n, le_sts = RedisSts, le_backing = RedisBackingResources\<rparr> redis_server v \<Longrightarrow> GetStringSlice v postExecCommandsFlg =
     (case map_of (slices redis_config) postExecCommandsFlg of Some l \<Rightarrow> l | None \<Rightarrow> [])"
  "started_with ns \<lparr>le_db = n, le_sts = KeyDBSts, le_backing = KeyDBBackingResources\<rparr> keydb_server v \<Longrightarrow> GetStringSlice v postExecCommandsFlg =
     (case map_of (slices keydb_config) postExecCommandsFlg of Some l \<Rightarrow> l | None \<Rightarrow> [])"
  "started_with ns \<lparr>le_db = n, le_sts = ValkeySts, le_backing = ValkeyBackingResources\<rparr> valkey_server v \<Longrightarrow> GetStringSlice v postExecCommandsFlg =
     (case map_of (slices valkey_config) postExecCommandsFlg of Some l \<Rightarrow> l | None \<Rightarrow> [])"
  "started_with ns \<lparr>le_db = n, le_sts = LocalfsSts, le_backing = LocalfsBackingResources\<rparr> localfs_server v \<Longrightarrow> GetStringSlice v postExecCommandsFlg =
     (case map_of (slices localfs_config) postExecCommandsFlg of Some l \<Rightarrow> l | None \<Rightarrow> [])"
  by (simp_all only: started_with_def local_example.select_convs mounted_examples option.case)
    (erule merged_slice, rule server_env_examples)+

definition example_config :: "string \<Rightarrow> string" where
  "example_config n = (if n = ''etcd'' then etcd_config else if n = ''postgres'' then postgres_config
     else if n = ''rethinkdb'' then rethinkdb_config else if n = ''redis'' then redis_config
     else if n = ''keydb'' then keydb_config else if n = ''valkey'' then valkey_config else localfs_config)"

lemma server_fields:
  assumes "g ''RETHINKDB_PASSWORD'' = RethinkDbPassword \<or> n \<noteq> ''rethinkdb''"
    and "n \<in> {''etcd'', ''postgres'', ''rethinkdb'', ''redis'', ''keydb'', ''valkey'', ''localfs''}"
  shows "\<exists>cmd. slices (example_config n) = [(postExecCommandsFlg, [cmd])] \<and> strings_Fields (os_ExpandEnv g cmd) = server_argv n"
proof (cases "n = ''rethinkdb''")
  case True
  have "os_ExpandEnv g (''rethinkdb --bind all --directory /data/rethinkdb --initial-password '' @ ''${RETHINKDB_PASSWORD}'') =
    ''rethinkdb --bind all --directory /data/rethinkdb --initial-password '' @ os_ExpandEnv g ''${RETHINKDB_PASSWORD}''"
    by (rule ExpandEnv_append) simp
  moreover have "os_ExpandEnv g ''${RETHINKDB_PASSWORD}'' = RethinkDbPassword"
    using assms(1) True by (simp add: os_ExpandEnv_def shell_name_def is_shell_special_def)
  ultimately show ?thesis
    using True by (simp add: example_config_def configs_read postExecCommandsFlg_def server_argv_def strings_Fields_def is_space_def RethinkDbPassword_def)
next
  case False
  then show ?thesis using assms(2)
    by (elim insertE emptyE)
      (simp_all add: example_config_def configs_read postExecCommandsFlg_def ExpandEnv_plain server_argv_def strings_Fields_def is_space_def)
qed

text \<open>The server uses the data directory \<open>d\<close> of the sidecar: it is told it, or (redis, keydb, valkey and the
  container of localfs are told none) it is where the data volume is mounted into the server's container.\<close>

definition told_data :: "string \<Rightarrow> (string \<Rightarrow> string) \<Rightarrow> container \<Rightarrow> string \<Rightarrow> bool" where
  "told_data n g s d \<longleftrightarrow>
     (if n \<in> {''etcd'', ''postgres'', ''rethinkdb''} then resolve d \<in> set (map resolve (told_dirs g (server_argv n)))
      else list_ex (\<lambda>m. vm_Name m = ''data'' \<and> vm_SubPath m = '''' \<and> resolve (vm_MountPath m) = resolve d) (ct_VolumeMounts s))"

lemma told_data_examples:
  "told_data ''etcd'' g s ''/data/etcd/''" "told_data ''rethinkdb'' g s ''/data/rethinkdb/''"
  "g ''PGDATA'' = ''/data/postgres/'' \<Longrightarrow> told_data ''postgres'' g s ''/data/postgres/''"
  "told_data ''redis'' g redis_server ''/data/''" "told_data ''keydb'' g keydb_server ''/data/''"
  "told_data ''valkey'' g valkey_server ''/data/''" "told_data ''localfs'' g localfs_server ''/data/''"
  by (simp_all add: told_data_def told_dirs_def server_argv_def rooted_def resolve_def mount_def
      redis_server_def keydb_server_def valkey_server_def localfs_server_def)

text \<open>What the server container and the sidecar of the example \<open>n\<close> are told.\<close>

definition served :: "string \<Rightarrow> viper \<Rightarrow> viper \<Rightarrow> (string \<Rightarrow> string) \<Rightarrow> container \<Rightarrow> bool" where
  "served n v vc g s \<longleftrightarrow> (\<exists>cmd. GetStringSlice v postExecCommandsFlg = [cmd] \<and> strings_Fields (os_ExpandEnv g cmd) = server_argv n) \<and>
     told_data n g s (GetString vc databaseDatadirFlg)"

lemma servedI:
  assumes "GetStringSlice v postExecCommandsFlg = (case map_of (slices config) postExecCommandsFlg of Some l \<Rightarrow> l | None \<Rightarrow> [])"
    and "GetString vc databaseDatadirFlg = d" "told_data n g s d" "config = example_config n"
    and "n \<in> {''etcd'', ''postgres'', ''rethinkdb'', ''redis'', ''keydb'', ''valkey'', ''localfs''}"
    and "g ''RETHINKDB_PASSWORD'' = RethinkDbPassword \<or> n \<noteq> ''rethinkdb''"
  shows "served n v vc g s"
  using server_fields [of g n, OF assms(6,5)] assms(1-4) by (auto simp: served_def)

lemma example_served:
  assumes "e \<in> set local_examples" "c \<in> set (runs_command ''start'' e ns)" "s \<in> set (runs_command ''wait'' e ns)"
    and "started_with ns e c vc" "started_with ns e s v"
    and "list_all (\<lambda>x. g (ev_Name x) = container_env ns (le_backing e ns) s (ev_Name x)) (ct_Env s)"
  shows "served (le_db e) v vc g s"
  using assms(1-3)
proof (cases rule: example_pods)
  case 1
  note st = assms(4,5) [unfolded 1, unfolded started_examples]
  show ?thesis unfolding 1 local_example.select_convs
    by (rule servedI [OF server_slices(1) [OF st(2)] etcd_starts(3) [OF st(1)]]) (simp_all add: example_config_def told_data_examples)
next
  case 2
  note st = assms(4,5) [unfolded 2, unfolded started_examples]
  have g: "g ''PGDATA'' = ''/data/postgres/''" using assms(6) 2 server_env_examples by (simp add: postgres_server_def secret_env_def)
  show ?thesis unfolding 2 local_example.select_convs
    by (rule servedI [OF server_slices(2) [OF st(2)] postgres_starts(3) [OF st(1)]]) (simp_all add: example_config_def told_data_examples g)
next
  case 3
  note st = assms(4,5) [unfolded 3, unfolded started_examples]
  have g: "g ''RETHINKDB_PASSWORD'' = RethinkDbPassword" using assms(6) 3 server_env_examples by (simp add: rethinkdb_server_def secret_env_def)
  show ?thesis unfolding 3 local_example.select_convs
    by (rule servedI [OF server_slices(3) [OF st(2)] rethinkdb_starts(3) [OF st(1)]]) (simp_all add: example_config_def told_data_examples g)
next
  case 4
  note st = assms(4,5) [unfolded 4, unfolded started_examples]
  show ?thesis unfolding 4 local_example.select_convs
    by (rule servedI [OF server_slices(4) [OF st(2)] redis_starts(3) [OF st(1)]]) (simp_all add: example_config_def told_data_examples)
next
  case 5
  note st = assms(4,5) [unfolded 5, unfolded started_examples]
  show ?thesis unfolding 5 local_example.select_convs
    by (rule servedI [OF server_slices(5) [OF st(2)] keydb_starts(3) [OF st(1)]]) (simp_all add: example_config_def told_data_examples)
next
  case 6
  note st = assms(4,5) [unfolded 6, unfolded started_examples]
  show ?thesis unfolding 6 local_example.select_convs
    by (rule servedI [OF server_slices(6) [OF st(2)] valkey_starts(3) [OF st(1)]]) (simp_all add: example_config_def told_data_examples)
next
  case 7
  note st = assms(4,5) [unfolded 7, unfolded started_examples]
  show ?thesis unfolding 7 local_example.select_convs
    by (rule servedI [OF server_slices(7) [OF st(2)] localfs_starts(3) [OF st(1)]]) (simp_all add: example_config_def told_data_examples)
qed

text \<open>C20: after waiting, the container of the server runs exactly one program, the database server of the example
  with its arguments expanded (for localfs, which has none, \<open>tail\<close>).  It uses the data directory that the sidecar checks,
  restores and backs up: etcd, postgres and rethinkdb are told the very directory, by an argument or by \<open>PGDATA\<close>; for
  the others, which are told none, it is where the data volume is mounted into the server's container.\<close>

theorem examples_server:
  assumes "e \<in> set local_examples" "c \<in> set (runs_command ''start'' e ns)" "s \<in> set (runs_command ''wait'' e ns)"
    and "started_with ns e c vc" "started_with ns e s v"
    and "list_all (\<lambda>x. e_getenv env (ev_Name x) = container_env ns (le_backing e ns) s (ev_Name x)) (ct_Env s)"
  shows "run_commands (GetStringSlice v postExecCommandsFlg) env =
       bnd (run_cmd (e_exec env) (hd (server_argv (le_db e))) [] (tl (server_argv (le_db e))))
         (\<lambda>(_, e). case e of None \<Rightarrow> ret () | Some x \<Rightarrow> fail x) \<and>
     told_data (le_db e) (e_getenv env) s (GetString vc databaseDatadirFlg)"
proof -
  have "server_argv (le_db e) \<noteq> []" by (simp add: server_argv_def)
  then show ?thesis
    using example_served [OF assms] by (auto simp: served_def run_commands_def ExecWithStreamingOutput_def split: list.splits)
qed

theorem examples_server_witness:
  "\<exists>(v :: viper) (vc :: viper) (env :: unit i_world env). run_commands (GetStringSlice v postExecCommandsFlg) env =
       bnd (run_cmd (e_exec env) (hd (server_argv ''rethinkdb'')) [] (tl (server_argv ''rethinkdb'')))
         (\<lambda>(_, e). case e of None \<Rightarrow> ret () | Some x \<Rightarrow> fail x) \<and>
     told_data ''rethinkdb'' (e_getenv env) rethinkdb_server (GetString vc databaseDatadirFlg)"
proof -
  let ?e = "\<lparr>le_db = ''rethinkdb'', le_sts = RethinkDbSts, le_backing = RethinkDbBackingResources\<rparr>"
  let ?g = "container_env ''default'' (RethinkDbBackingResources ''default'') rethinkdb_server"
  let ?vc = "merge_config [(''log-level'', ''debug'')] (sidecar_env ''rethinkdb'') (scalars rethinkdb_config) (slices rethinkdb_config)"
  let ?v = "merge_config (given_flags (ct_Command rethinkdb_server)) ?g (scalars rethinkdb_config) (slices rethinkdb_config)"
  let ?env = "an_env\<lparr>e_getenv := ?g\<rparr>"
  have e: "?e \<in> set local_examples"
    unfolding local_examples_def RethinkDB_name_def by (simp only: list.set insert_iff simp_thms)
  have cs: "rethinkdb_sidecar \<in> set (runs_command ''start'' ?e ''default'')" "rethinkdb_server \<in> set (runs_command ''wait'' ?e ''default'')"
    by (simp_all only: commands_examples list.set insert_iff simp_thms)
  have vc: "started_with ''default'' ?e rethinkdb_sidecar ?vc" unfolding started_examples by (rule merged_merge)
  have v: "started_with ''default'' ?e rethinkdb_server ?v"
    unfolding started_with_def local_example.select_convs mounted_examples option.case by (rule merged_merge)
  have g: "list_all (\<lambda>x. e_getenv ?env (ev_Name x) =
      container_env ''default'' (le_backing ?e ''default'') rethinkdb_server (ev_Name x)) (ct_Env rethinkdb_server)"
    by (simp add: list_all_iff)
  show ?thesis
    by (rule exI [of _ ?v], rule exI [of _ ?vc], rule exI [of _ ?env])
      (rule examples_server [OF e cs vc v g, unfolded local_example.select_convs])
qed

end
