(* ===== verification/Dump.thy ===== *)
theory Dump
  imports Examples
begin

text \<open>
  What the generator of \<open>dump.go\<close> writes: one file for every example, in the directory \<open>deploy\<close> of the
  repository, and nothing else.
\<close>

section \<open>Paths with double dots\<close>

lemma norm_elems_pop: "plain_name p \<Longrightarrow> norm_elems True (p # out) (''..'' # cs) = norm_elems True out cs"
  by (simp add: plain_name_def)

text \<open>The source file of the generator in a working copy at \<open>root\<close>.\<close>

definition generator_source :: "string \<Rightarrow> string" where
  "generator_source root = root @ ''/pkg/generate/examples/dump.go''"

lemma dump_dest_resolve:
  assumes "rooted root" "plain_name n"
  shows "resolve (dump_dest (generator_source root) n) = resolve root @ [''deploy'', n]"
proof -
  let ?src = "root @ slash # ''pkg/generate/examples/''"
  have "dropWhile (\<lambda>c. c \<noteq> slash) (rev (generator_source root)) = rev ?src"
    by (simp add: generator_source_def)
  then have dir: "filepath_Dir (generator_source root) = path_Clean ?src"
    by (simp add: filepath_Dir_def)
  have src: "rooted ?src" "resolve ?src = resolve root @ [''pkg'', ''generate'', ''examples'']"
    using assms(1) by (simp_all add: resolve_append)
  then have r: "rooted (path_Clean ?src)" "resolve (path_Clean ?src) = resolve root @ [''pkg'', ''generate'', ''examples'']"
    using rooted_Join [of ?src "[]"] by (simp_all add: resolve_Clean path_Join_def rooted_ne)
  have "dump_dest (generator_source root) n = path_Clean (path_Clean ?src @ slash # ''../../../deploy/'' @ n)"
    using r(1) assms(2) rooted_ne by (auto simp: dump_dest_def dir path_Join_def plain_name_def)
  then have "resolve (dump_dest (generator_source root) n) = resolve (path_Clean ?src @ slash # ''../../../deploy'' @ slash # n)"
    using r(1) by (simp add: resolve_Clean)
  also have "\<dots> = norm_elems True (rev (resolve (path_Clean ?src))) (split_on slash (''../../../deploy'' @ slash # n))"
    by (rule resolve_append)
  also have "\<dots> = resolve root @ [''deploy'', n]"
    unfolding r(2) split_on_append_sep using assms(2) by (simp add: split_on_noslash plain_name_def)
  finally show ?thesis .
qed

section \<open>The files\<close>

lemma meets_WriteFile:
  assumes "parents_ok (w_fs w) (resolve p)" "\<not> is_dir (fs_get (w_fs w) (resolve p))"
  shows "meets (os_WriteFile p bs) (\<lambda>_ w'. \<exists>t. fs_get (w_fs w') = (fs_get (w_fs w))(resolve p \<mapsto> File bs t)) w"
  unfolding os_WriteFile_def
proof (rule meets_bnd [OF meets_open_write [OF assms]], intro keeps, goal_cases)
  case (1 fd w1)
  then obtain t where t: "fs_get (w_fs w1) = (fs_get (w_fs w))(resolve p \<mapsto> File [] t)"
    and fd: "w_fds w1 fd = Some \<lparr>h_path = resolve p, h_off = 0, h_rd = False, h_wr = True\<rparr>"
    by (auto simp: opened_def split: option.splits node.splits)
  have "resolve p \<noteq> []" using assms(2) by auto
  then have "meets (file_Write fd bs) (\<lambda>_ w'. \<exists>t. fs_get (w_fs w') = (fs_get (w_fs w1))(resolve p \<mapsto> File bs t)) w1"
    using t by (intro meets_mono [OF meets_Write [OF fd, of "[]" t bs]]) (auto simp: overwrite_start)
  then show ?case unfolding t by (intro meets_deferred) (auto elim: meets_mono)
qed

lemma meets_map_err: "meets m Q w \<Longrightarrow> meets (map_err f m) Q w"
  by (simp add: meets_def wp_map_err)

text \<open>The objects of an example as documents, separated as YAML wants it.\<close>

fun join_docs :: "byte list list \<Rightarrow> byte list" where
  "join_docs [] = []"
| "join_docs [d] = d"
| "join_docs (d # d' # ds) = d @ bytes_of (text_of [''---'']) @ join_docs (d' # ds)"

lemma dump_docs_join: "dump_docs (\<lambda>r. Inr (y r)) rs = Inr (join_docs (map (y \<circ> dumped) rs))"
  by (induction rs rule: induct_list012) (simp_all add: Let_def)

definition example_file :: "(resource \<Rightarrow> byte list) \<Rightarrow> local_example \<Rightarrow> byte list" where
  "example_file y e = bytes_of dump_header @ join_docs (map (y \<circ> dumped) (example_objects e ''default''))"

definition example_path :: "string \<Rightarrow> local_example \<Rightarrow> fpath" where
  "example_path root e = resolve root @ [''deploy'', le_db e @ ''-local.yaml'']"

text \<open>The directory of the deployments is there, and no file of an example is a directory.\<close>

definition deployable :: "string \<Rightarrow> local_example list \<Rightarrow> fs \<Rightarrow> bool" where
  "deployable root es f \<longleftrightarrow> parents_ok f (resolve root @ [''deploy'']) \<and> is_dir (fs_get f (resolve root @ [''deploy''])) \<and>
     list_all (\<lambda>e. \<not> is_dir (fs_get f (example_path root e))) es"

lemma meets_dump_example:
  assumes "rooted root" "plain_name (le_db e @ ''-local.yaml'')" "deployable root [e] (w_fs w)"
  shows "meets (dump_example (\<lambda>r. Inr (y r)) (generator_source root) e)
     (\<lambda>_ w'. \<exists>t. fs_get (w_fs w') = (fs_get (w_fs w))(example_path root e \<mapsto> File (example_file y e) t)) w"
proof -
  note r = dump_dest_resolve [OF assms(1,2)]
  have "parents_ok (w_fs w) (example_path root e)"
    using assms(3) parents_ok_snoc [of "w_fs w" "resolve root @ [''deploy'']"] by (simp add: deployable_def example_path_def)
  then show ?thesis
    using meets_WriteFile [of w "dump_dest (generator_source root) (le_db e @ ''-local.yaml'')" "example_file y e"] assms(3)
    unfolding dump_example_def dumpToExamples_def dump_docs_join r
    by (intro meets_map_err) (simp add: example_file_def example_path_def deployable_def)
qed

lemma deployable_written:
  assumes "deployable root (e # es) f" "example_path root e \<notin> example_path root ` set es"
    and "fs_get g = (fs_get f)(example_path root e \<mapsto> File c t)"
  shows "deployable root es g"
proof -
  let ?d = "resolve root @ [''deploy'']"
  have "fs_get g q = fs_get f q" if "prefix q ?d" for q
    using that assms(3) by (auto simp: example_path_def dest: prefix_length_le)
  note same = this
  have "parents_ok g ?d"
    by (rule parents_ok_cong [where f = f]) (use assms(1) in \<open>simp add: deployable_def\<close>, rule same, erule prefix_order.less_imp_le)
  moreover have "is_dir (fs_get g ?d)"
    using assms(1) same [of ?d] by (simp add: deployable_def)
  ultimately show ?thesis
    using assms by (auto simp: deployable_def list_all_iff)
qed

lemma meets_dump_all:
  assumes "rooted root" "list_all (\<lambda>e. plain_name (le_db e @ ''-local.yaml'')) es" "distinct (map (example_path root) es)"
    and "deployable root es (w_fs w)"
  shows "meets (each (dump_example (\<lambda>r. Inr (y r)) (generator_source root)) es)
     (\<lambda>_ w'. \<forall>q. if q \<in> example_path root ` set es
        then \<exists>e\<in>set es. q = example_path root e \<and> file_at (w_fs w') q = Some (example_file y e)
        else fs_get (w_fs w') q = fs_get (w_fs w) q) w"
  using assms(2-)
proof (induction es arbitrary: w)
  case Nil
  then show ?case by (simp add: meets_ret)
next
  case (Cons e es)
  have d: "deployable root [e] (w_fs w)" using Cons.prems(3) by (simp add: deployable_def)
  have "plain_name (le_db e @ ''-local.yaml'')" using Cons.prems(1) by simp
  from meets_dump_example [OF assms(1) this d, of y]
  show ?case unfolding each.simps
  proof (rule meets_bnd, goal_cases)
    case 1
    show ?case unfolding dump_example_def dumpToExamples_def by (intro keeps)
  next
    case (2 x w1)
    then obtain t where t: "fs_get (w_fs w1) = (fs_get (w_fs w))(example_path root e \<mapsto> File (example_file y e) t)" by blast
    have "example_path root e \<notin> example_path root ` set es" using Cons.prems(2) by auto
    note new = this deployable_written [OF Cons.prems(3) this t]
    have rest: "list_all (\<lambda>e. plain_name (le_db e @ ''-local.yaml'')) es" "distinct (map (example_path root) es)"
      using Cons.prems by simp_all
    show ?case
    proof (rule meets_mono [OF Cons.IH [OF rest new(2)]], rule allI, goal_cases)
      case (1 x w' q)
      then have q: "if q \<in> example_path root ` set es
        then \<exists>e\<in>set es. q = example_path root e \<and> file_at (w_fs w') q = Some (example_file y e)
        else fs_get (w_fs w') q = fs_get (w_fs w1) q" by blast
      show ?case
      proof (cases "q \<in> example_path root ` set es")
        case True
        then show ?thesis using q by auto
      next
        case False
        then have "fs_get (w_fs w') q = fs_get (w_fs w1) q" using q by simp
        then show ?thesis using False by (auto simp: t file_at_Some)
      qed
    qed
  qed
qed

lemma example_names:
  "list_all (\<lambda>e. plain_name (le_db e @ ''-local.yaml'')) local_examples" "distinct (map le_db local_examples)"
  by (simp_all add: local_examples_def plain_name_def Etcd_name_def Postgres_name_def RethinkDB_name_def Redis_name_def
      KeyDB_name_def Valkey_name_def Localfs_name_def)

lemma example_path_inj: "example_path root e = example_path root e' \<longleftrightarrow> le_db e = le_db e'"
  by (simp add: example_path_def)

lemma distinct_example_paths: "distinct (map (example_path root) local_examples)"
proof -
  have "distinct (map f xs) \<Longrightarrow> (\<And>x y. g x = g y \<longleftrightarrow> f x = f y) \<Longrightarrow> distinct (map g xs)"
    for f :: "local_example \<Rightarrow> string" and g :: "local_example \<Rightarrow> fpath" and xs
    by (induction xs) auto
  from this [OF example_names(2) example_path_inj] show ?thesis .
qed

text \<open>No object that is written names a namespace or asks for the network of the host.\<close>

fun template_for_users :: "resource \<Rightarrow> bool" where
  "template_for_users (StatefulSet s) \<longleftrightarrow> om_Namespace (ss_Meta s) = '''' \<and> \<not> ps_HostNetwork (ss_PodSpec s)"
| "template_for_users r \<longleftrightarrow> om_Namespace (obj_meta r) = ''''"

lemma dumped_template: "template_for_users (dumped r)"
  by (cases r) (simp_all add: dumped_def)

text \<open>The generator writes, for every example, one file \<open>deploy/<db>-local.yaml\<close> of the working copy: the
  header and the documents of the example's objects, the stateful set first, none of them with a namespace or
  the host network; it touches nothing else, and it can only fail where a system call fails.\<close>

theorem dump_main_writes:
  assumes "rooted root" "deployable root local_examples (w_fs w)"
  shows "meets (dump_main (\<lambda>r. Inr (y r)) (generator_source root)) (\<lambda>_ w'.
       list_all (\<lambda>e. file_at (w_fs w') (resolve root @ [''deploy'', le_db e @ ''-local.yaml'']) = Some (bytes_of dump_header @
           join_docs (map (y \<circ> dumped) (StatefulSet (le_sts e ''default'') # le_backing e ''default'')))) local_examples \<and>
       (\<forall>q. q \<notin> example_path root ` set local_examples \<longrightarrow> fs_get (w_fs w') q = fs_get (w_fs w) q)) w \<and>
     list_all (\<lambda>e. list_all template_for_users (map dumped (example_objects e ''default''))) local_examples"
proof (rule conjI)
  show "list_all (\<lambda>e. list_all template_for_users (map dumped (example_objects e ''default''))) local_examples"
    by (simp add: list_all_iff dumped_template)
  have inj: "e = e'" if "e \<in> set local_examples" "e' \<in> set local_examples" "example_path root e = example_path root e'" for e e'
    using distinct_example_paths [of root] that unfolding distinct_map inj_on_def by blast
  show "meets (dump_main (\<lambda>r. Inr (y r)) (generator_source root)) (\<lambda>_ w'.
       list_all (\<lambda>e. file_at (w_fs w') (resolve root @ [''deploy'', le_db e @ ''-local.yaml'']) = Some (bytes_of dump_header @
           join_docs (map (y \<circ> dumped) (StatefulSet (le_sts e ''default'') # le_backing e ''default'')))) local_examples \<and>
       (\<forall>q. q \<notin> example_path root ` set local_examples \<longrightarrow> fs_get (w_fs w') q = fs_get (w_fs w) q)) w"
    unfolding dump_main_def
  proof (rule meets_mono [OF meets_dump_all [OF assms(1) example_names(1) distinct_example_paths assms(2)]], goal_cases)
    case (1 x w')
    have "file_at (w_fs w') (example_path root e) = Some (example_file y e)" if "e \<in> set local_examples" for e
    proof -
      have "example_path root e \<in> example_path root ` set local_examples" using that by blast
      with 1 obtain e' where "e' \<in> set local_examples" "example_path root e = example_path root e'"
        "file_at (w_fs w') (example_path root e) = Some (example_file y e')" by metis
      with inj [OF that] show ?thesis by metis
    qed
    then show ?case using 1 by (auto simp: list_all_iff example_path_def example_file_def example_objects_def)
  qed
qed

theorem dump_main_writes_witness:
  "\<exists>w'. dump_main (\<lambda>r. Inr [1]) (generator_source ''/r'') (calm [([''r''], Dir 0), ([''r'', ''deploy''], Dir 0)] ()) = (Inr (), w') \<and>
     file_at (w_fs w') [''r'', ''deploy'', ''etcd-local.yaml''] =
       Some (bytes_of dump_header @ [1] @ bytes_of (text_of [''---'']) @ [1])"
proof -
  let ?w = "calm [([''r''], Dir 0), ([''r'', ''deploy''], Dir 0)] () :: unit world"
  have r: "rooted ''/r''" "resolve ''/r'' = [''r'']" by (simp_all add: rooted_def resolve_def)
  have d: "deployable ''/r'' local_examples (w_fs ?w)"
    unfolding deployable_def example_path_def r(2)
    by (simp add: parents_ok_def fs_get_def list_all_iff)
  have "quiet ?w" by simp
  then obtain w' where "dump_main (\<lambda>r. Inr [1]) (generator_source ''/r'') ?w = (Inr (), w')"
    "list_all (\<lambda>e. file_at (w_fs w') ([''r''] @ [''deploy'', le_db e @ ''-local.yaml'']) = Some (bytes_of dump_header @
       join_docs (map ((\<lambda>_. [1]) \<circ> dumped) (StatefulSet (le_sts e ''default'') # le_backing e ''default'')))) local_examples"
    using meets_quiet [OF conjunct1 [OF dump_main_writes [OF r(1) d, of "\<lambda>_. [1]"]]] unfolding r(2) by auto
  then show ?thesis
    by (intro exI [of _ w']) (simp add: local_examples_def Etcd_name_def EtcdBackingResources_def)
qed

end
