(* ===== verification/Signals.thy ===== *)
theory Signals
  imports Prelude
begin

text \<open>
  Signals: \<open>initSignalHandlers\<close> of \<open>cmd/main.go\<close>, and the two goroutines of
  \<open>ExecWithStreamingOutput\<close> in \<open>utils/cmd.go\<close> that stop the process of a command, beside the process
  itself and the call of \<open>Wait\<close> that reaps it.  The two sides only meet in signals.
\<close>

datatype signal = SIGHUP | SIGINT | SIGTERM | SIGKILL

text \<open>The signals that end the context \<open>stop\<close>: \<open>os.Interrupt\<close> and \<open>os.Kill\<close>.\<close>

definition initSignalHandlers :: "signal list" where
  "initSignalHandlers = [SIGINT, SIGKILL]"

text \<open>The process of the command; \<open>Reaped\<close> once \<open>Wait\<close> has returned.  The goroutine that waits for the
  end of the context, and the one that sleeps before it kills.\<close>

datatype child = Running | Ended | Reaped

datatype watcher = Waits | ToInterrupt | Through

datatype killer = Unborn | Sleeps nat | Fired

record command_run =
  c_alive :: bool
  c_panicked :: bool
  c_stop :: bool
  c_child :: child
  c_got :: "signal list"
  c_watcher :: watcher
  c_killer :: killer

definition started :: command_run where
  "started = \<lparr>c_alive = True, c_panicked = False, c_stop = False, c_child = Running, c_got = [], c_watcher = Waits, c_killer = Unborn\<rparr>"

text \<open>A signal for the sidecar: one that is asked for ends the context, if the system delivers it at all;
  any other ends the program, as is the default for a Go program.\<close>

definition delivered :: "signal \<Rightarrow> command_run \<Rightarrow> command_run" where
  "delivered s c = (if s \<in> set initSignalHandlers \<and> s \<noteq> SIGKILL then c\<lparr>c_stop := True\<rparr> else c\<lparr>c_alive := False\<rparr>)"

text \<open>\<open>cmd.Process.Signal\<close>: an error only for a process that was waited for.\<close>

definition Process_Signal :: "signal \<Rightarrow> command_run \<Rightarrow> bool \<times> command_run" where
  "Process_Signal s c = (case c_child c of
     Running \<Rightarrow> (True, c\<lparr>c_got := c_got c @ [s], c_child := if s = SIGKILL then Ended else Running\<rparr>)
   | Ended \<Rightarrow> (True, c)
   | Reaped \<Rightarrow> (False, c))"

datatype moment = Delivered signal | StopSeen | Interrupts | Second | Kills | ChildEnds | WaitReturns

inductive step :: "command_run \<Rightarrow> moment \<Rightarrow> command_run \<Rightarrow> bool" where
  deliver: "c_alive c \<Longrightarrow> step c (Delivered s) (delivered s c)"
| stop_seen: "c_alive c \<Longrightarrow> c_stop c \<Longrightarrow> c_watcher c = Waits \<Longrightarrow> step c StopSeen (c\<lparr>c_watcher := ToInterrupt, c_killer := Sleeps 10\<rparr>)"
| interrupts: "c_alive c \<Longrightarrow> c_watcher c = ToInterrupt \<Longrightarrow> step c Interrupts ((snd (Process_Signal SIGINT c))\<lparr>c_watcher := Through\<rparr>)"
| second: "step c Second (c\<lparr>c_killer := (case c_killer c of Sleeps n \<Rightarrow> Sleeps (n - 1) | k \<Rightarrow> k)\<rparr>)"
| kills: "c_alive c \<Longrightarrow> c_killer c = Sleeps 0 \<Longrightarrow> Process_Signal SIGKILL c = (ok, c') \<Longrightarrow>
    step c Kills (if ok then c'\<lparr>c_killer := Fired\<rparr> else c'\<lparr>c_alive := False, c_panicked := True\<rparr>)"
| child_ends: "c_child c = Running \<Longrightarrow> step c ChildEnds (c\<lparr>c_child := Ended\<rparr>)"
| wait_returns: "c_alive c \<Longrightarrow> c_child c = Ended \<Longrightarrow> step c WaitReturns (c\<lparr>c_child := Reaped\<rparr>)"

inductive_cases stepE: "step c e c'"

inductive_simps step_simps: "step c (Delivered s) c'" "step c StopSeen c'" "step c Interrupts c'" "step c Second c'"
  "step c Kills c'" "step c ChildEnds c'" "step c WaitReturns c'"

inductive run_of :: "command_run \<Rightarrow> moment list \<Rightarrow> command_run \<Rightarrow> bool" for c where
  here: "run_of c [] c"
| more: "run_of c es c' \<Longrightarrow> step c' e c'' \<Longrightarrow> run_of c (es @ [e]) c''"

inductive_cases run_of_NilE: "run_of c [] c'"

lemma run_of_split: "run_of c (xs @ ys) c'' \<Longrightarrow> \<exists>c'. run_of c xs c' \<and> run_of c' ys c''"
proof (induction ys arbitrary: c'' rule: rev_induct)
  case Nil
  then show ?case by (auto intro: run_of.here)
next
  case (snoc y ys)
  from snoc.prems show ?case
  proof (cases rule: run_of.cases)
    case (more es c' e)
    then have "run_of c (xs @ ys) c'" "step c' y c''" by simp_all
    then show ?thesis using snoc.IH [of c'] run_of.more by blast
  qed simp
qed

lemma run_of_one: "run_of c [e] c' \<longleftrightarrow> step c e c'"
proof
  assume "run_of c [e] c'"
  then show "step c e c'" by cases (auto elim: run_of_NilE)
next
  assume "step c e c'"
  then show "run_of c [e] c'" using run_of.more [OF run_of.here, of c e c'] by simp
qed

lemma run_of_trans: "run_of c' ys c'' \<Longrightarrow> run_of c xs c' \<Longrightarrow> run_of c (xs @ ys) c''"
  by (induction rule: run_of.induct) (auto intro: run_of.more simp flip: append_assoc)

text \<open>Rules for what a run keeps.\<close>

lemma run_of_keeps: "run_of c es c' \<Longrightarrow> I c \<Longrightarrow> (\<And>c e c'. I c \<Longrightarrow> step c e c' \<Longrightarrow> I c') \<Longrightarrow> I c'"
  by (induction rule: run_of.induct) auto

section \<open>Who signals the command\<close>

definition seconds :: "moment list \<Rightarrow> nat" where
  "seconds es = length (filter ((=) Second) es)"

text \<open>What a run has done so far.\<close>

definition in_order :: "moment list \<Rightarrow> command_run \<Rightarrow> bool" where
  "in_order es c \<longleftrightarrow>
     (c_stop c \<longrightarrow> Delivered SIGINT \<in> set es) \<and> (c_watcher c \<noteq> Waits \<longrightarrow> c_stop c) \<and> (c_killer c = Unborn \<longleftrightarrow> c_watcher c = Waits) \<and>
     (\<forall>n. c_killer c = Sleeps n \<longrightarrow> 10 \<le> n + seconds es) \<and> (c_killer c = Fired \<longrightarrow> 10 \<le> seconds es)"

definition got_order :: "command_run \<Rightarrow> bool" where
  "got_order c \<longleftrightarrow> (c_killer c = Unborn \<longleftrightarrow> c_watcher c = Waits) \<and>
     (case c_got c of [] \<Rightarrow> True
      | s # ss \<Rightarrow> if s = SIGINT then c_watcher c = Through \<and> (ss = [] \<or> ss = [SIGKILL] \<and> c_killer c = Fired \<and> c_child c \<noteq> Running)
                else s = SIGKILL \<and> ss = [] \<and> c_killer c = Fired \<and> c_child c \<noteq> Running)"

lemma seconds_snoc [simp]: "seconds (es @ [e]) = seconds es + (if e = Second then 1 else 0)"
  by (simp add: seconds_def)

lemma Process_Signal_fields [simp]:
  "c_stop (snd (Process_Signal s c)) = c_stop c" "c_watcher (snd (Process_Signal s c)) = c_watcher c"
  "c_killer (snd (Process_Signal s c)) = c_killer c"
  by (simp_all add: Process_Signal_def split: child.split)

lemma in_order_step:
  assumes "step c e c'" "in_order es c"
  shows "in_order (es @ [e]) c'"
proof -
  have *: "c_stop c \<Longrightarrow> Delivered SIGINT \<in> set es" "c_watcher c \<noteq> Waits \<Longrightarrow> c_stop c" "c_killer c = Unborn \<longleftrightarrow> c_watcher c = Waits"
    "c_killer c = Sleeps n \<Longrightarrow> 10 \<le> n + seconds es" "c_killer c = Fired \<Longrightarrow> 10 \<le> seconds es" for n
    using assms(2) by (simp_all add: in_order_def)
  show ?thesis using assms(1)
  proof cases
    case (deliver s)
    then show ?thesis using * by (cases s) (simp_all add: in_order_def delivered_def initSignalHandlers_def)
  next
    case stop_seen
    then show ?thesis using * by (simp add: in_order_def)
  next
    case interrupts
    then show ?thesis using * by (simp add: in_order_def)
  next
    case second
    then show ?thesis using *(1-3) *(4,5) by (cases "c_killer c") (force simp: in_order_def)+
  next
    case (kills ok c1)
    then have "c1 = snd (Process_Signal SIGKILL c)" by simp
    then show ?thesis using kills(2,4) * by (simp add: in_order_def)
  next
    case child_ends
    then show ?thesis using * by (simp add: in_order_def)
  next
    case wait_returns
    then show ?thesis using * by (simp add: in_order_def)
  qed
qed

lemma got_order_step:
  assumes "step c e c'" "got_order c"
  shows "got_order c'"
  using assms(1)
proof cases
  case (deliver s)
  then show ?thesis using assms(2) by (auto simp: got_order_def delivered_def split: list.splits if_splits)
next
  case interrupts
  then show ?thesis using assms(2)
    by (cases "c_child c"; cases "c_got c") (auto simp: got_order_def Process_Signal_def split: if_splits)
next
  case second
  then show ?thesis using assms(2) by (cases "c_killer c") (auto simp: got_order_def split: list.splits if_splits)
next
  case (kills c1 ok)
  then show ?thesis using assms(2)
    by (cases "c_child c"; cases "c_got c") (auto simp: got_order_def Process_Signal_def split: if_splits)
qed (use assms(2) in \<open>auto simp: got_order_def split: list.splits if_splits\<close>)

lemma run_in_order: "run_of started es c \<Longrightarrow> in_order es c \<and> got_order c"
proof (induction rule: run_of.induct)
  case here
  then show ?case by (simp add: in_order_def got_order_def started_def)
qed (blast intro: in_order_step got_order_step)

text \<open>The process of a command is signalled only after the sidecar was interrupted; it gets the interrupt
  at most once and not after a kill, and the kill at most once and not within ten seconds.\<close>

theorem command_signals:
  assumes "run_of started es c"
  shows "c_got c \<in> {[], [SIGINT], [SIGKILL], [SIGINT, SIGKILL]} \<and> (c_got c \<noteq> [] \<longrightarrow> Delivered SIGINT \<in> set es) \<and>
    (SIGKILL \<in> set (c_got c) \<longrightarrow> 10 \<le> seconds es)"
proof -
  have "in_order es c" "got_order c" using run_in_order [OF assms] by simp_all
  then show ?thesis
    by (cases "c_got c") (auto simp: in_order_def got_order_def split: if_splits)
qed

lemma run_of_snoc: "run_of c (es @ [e]) c'' \<longleftrightarrow> (\<exists>c'. run_of c es c' \<and> step c' e c'')"
  using run_of_split [of c es "[e]" c''] by (auto intro: run_of.more simp: run_of_one)

lemma short_step: "step c e c' \<Longrightarrow> (\<forall>n. c_killer c = Sleeps n \<longrightarrow> n \<le> 10) \<Longrightarrow> (\<forall>n. c_killer c' = Sleeps n \<longrightarrow> n \<le> 10)"
  by (erule stepE) (auto simp: delivered_def Process_Signal_def split: child.splits killer.splits if_splits)

lemma run_short: "run_of started es c \<Longrightarrow> \<forall>n. c_killer c = Sleeps n \<longrightarrow> n \<le> 10"
  by (erule run_of_keeps) (simp add: started_def, blast dest: short_step)

lemma sleeps_run: "c_killer c = Sleeps n \<Longrightarrow> run_of c (replicate n Second) (c\<lparr>c_killer := Sleeps 0\<rparr>)"
proof (induction n arbitrary: c)
  case 0
  then have "c\<lparr>c_killer := Sleeps 0\<rparr> = c" by (cases c) simp
  then show ?case by (simp add: run_of.here)
next
  case (Suc n)
  have "run_of c [Second] (c\<lparr>c_killer := Sleeps n\<rparr>)" using step.second [of c] Suc.prems by (simp add: run_of_one)
  from run_of_trans [OF Suc.IH this] show ?case by simp
qed

theorem command_signals_witness:
  "\<exists>c. run_of started ([Delivered SIGINT, StopSeen, Interrupts] @ replicate 10 Second @ [Kills]) c \<and> c_got c = [SIGINT, SIGKILL] \<and>
     10 \<le> seconds ([Delivered SIGINT, StopSeen, Interrupts] @ replicate 10 Second @ [Kills])"
proof -
  let ?c = "started\<lparr>c_stop := True, c_watcher := Through, c_got := [SIGINT], c_killer := Sleeps 10\<rparr>"
  have "run_of started [Delivered SIGINT, StopSeen, Interrupts] ?c"
    using run_of_snoc [of started "[Delivered SIGINT, StopSeen]" Interrupts] run_of_snoc [of started "[Delivered SIGINT]" StopSeen]
    by (simp add: run_of_one step_simps started_def delivered_def initSignalHandlers_def Process_Signal_def)
  moreover have "run_of ?c (replicate 10 Second @ [Kills]) (?c\<lparr>c_child := Ended, c_got := [SIGINT, SIGKILL], c_killer := Fired\<rparr>)"
    by (rule run_of.more [OF sleeps_run]) (use step.kills [of "?c\<lparr>c_killer := Sleeps 0\<rparr>" True] in \<open>simp_all add: started_def Process_Signal_def\<close>)
  ultimately have "run_of started ([Delivered SIGINT, StopSeen, Interrupts] @ replicate 10 Second @ [Kills])
      (?c\<lparr>c_child := Ended, c_got := [SIGINT, SIGKILL], c_killer := Fired\<rparr>)"
    by (rule run_of_trans [rotated])
  with command_signals [OF this] show ?thesis by auto
qed

section \<open>The stop of a container\<close>

text \<open>A sidecar that is no longer alive signals nobody.\<close>

lemma dead_step: "step c e c' \<Longrightarrow> \<not> c_alive c \<Longrightarrow> \<not> c_alive c' \<and> c_got c' = c_got c \<and> c_panicked c' = c_panicked c"
  by (erule stepE) auto

lemma dead_run: "run_of c es c' \<Longrightarrow> \<not> c_alive c \<Longrightarrow> \<not> c_alive c' \<and> c_got c' = c_got c \<and> c_panicked c' = c_panicked c"
  by (induction rule: run_of.induct) (auto dest: dead_step)

text \<open>C32: SIGTERM, with which a container is stopped, is not among the signals that the sidecar asks for: it
  ends the sidecar at once, and the command that it runs (typically the database) is never asked to stop.\<close>

theorem SIGTERM_not_forwarded:
  assumes "run_of started (xs @ Delivered SIGTERM # ys) c" "Delivered SIGINT \<notin> set xs"
  shows "\<not> c_alive c \<and> c_got c = []"
proof -
  from run_of_split [of started "xs @ [Delivered SIGTERM]" ys c] assms(1)
  obtain c1 where c1: "run_of started (xs @ [Delivered SIGTERM]) c1" "run_of c1 ys c" by auto
  from run_of_split [OF c1(1)] obtain c0 where c0: "run_of started xs c0" "step c0 (Delivered SIGTERM) c1"
    by (auto simp: run_of_one)
  have "\<not> c_alive c1" "c_got c1 = c_got c0" using c0(2) by (auto simp: step_simps delivered_def initSignalHandlers_def)
  moreover have "c_got c0 = []" using command_signals [OF c0(1)] assms(2) by blast
  ultimately show ?thesis using dead_run [OF c1(2)] by simp
qed

theorem SIGTERM_not_forwarded_witness:
  "\<exists>c. run_of started [Delivered SIGTERM] c \<and> \<not> c_alive c \<and> c_got c = [] \<and> c_child c = Running"
proof -
  have run: "run_of started ([] @ [Delivered SIGTERM]) (delivered SIGTERM started)"
    by (rule run_of.more [OF run_of.here], rule step.deliver) (simp add: started_def)
  from SIGTERM_not_forwarded [of "[]" "[]", OF this] run show ?thesis
    by (auto simp: delivered_def initSignalHandlers_def started_def)
qed

section \<open>A command that has ended\<close>

text \<open>Once \<open>Wait\<close> has returned no signal can be sent any more.\<close>

lemma reaped_step: "step c e c' \<Longrightarrow> c_child c = Reaped \<Longrightarrow> c_child c' = Reaped \<and> (e = Kills \<longrightarrow> c_panicked c') \<and> (c_panicked c \<longrightarrow> c_panicked c')"
  by (erule stepE) (auto simp: delivered_def Process_Signal_def split: if_splits)

lemma reaped_run: "run_of c es c' \<Longrightarrow> c_child c = Reaped \<Longrightarrow> c_child c' = Reaped \<and> (Kills \<in> set es \<longrightarrow> c_panicked c')"
proof (induction rule: run_of.induct)
  case (more es c1 e c2)
  then show ?case using reaped_step [OF more.hyps(2)] by auto
qed simp

text \<open>C33: the goroutines of a command outlive it. When the sidecar is asked to stop after a command has ended
  (one of the commands before the start, say), the goroutine tries to kill the process that is gone, and its
  error is a panic: the sidecar panics after ten seconds, unless it has ended before.\<close>

theorem finished_command_panics:
  assumes "run_of started es c" "c_alive c" "c_child c = Reaped" "c_stop c" "c_killer c \<noteq> Fired"
  shows "(\<exists>fs c'. run_of c fs c' \<and> c_panicked c' \<and> seconds fs \<le> 10 \<and> (\<forall>s. Delivered s \<notin> set fs)) \<and>
    (\<forall>fs c'. run_of c fs c' \<longrightarrow> Kills \<in> set fs \<longrightarrow> c_panicked c')"
proof -
  have kill: "step d Kills (d\<lparr>c_alive := False, c_panicked := True\<rparr>)"
    if "c_alive d" "c_child d = Reaped" "c_killer d = Sleeps 0" for d
    using step.kills [OF that(1,3), of False d] that(2) by (simp add: Process_Signal_def)
  have sleeping: "\<exists>fs d'. run_of d fs d' \<and> c_panicked d' \<and> seconds fs = n \<and> (\<forall>s. Delivered s \<notin> set fs)"
    if "c_alive d" "c_child d = Reaped" "c_killer d = Sleeps n" for d n
    by (rule exI [of _ "replicate n Second @ [Kills]"], rule exI, intro conjI, rule run_of.more [OF sleeps_run [OF that(3)] kill])
      (use that in \<open>auto simp: seconds_def\<close>)
  have "\<exists>fs c'. run_of c fs c' \<and> c_panicked c' \<and> seconds fs \<le> 10 \<and> (\<forall>s. Delivered s \<notin> set fs)"
  proof (cases "c_killer c")
    case Unborn
    then have "c_watcher c = Waits" using run_in_order [OF assms(1)] by (simp add: in_order_def)
    then have 1: "run_of c [StopSeen] (c\<lparr>c_watcher := ToInterrupt, c_killer := Sleeps 10\<rparr>)"
      using step.stop_seen [of c] assms by (simp add: run_of_one)
    from sleeping [of "c\<lparr>c_watcher := ToInterrupt, c_killer := Sleeps 10\<rparr>" 10] assms
    obtain fs c' where "run_of (c\<lparr>c_watcher := ToInterrupt, c_killer := Sleeps 10\<rparr>) fs c'" "c_panicked c'" "seconds fs = 10"
      "\<forall>s. Delivered s \<notin> set fs" by auto
    then show ?thesis using run_of_trans [OF _ 1] by (intro exI [of _ "StopSeen # fs"] exI [of _ c']) (auto simp: seconds_def)
  next
    case (Sleeps n)
    moreover from this have "n \<le> 10" using run_short [OF assms(1)] by simp
    ultimately show ?thesis using sleeping [OF assms(2,3) Sleeps] by (metis)
  qed (use assms(5) in simp)
  then show ?thesis using reaped_run assms(3) by blast
qed

theorem finished_command_panics_witness:
  "\<exists>c c' fs. run_of started [ChildEnds, WaitReturns, Delivered SIGINT] c \<and> run_of c fs c' \<and> c_panicked c' \<and> seconds fs \<le> 10"
proof -
  let ?c = "started\<lparr>c_child := Reaped, c_stop := True\<rparr>"
  have "run_of started ((([] @ [ChildEnds]) @ [WaitReturns]) @ [Delivered SIGINT]) ?c"
    by (intro run_of.more [where c' = "started\<lparr>c_child := Reaped\<rparr>"] run_of.more [where c' = "started\<lparr>c_child := Ended\<rparr>"]
        run_of.more [where c' = started] run_of.here)
      (simp_all add: step_simps started_def delivered_def initSignalHandlers_def)
  then have run: "run_of started [ChildEnds, WaitReturns, Delivered SIGINT] ?c" by simp
  from finished_command_panics [OF this] run show ?thesis by (auto simp: started_def)
qed

end
